(* ===== verification/Prelude.thy ===== *)
theory Prelude
  imports Main "HOL-Library.Word"
begin

text \<open>
  Shared vocabulary of the development.

  \<^item> Bytes and machine integers.  A \<open>u8\<close> is an \<open>8 word\<close>.  The identifier, index, term and time
    types of \<open>cc-core\<close> (all newtypes over \<open>u64\<close>) are natural numbers; every place where the
    source saturates or checks is written out with the constants below.  Values that are only
    used bitwise (checksums, hashes, generator states, feature masks) are words.
  \<^item> Results.  \<open>Result<T, E>\<close> is the sum \<open>'e + 'a\<close> (\<open>Inl\<close> is the error); \<open>res_bind\<close> is \<open>?\<close>.
  \<^item> Ordered containers.  A \<open>BTreeSet\<close> is its strictly increasing list of elements and a
    \<open>BTreeMap\<close> its list of bindings with strictly increasing keys, so that iteration order, size
    and equality are those of the source and every operation computes.
\<close>

named_theorems bset_simps \<open>membership and order facts about ordered sets and maps\<close>
named_theorems u_bounds \<open>numeric bounds of the machine integer types\<close>

section \<open>Machine integers\<close>

type_synonym byte = "8 word"
type_synonym bytes = "byte list"
type_synonym u32w = "32 word"
type_synonym u64w = "64 word"

definition u16_max :: nat where "u16_max = 2 ^ 16 - 1"
definition u32_max :: nat where "u32_max = 2 ^ 32 - 1"
definition u64_max :: nat where "u64_max = 2 ^ 64 - 1"
definition usize_max :: nat where "usize_max = 2 ^ 64 - 1"

lemmas u_max_defs = u16_max_def u32_max_def u64_max_def usize_max_def

definition sat_add :: "nat \<Rightarrow> nat \<Rightarrow> nat" where
  "sat_add a b = min (a + b) u64_max"

definition sat_mul :: "nat \<Rightarrow> nat \<Rightarrow> nat" where
  "sat_mul a b = min (a * b) u64_max"

definition checked_add :: "nat \<Rightarrow> nat \<Rightarrow> nat option" where
  "checked_add a b = (if a + b \<le> u64_max then Some (a + b) else None)"

definition checked_mul :: "nat \<Rightarrow> nat \<Rightarrow> nat option" where
  "checked_mul a b = (if a * b \<le> u64_max then Some (a * b) else None)"

definition checked_sub :: "nat \<Rightarrow> nat \<Rightarrow> nat option" where
  "checked_sub a b = (if b \<le> a then Some (a - b) else None)"

lemma sat_add_exact [simp]: "a + b \<le> u64_max \<Longrightarrow> sat_add a b = a + b"
  by (simp add: sat_add_def)

lemma sat_add_le [u_bounds]: "sat_add a b \<le> u64_max"
  by (simp add: sat_add_def)

lemma sat_add_mono: "a \<le> a' \<Longrightarrow> sat_add a b \<le> sat_add a' b"
  by (simp add: sat_add_def)

section \<open>Little-endian integers\<close>

primrec to_le :: "nat \<Rightarrow> nat \<Rightarrow> bytes" where
  "to_le 0 v = []"
| "to_le (Suc n) v = word_of_nat v # to_le n (v div 256)"

primrec from_le :: "bytes \<Rightarrow> nat" where
  "from_le [] = 0"
| "from_le (b # bs) = unat b + 256 * from_le bs"

lemma length_to_le [simp]: "length (to_le n v) = n"
  by (induction n arbitrary: v) auto

lemma unat_byte_less: "unat (b :: byte) < 256"
  using unsigned_less[of b, where 'a = nat] by simp

lemma from_le_less: "from_le bs < 256 ^ length bs"
proof (induction bs)
  case (Cons b bs)
  have "unat b < 256" by (rule unat_byte_less)
  moreover have "from_le bs + 1 \<le> 256 ^ length bs" using Cons by simp
  then have "256 * from_le bs + 256 \<le> 256 * 256 ^ length bs"
    by (metis add_mult_distrib2 mult.right_neutral mult_le_mono2)
  ultimately show ?case by simp
qed simp

lemma from_le_to_le_mod: "from_le (to_le n v) = v mod 256 ^ n"
proof (induction n arbitrary: v)
  case (Suc n)
  have "from_le (to_le (Suc n) v) = v mod 256 + 256 * (v div 256 mod 256 ^ n)"
    using Suc by (simp add: unat_of_nat)
  also have "\<dots> = v mod (256 * 256 ^ n)"
    by (simp add: mod_mult2_eq)
  finally show ?case by simp
qed simp

lemma from_le_to_le [simp]: "v < 256 ^ n \<Longrightarrow> from_le (to_le n v) = v"
  by (simp add: from_le_to_le_mod)

lemma to_le_from_le [simp]: "to_le (length bs) (from_le bs) = bs"
proof (induction bs)
  case (Cons b bs)
  have "(of_nat (unat b + 256 * from_le bs) :: byte) = b"
  proof -
    have "unat (of_nat (unat b + 256 * from_le bs) :: byte) = (unat b + 256 * from_le bs) mod 256"
      by (simp only: unat_of_nat) simp
    also have "\<dots> = unat b" using unat_byte_less[of b] by simp
    finally show ?thesis by (simp add: word_unat_eq_iff)
  qed
  moreover have "(unat b + 256 * from_le bs) div 256 = from_le bs"
    using unat_byte_less[of b] by simp
  ultimately show ?case using Cons by simp
qed simp

lemma to_le_from_le_length: "length bs = n \<Longrightarrow> to_le n (from_le bs) = bs"
  using to_le_from_le by blast

lemma to_le_inject:
  "v < 256 ^ n \<Longrightarrow> w < 256 ^ n \<Longrightarrow> to_le n v = to_le n w \<longleftrightarrow> v = w"
  by (metis from_le_to_le)

section \<open>Results\<close>

fun res_bind :: "'e + 'a \<Rightarrow> ('a \<Rightarrow> 'e + 'b) \<Rightarrow> 'e + 'b" where
  "res_bind (Inl e) f = Inl e"
| "res_bind (Inr x) f = f x"

fun map_err :: "('e \<Rightarrow> 'f) \<Rightarrow> 'e + 'a \<Rightarrow> 'f + 'a" where
  "map_err g (Inl e) = Inl (g e)"
| "map_err g (Inr x) = Inr x"

fun is_ok :: "'e + 'a \<Rightarrow> bool" where
  "is_ok (Inl _) = False"
| "is_ok (Inr _) = True"

lemma res_bind_Inr_iff: "res_bind r f = Inr y \<longleftrightarrow> (\<exists>x. r = Inr x \<and> f x = Inr y)"
  by (cases r) auto

lemma res_bind_Inl_iff: "res_bind r f = Inl e \<longleftrightarrow> r = Inl e \<or> (\<exists>x. r = Inr x \<and> f x = Inl e)"
  by (cases r) auto

lemma is_ok_iff: "is_ok r \<longleftrightarrow> (\<exists>x. r = Inr x)"
  by (cases r) auto

section \<open>Ordered sets\<close>

type_synonym 'a bset = "'a list"

definition bset_ok :: "('a::linorder) bset \<Rightarrow> bool" where
  "bset_ok xs \<longleftrightarrow> sorted_wrt (<) xs"

primrec bset_insert :: "'a::linorder \<Rightarrow> 'a bset \<Rightarrow> 'a bset" where
  "bset_insert x [] = [x]"
| "bset_insert x (y # ys) =
     (if x < y then x # y # ys else if x = y then y # ys else y # bset_insert x ys)"

definition bset_extend :: "('a::linorder) bset \<Rightarrow> 'a list \<Rightarrow> 'a bset" where
  "bset_extend xs ys = fold bset_insert ys xs"

definition bset_remove :: "'a \<Rightarrow> 'a bset \<Rightarrow> 'a bset" where
  "bset_remove x xs = filter (\<lambda>y. y \<noteq> x) xs"

definition bset_diff :: "'a bset \<Rightarrow> 'a bset \<Rightarrow> 'a bset" where
  "bset_diff xs ys = filter (\<lambda>x. x \<notin> set ys) xs"

lemma set_bset_insert [simp]: "set (bset_insert x xs) = insert x (set xs)"
  by (induction xs) auto

lemma bset_ok_Nil [simp]: "bset_ok []"
  by (simp add: bset_ok_def)

lemma bset_ok_single [simp]: "bset_ok [x]"
  by (simp add: bset_ok_def)

lemma bset_ok_Cons: "bset_ok (x # xs) \<longleftrightarrow> (\<forall>y \<in> set xs. x < y) \<and> bset_ok xs"
  by (simp add: bset_ok_def)

lemma bset_ok_insert [simp]: "bset_ok xs \<Longrightarrow> bset_ok (bset_insert x xs)"
  by (induction xs) (auto simp: bset_ok_Cons)

lemma bset_ok_filter [simp]: "bset_ok xs \<Longrightarrow> bset_ok (filter P xs)"
  by (simp add: bset_ok_def sorted_wrt_filter)

lemma bset_ok_distinct: "bset_ok xs \<Longrightarrow> distinct xs"
  by (simp add: bset_ok_def strict_sorted_iff)

lemma bset_ok_sorted: "bset_ok xs \<Longrightarrow> sorted xs"
  by (simp add: bset_ok_def strict_sorted_iff)

lemma set_bset_extend [simp]: "set (bset_extend xs ys) = set xs \<union> set ys"
  unfolding bset_extend_def by (induction ys arbitrary: xs) auto

lemma bset_ok_extend [simp]: "bset_ok xs \<Longrightarrow> bset_ok (bset_extend xs ys)"
  unfolding bset_extend_def by (induction ys arbitrary: xs) auto

lemma set_bset_remove [simp]: "set (bset_remove x xs) = set xs - {x}"
  by (auto simp: bset_remove_def)

lemma bset_ok_remove [simp]: "bset_ok xs \<Longrightarrow> bset_ok (bset_remove x xs)"
  by (simp add: bset_remove_def)

lemma set_bset_diff [simp]: "set (bset_diff xs ys) = set xs - set ys"
  by (auto simp: bset_diff_def)

lemma bset_ok_diff [simp]: "bset_ok xs \<Longrightarrow> bset_ok (bset_diff xs ys)"
  by (simp add: bset_diff_def)

lemma bset_eq_iff: "bset_ok xs \<Longrightarrow> bset_ok ys \<Longrightarrow> xs = ys \<longleftrightarrow> set xs = set ys"
  by (metis bset_ok_def strict_sorted_equal)

lemma length_bset: "bset_ok xs \<Longrightarrow> length xs = card (set xs)"
  by (simp add: bset_ok_distinct distinct_card)

lemma length_bset_mono: "distinct xs \<Longrightarrow> set xs \<subseteq> set ys \<Longrightarrow> length xs \<le> length ys"
  by (metis List.finite_set card_length card_mono distinct_card le_trans)

lemma length_filter_bset:
  "distinct xs \<Longrightarrow> length (filter P xs) = card {x \<in> set xs. P x}"
  by (metis distinct_card distinct_filter set_filter)

lemma bset_insert_snoc:
  "\<forall>y \<in> set xs. y < x \<Longrightarrow> bset_insert x xs = xs @ [x]"
  by (induction xs) auto

lemma bset_extend_sorted:
  "bset_ok (xs @ ys) \<Longrightarrow> bset_extend xs ys = xs @ ys"
  unfolding bset_extend_def
proof (induction ys arbitrary: xs)
  case (Cons y ys)
  have "\<forall>z \<in> set xs. z < y"
    using Cons.prems by (auto simp: bset_ok_def sorted_wrt_append)
  then have "bset_insert y xs = xs @ [y]" by (rule bset_insert_snoc)
  with Cons.IH[of "xs @ [y]"] Cons.prems show ?case by simp
qed simp

section \<open>Ordered maps\<close>

type_synonym ('k, 'v) bmap = "('k \<times> 'v) list"

abbreviation bmap_get :: "('k, 'v) bmap \<Rightarrow> 'k \<Rightarrow> 'v option" where
  "bmap_get m k \<equiv> map_of m k"

abbreviation bmap_keys :: "('k, 'v) bmap \<Rightarrow> 'k list" where
  "bmap_keys m \<equiv> map fst m"

definition bmap_ok :: "('k::linorder, 'v) bmap \<Rightarrow> bool" where
  "bmap_ok m \<longleftrightarrow> sorted_wrt (<) (map fst m)"

fun bmap_insert :: "'k::linorder \<Rightarrow> 'v \<Rightarrow> ('k, 'v) bmap \<Rightarrow> ('k, 'v) bmap" where
  "bmap_insert k v [] = [(k, v)]"
| "bmap_insert k v ((k', v') # m) =
     (if k < k' then (k, v) # (k', v') # m
      else if k = k' then (k, v) # m
      else (k', v') # bmap_insert k v m)"

definition bmap_remove :: "'k \<Rightarrow> ('k, 'v) bmap \<Rightarrow> ('k, 'v) bmap" where
  "bmap_remove k m = filter (\<lambda>p. fst p \<noteq> k) m"

definition bmap_retain :: "('k \<Rightarrow> bool) \<Rightarrow> ('k, 'v) bmap \<Rightarrow> ('k, 'v) bmap" where
  "bmap_retain P m = filter (\<lambda>p. P (fst p)) m"

lemma map_of_bmap_insert [simp]: "map_of (bmap_insert k v m) = (map_of m)(k \<mapsto> v)"
  by (induction k v m rule: bmap_insert.induct) (auto simp: fun_eq_iff)

lemma map_of_bmap_remove [simp]: "map_of (bmap_remove k m) = (map_of m)(k := None)"
  by (induction m) (auto simp: bmap_remove_def fun_eq_iff)

lemma map_of_bmap_retain: "map_of (bmap_retain P m) k = (if P k then map_of m k else None)"
  by (induction m) (auto simp: bmap_retain_def)

lemma keys_bmap_insert [simp]: "bmap_keys (bmap_insert k v m) = bset_insert k (bmap_keys m)"
  by (induction k v m rule: bmap_insert.induct) auto

lemma keys_bmap_retain: "bmap_keys (bmap_retain P m) = filter P (bmap_keys m)"
  by (induction m) (auto simp: bmap_retain_def)

lemma bmap_remove_retain: "bmap_remove k m = bmap_retain (\<lambda>x. x \<noteq> k) m"
  by (simp add: bmap_remove_def bmap_retain_def)

lemma bmap_ok_keys: "bmap_ok m \<longleftrightarrow> bset_ok (bmap_keys m)"
  by (simp add: bmap_ok_def bset_ok_def)

lemma bmap_ok_Nil [simp]: "bmap_ok []"
  by (simp add: bmap_ok_def)

lemma bmap_ok_insert [simp]: "bmap_ok m \<Longrightarrow> bmap_ok (bmap_insert k v m)"
  by (simp add: bmap_ok_keys)

lemma bmap_ok_retain [simp]: "bmap_ok m \<Longrightarrow> bmap_ok (bmap_retain P m)"
  by (simp add: bmap_ok_keys keys_bmap_retain)

lemma bmap_ok_remove [simp]: "bmap_ok m \<Longrightarrow> bmap_ok (bmap_remove k m)"
  by (simp add: bmap_remove_retain)

lemma bmap_ok_distinct: "bmap_ok m \<Longrightarrow> distinct (map fst m)"
  by (simp add: bmap_ok_keys bset_ok_distinct)

lemma map_of_eq_None_keys: "map_of m k = None \<longleftrightarrow> k \<notin> set (bmap_keys m)"
  by (simp add: map_of_eq_None_iff)

lemma bmap_insert_snoc:
  "\<forall>x \<in> set (bmap_keys m). x < k \<Longrightarrow> bmap_insert k v m = m @ [(k, v)]"
  by (induction k v m rule: bmap_insert.induct) auto

section \<open>Lists\<close>

lemma drop_append_length: "drop (length xs) (xs @ ys) = ys"
  by simp

lemma take_drop_split:
  assumes "i + n \<le> length xs"
  shows "xs = take i xs @ take n (drop i xs) @ drop (i + n) xs"
  by (metis add.commute append_take_drop_id drop_drop)

lemma find_None_iff': "find P xs = None \<longleftrightarrow> (\<forall>x \<in> set xs. \<not> P x)"
  by (auto simp: find_None_iff)

lemma find_SomeD: "find P xs = Some x \<Longrightarrow> x \<in> set xs \<and> P x"
  by (induction xs) (auto split: if_splits)

end
