(* ===== verification/Checksum.thy ===== *)
theory Checksum
  imports Prelude
begin

text \<open>
  The checksum and the hash of \<open>crates/cc-core/src/lib.rs\<close>: the incremental CRC-32C
  (\<open>Crc32c\<close>), its variant over a record whose last four bytes count as zero, and FNV-1a.
  The lemmas show that the bit step of the CRC is injective, so that no change confined to one
  byte of a checksummed record goes unnoticed.
\<close>

unbundle bit_operations_syntax

section \<open>CRC-32C\<close>

definition Crc32c_new :: u32w where
  "Crc32c_new = - 1"

text \<open>One round of the inner loop of \<open>Crc32c::update\<close>.\<close>

definition crc_bit :: "u32w \<Rightarrow> u32w" where
  "crc_bit s = drop_bit 1 s XOR (0x82f63b78 AND (0 - (s AND 1)))"

definition crc_byte :: "byte \<Rightarrow> u32w \<Rightarrow> u32w" where
  "crc_byte b s = (crc_bit ^^ 8) (s XOR ucast b)"

definition Crc32c_update :: "u32w \<Rightarrow> bytes \<Rightarrow> u32w" where
  "Crc32c_update s bs = fold crc_byte bs s"

definition Crc32c_finish :: "u32w \<Rightarrow> u32w" where
  "Crc32c_finish s = NOT s"

definition crc32c :: "bytes \<Rightarrow> nat" where
  "crc32c bs = unat (Crc32c_finish (Crc32c_update Crc32c_new bs))"

definition crc32c_with_zeroed_tail :: "bytes \<Rightarrow> bool \<Rightarrow> nat" where
  "crc32c_with_zeroed_tail bs zero_tail =
     (let zero_from = length bs - 4
      in unat (Crc32c_finish
           (fold (\<lambda>(index, original) crc.
              Crc32c_update crc [if zero_tail \<and> zero_from \<le> index then 0 else original])
            (enumerate 0 bs) Crc32c_new)))"

definition crc32c_zeroed_tail :: "bytes \<Rightarrow> nat" where
  "crc32c_zeroed_tail bs = crc32c_with_zeroed_tail bs True"

section \<open>FNV-1a\<close>

definition fnv1a :: "bytes \<Rightarrow> u64w" where
  "fnv1a bs = fold (\<lambda>b h. (h XOR ucast b) * 0x100000001b3) bs 0xcbf29ce484222325"

section \<open>The bit step is injective\<close>

lemma crc_bit_alt:
  "crc_bit s = (if odd s then drop_bit 1 s XOR 0x82f63b78 else drop_bit 1 s)"
proof (cases "odd s")
  case True
  then have "s AND 1 = 1" by (simp add: and_one_eq odd_iff_mod_2_eq_one)
  then show ?thesis using True by (simp add: crc_bit_def)
next
  case False
  then have "s AND 1 = 0" by (simp add: and_one_eq even_iff_mod_2_eq_zero)
  then show ?thesis using False by (simp add: crc_bit_def)
qed

lemma crc_bit_top: "bit (crc_bit s) 31 \<longleftrightarrow> odd s"
proof -
  have "\<not> bit (drop_bit 1 s) 31"
    using bit_imp_le_length[of s 32] by (auto simp: bit_drop_bit_eq)
  moreover have "bit (0x82f63b78 :: u32w) 31"
    by simp
  ultimately show ?thesis
    by (simp add: crc_bit_alt bit_xor_iff)
qed

lemma drop_bit_parity_eq:
  fixes s t :: u32w
  assumes "drop_bit 1 s = drop_bit 1 t" and "odd s \<longleftrightarrow> odd t"
  shows "s = t"
proof (rule bit_word_eqI)
  fix n
  assume "n < LENGTH(32)"
  show "bit s n = bit t n"
  proof (cases n)
    case 0
    then show ?thesis using assms(2) by (simp add: bit_0)
  next
    case (Suc m)
    have "bit (drop_bit 1 s) m = bit (drop_bit 1 t) m" using assms(1) by simp
    then show ?thesis by (simp add: bit_drop_bit_eq Suc)
  qed
qed

lemma xor_cancel_right: "(a :: 'a::len word) XOR c = b XOR c \<longleftrightarrow> a = b"
proof
  assume "a XOR c = b XOR c"
  then have "(a XOR c) XOR c = (b XOR c) XOR c" by simp
  then show "a = b" by (simp add: xor.assoc)
qed simp

lemma crc_bit_inject: "crc_bit s = crc_bit t \<longleftrightarrow> s = t"
proof
  assume eq: "crc_bit s = crc_bit t"
  then have par: "odd s \<longleftrightarrow> odd t" using crc_bit_top by metis
  then have "drop_bit 1 s = drop_bit 1 t"
    using eq by (auto simp: crc_bit_alt xor_cancel_right split: if_splits)
  then show "s = t" using par by (rule drop_bit_parity_eq)
qed simp

lemma funpow_inject:
  fixes f :: "'a \<Rightarrow> 'a"
  shows "(\<And>x y. f x = f y \<longleftrightarrow> x = y) \<Longrightarrow> (f ^^ n) x = (f ^^ n) y \<longleftrightarrow> x = y"
  by (induction n) simp_all

lemma crc_byte_inject_state: "crc_byte b s = crc_byte b t \<longleftrightarrow> s = t"
  by (simp add: crc_byte_def funpow_inject crc_bit_inject xor_cancel_right)

lemma ucast_byte_inject: "(ucast (a :: byte) :: u32w) = ucast b \<longleftrightarrow> a = b"
proof
  assume eq: "(ucast a :: u32w) = ucast b"
  show "a = b"
  proof (rule bit_word_eqI)
    fix n
    assume "n < LENGTH(8)"
    moreover have "bit (ucast a :: u32w) n = bit (ucast b :: u32w) n" using eq by simp
    ultimately show "bit a n = bit b n" by (simp add: bit_ucast_iff)
  qed
qed simp

lemma crc_byte_inject_byte: "crc_byte a s = crc_byte b s \<longleftrightarrow> a = b"
proof -
  have "crc_byte a s = crc_byte b s \<longleftrightarrow> s XOR ucast a = s XOR ucast b"
    by (simp add: crc_byte_def funpow_inject crc_bit_inject)
  also have "\<dots> \<longleftrightarrow> (ucast a :: u32w) = ucast b"
    by (metis xor.commute xor_cancel_right)
  finally show ?thesis by (simp add: ucast_byte_inject)
qed

lemma update_inject_state: "Crc32c_update s bs = Crc32c_update t bs \<longleftrightarrow> s = t"
  unfolding Crc32c_update_def
  by (induction bs arbitrary: s t) (simp_all add: crc_byte_inject_state)

lemma update_append: "Crc32c_update s (xs @ ys) = Crc32c_update (Crc32c_update s xs) ys"
  by (simp add: Crc32c_update_def)

lemma finish_inject: "Crc32c_finish s = Crc32c_finish t \<longleftrightarrow> s = t"
  by (metis Crc32c_finish_def bit.double_compl)

lemma crc32c_less [u_bounds]: "crc32c bs < 2 ^ 32"
  unfolding crc32c_def using unsigned_less[where 'b = 32 and 'a = nat] by simp

section \<open>One changed byte always changes the checksum\<close>

lemma crc32c_one_byte:
  assumes "a \<noteq> b"
  shows "crc32c (xs @ a # ys) \<noteq> crc32c (xs @ b # ys)"
proof -
  let ?s = "Crc32c_update Crc32c_new xs"
  have "crc_byte a ?s \<noteq> crc_byte b ?s" using assms by (simp add: crc_byte_inject_byte)
  then have "Crc32c_update (crc_byte a ?s) ys \<noteq> Crc32c_update (crc_byte b ?s) ys"
    by (simp add: update_inject_state)
  then have "Crc32c_update Crc32c_new (xs @ a # ys) \<noteq> Crc32c_update Crc32c_new (xs @ b # ys)"
    by (simp add: update_append) (simp add: Crc32c_update_def)
  then show ?thesis by (simp add: crc32c_def finish_inject word_unat_eq_iff[symmetric])
qed

section \<open>The zeroed tail\<close>

lemma fold_enumerate_map:
  "fold (\<lambda>(i, b) s. f (g i b) s) (enumerate k bs) s
     = fold f (map (\<lambda>(i, b). g i b) (enumerate k bs)) s"
  by (simp add: fold_map comp_def case_prod_unfold)

lemma map_enumerate_const:
  "\<forall>i < k. g i = (\<lambda>b. b) \<Longrightarrow> \<forall>i \<ge> k. g i = (\<lambda>b. z) \<Longrightarrow>
   map (\<lambda>(i, b). g i b) (enumerate n bs)
     = take (k - n) bs @ replicate (length bs - (k - n)) z"
proof (induction bs arbitrary: n)
  case (Cons b bs)
  show ?case
  proof (cases "n < k")
    case True
    then have "k - n = Suc (k - Suc n)" by simp
    with True Cons show ?thesis by (simp add: enumerate_simps)
  next
    case False
    with Cons show ?thesis by (simp add: enumerate_simps)
  qed
qed simp

lemma crc32c_zeroed_tail_alt:
  "crc32c_zeroed_tail bs
     = crc32c (take (length bs - 4) bs @ replicate (length bs - (length bs - 4)) 0)"
proof -
  let ?g = "\<lambda>i b. if length bs - 4 \<le> i then 0 else (b :: byte)"
  have "fold (\<lambda>(i, b) s. Crc32c_update s [?g i b]) (enumerate 0 bs) Crc32c_new
          = fold crc_byte (map (\<lambda>(i, b). ?g i b) (enumerate 0 bs)) Crc32c_new"
    using fold_enumerate_map[of crc_byte ?g 0 bs Crc32c_new]
    by (simp add: Crc32c_update_def)
  also have "map (\<lambda>(i, b). ?g i b) (enumerate 0 bs)
      = take (length bs - 4) bs @ replicate (length bs - (length bs - 4)) 0"
    using map_enumerate_const[of "length bs - 4" ?g 0 0 bs] by auto
  finally show ?thesis
    by (simp add: crc32c_zeroed_tail_def crc32c_with_zeroed_tail_def crc32c_def Let_def
        Crc32c_update_def)
qed

lemma crc32c_zeroed_tail_append:
  "length tail = 4 \<Longrightarrow> crc32c_zeroed_tail (body @ tail) = crc32c (body @ [0, 0, 0, 0])"
  by (simp add: crc32c_zeroed_tail_alt eval_nat_numeral)

end
