(* ===== verification/Codec.thy ===== *)
theory Codec
  imports Checksum
begin

text \<open>
  The bounds-checked byte codec of \<open>crates/cc-core/src/lib.rs\<close> (\<open>DecodeError\<close>, \<open>Enc\<close>, \<open>Dec\<close>)
  and the interface every persisted or transmitted format of the system implements.

  An \<open>Enc\<close> operation is the byte string it appends.  A \<open>Dec\<close> is its slice and offset, and a
  decoder is a function of the \<open>Dec\<close> that returns an error or a value with the advanced \<open>Dec\<close>;
  \<open>dbind\<close> is the sequencing of two reads with \<open>?\<close>.  The assertion of \<open>Enc::bytes\<close> (a value
  longer than \<open>MAX_CODEC_BYTES\<close> aborts the process) is the predicate \<open>enc_bytes_ok\<close>, a
  hypothesis of the round-trip facts.

  The locale \<open>wire\<close> states what a format promises (its decoder reads back what its encoder wrote
  and stops exactly behind it), \<open>canonical_wire\<close> adds that the decoder accepts nothing else.
  Round trips of sequences and whole buffers, injectivity and unique parsing are proved once,
  inside the locales.
\<close>

section \<open>Errors\<close>

datatype decode_error =
    UnexpectedEof (de_offset: nat) (de_needed: nat)
  | LengthTooLarge (de_offset: nat) (de_length: nat) (de_max: nat)
  | InvalidMagic (de_expected: nat) (de_actual: nat)
  | InvalidVersion (de_expected: nat) (de_actual: nat)
  | InvalidTag (de_offset: nat) (de_tag: byte)
  | TrailingBytes (de_offset: nat)

definition MAX_CODEC_BYTES :: nat where
  "MAX_CODEC_BYTES = 4 * 1024 * 1024"

section \<open>Enc\<close>

definition enc_u8 :: "byte \<Rightarrow> bytes" where
  "enc_u8 v = [v]"

definition enc_u16 :: "nat \<Rightarrow> bytes" where
  "enc_u16 v = to_le 2 v"

definition enc_u32 :: "nat \<Rightarrow> bytes" where
  "enc_u32 v = to_le 4 v"

definition enc_u64 :: "nat \<Rightarrow> bytes" where
  "enc_u64 v = to_le 8 v"

definition enc_bytes_ok :: "bytes \<Rightarrow> bool" where
  "enc_bytes_ok v \<longleftrightarrow> length v \<le> MAX_CODEC_BYTES"

definition enc_bytes :: "bytes \<Rightarrow> bytes" where
  "enc_bytes v = enc_u32 (length v) @ v"

definition enc_header :: "nat \<Rightarrow> nat \<Rightarrow> bytes" where
  "enc_header magic version = enc_u32 magic @ enc_u16 version"

definition enc_bool :: "bool \<Rightarrow> bytes" where
  "enc_bool b = enc_u8 (if b then 1 else 0)"

section \<open>Dec\<close>

record dec =
  dec_bytes :: bytes
  dec_offset :: nat

type_synonym ('e, 'a) decoder = "dec \<Rightarrow> 'e + 'a \<times> dec"

definition Dec_new :: "bytes \<Rightarrow> dec" where
  "Dec_new bs = \<lparr>dec_bytes = bs, dec_offset = 0\<rparr>"

definition dbind :: "('e, 'a) decoder \<Rightarrow> ('a \<Rightarrow> ('e, 'b) decoder) \<Rightarrow> ('e, 'b) decoder" where
  "dbind m f d = (case m d of Inl e \<Rightarrow> Inl e | Inr (x, d') \<Rightarrow> f x d')"

definition dret :: "'a \<Rightarrow> ('e, 'a) decoder" where
  "dret x d = Inr (x, d)"

definition dfail :: "'e \<Rightarrow> ('e, 'a) decoder" where
  "dfail e d = Inl e"

text \<open>An error that reports the position of the decoder.\<close>

definition dfail_at :: "(nat \<Rightarrow> 'e) \<Rightarrow> ('e, 'a) decoder" where
  "dfail_at e d = Inl (e (dec_offset d))"

text \<open>The conversion of the error type that \<open>?\<close> performs through \<open>From\<close>.\<close>

definition dlift :: "('e \<Rightarrow> 'f) \<Rightarrow> ('e, 'a) decoder \<Rightarrow> ('f, 'a) decoder" where
  "dlift g m d = map_err g (m d)"

text \<open>\<open>for _ in 0..count\<close> around one read.\<close>

primrec drepeat :: "nat \<Rightarrow> ('e, 'a) decoder \<Rightarrow> ('e, 'a list) decoder" where
  "drepeat 0 m = dret []"
| "drepeat (Suc n) m = dbind m (\<lambda>x. dbind (drepeat n m) (\<lambda>xs. dret (x # xs)))"

text \<open>
  \<open>Dec::take\<close>.  Its \<open>checked_add\<close> fails only for an end beyond every slice length, with the same
  error as the bounds check behind it.
\<close>

definition Dec_take :: "nat \<Rightarrow> (decode_error, bytes) decoder" where
  "Dec_take len d =
     (let end = dec_offset d + len
      in if length (dec_bytes d) < end then Inl (UnexpectedEof (dec_offset d) len)
         else Inr (take len (drop (dec_offset d) (dec_bytes d)), d\<lparr>dec_offset := end\<rparr>))"

definition dec_u8 :: "(decode_error, byte) decoder" where
  "dec_u8 = dbind (Dec_take 1) (\<lambda>bs. dret (bs ! 0))"

definition dec_u16 :: "(decode_error, nat) decoder" where
  "dec_u16 = dbind (Dec_take 2) (\<lambda>bs. dret (from_le bs))"

definition dec_u32 :: "(decode_error, nat) decoder" where
  "dec_u32 = dbind (Dec_take 4) (\<lambda>bs. dret (from_le bs))"

definition dec_u64 :: "(decode_error, nat) decoder" where
  "dec_u64 = dbind (Dec_take 8) (\<lambda>bs. dret (from_le bs))"

definition dec_bytes_field :: "(decode_error, bytes) decoder" where
  "dec_bytes_field = dbind dec_u32 (\<lambda>len.
     if MAX_CODEC_BYTES < len
     then dfail_at (\<lambda>pos. LengthTooLarge (pos - 4) len MAX_CODEC_BYTES)
     else Dec_take len)"

definition dec_header :: "nat \<Rightarrow> nat \<Rightarrow> (decode_error, unit) decoder" where
  "dec_header expected_magic expected_version =
     dbind dec_u32 (\<lambda>actual_magic.
       if actual_magic \<noteq> expected_magic then dfail (InvalidMagic expected_magic actual_magic)
       else dbind dec_u16 (\<lambda>actual_version.
         if actual_version \<noteq> expected_version
         then dfail (InvalidVersion expected_version actual_version)
         else dret ()))"

definition dec_remaining :: "dec \<Rightarrow> nat" where
  "dec_remaining d = length (dec_bytes d) - dec_offset d"

definition dec_finish :: "(decode_error, unit) decoder" where
  "dec_finish d =
     (if dec_offset d = length (dec_bytes d) then Inr ((), d)
      else Inl (TrailingBytes (dec_offset d)))"

text \<open>A decoder run over a whole buffer, ending with \<open>finish\<close>.\<close>

definition decode_all :: "(decode_error \<Rightarrow> 'e) \<Rightarrow> ('e, 'a) decoder \<Rightarrow> bytes \<Rightarrow> 'e + 'a" where
  "decode_all lift m bs =
     (case dbind m (\<lambda>x. dbind (dlift lift dec_finish) (\<lambda>_. dret x)) (Dec_new bs) of
        Inl e \<Rightarrow> Inl e | Inr (x, _) \<Rightarrow> Inr x)"

section \<open>Symbolic evaluation of decoders\<close>

text \<open>\<open>dec_at p s\<close> is the decoder that has consumed \<open>p\<close> and has \<open>s\<close> ahead of it.\<close>

definition dec_at :: "bytes \<Rightarrow> bytes \<Rightarrow> dec" where
  "dec_at p s = \<lparr>dec_bytes = p @ s, dec_offset = length p\<rparr>"

lemma Dec_new_at: "Dec_new bs = dec_at [] bs"
  by (simp add: Dec_new_def dec_at_def)

lemma dec_offset_at [simp]: "dec_offset (dec_at p s) = length p"
  by (simp add: dec_at_def)

lemma dec_remaining_at [simp]: "dec_remaining (dec_at p s) = length s"
  by (simp add: dec_remaining_def dec_at_def)

lemma dec_at_inject [simp]: "dec_at p s = dec_at q t \<longleftrightarrow> p = q \<and> s = t"
  by (auto simp: dec_at_def)

lemma dbind_Inr_iff:
  "dbind m f d = Inr r \<longleftrightarrow> (\<exists>x d'. m d = Inr (x, d') \<and> f x d' = Inr r)"
  by (auto simp: dbind_def split: sum.splits)

lemma dbind_ok: "m d = Inr (x, d') \<Longrightarrow> dbind m f d = f x d'"
  by (simp add: dbind_def)

lemma dret_Inr_iff [simp]: "dret x d = Inr r \<longleftrightarrow> r = (x, d)"
  by (auto simp: dret_def)

lemma dret_run [simp]: "dret x d = Inr (x, d)"
  by (simp add: dret_def)

lemma dfail_run [simp]: "dfail e d = Inl e"
  by (simp add: dfail_def)

lemma dfail_at_run [simp]: "dfail_at e d = Inl (e (dec_offset d))"
  by (simp add: dfail_at_def)

lemma dlift_Inr_iff [simp]: "dlift g m d = Inr r \<longleftrightarrow> m d = Inr r"
  by (cases "m d") (auto simp: dlift_def)

lemma dlift_ok: "m d = Inr r \<Longrightarrow> dlift g m d = Inr r"
  by (simp add: dlift_def)

lemma Dec_take_at:
  "Dec_take n (dec_at p s) =
     (if length s < n then Inl (UnexpectedEof (length p) n)
      else Inr (take n s, dec_at (p @ take n s) (drop n s)))"
  by (auto simp: Dec_take_def dec_at_def Let_def)

lemma Dec_take_append [simp]:
  "length w = n \<Longrightarrow> Dec_take n (dec_at p (w @ s)) = Inr (w, dec_at (p @ w) s)"
  by (simp add: Dec_take_at)

lemma Dec_take_Inr:
  "Dec_take n (dec_at p s) = Inr (w, d') \<longleftrightarrow>
     length w = n \<and> (\<exists>t. s = w @ t \<and> d' = dec_at (p @ w) t)"
  by (auto simp: Dec_take_at split: if_splits)

lemma dec_finish_at: "dec_finish (dec_at p s) = Inr r \<longleftrightarrow> s = [] \<and> r = ((), dec_at p s)"
  by (auto simp: dec_finish_def dec_at_def)

lemma dec_finish_Nil [simp]: "dec_finish (dec_at p []) = Inr ((), dec_at p [])"
  by (simp add: dec_finish_def dec_at_def)

lemma decode_all_ok:
  "m (dec_at [] bs) = Inr (x, dec_at p []) \<Longrightarrow> decode_all lift m bs = Inr x"
  by (simp add: decode_all_def Dec_new_at dbind_def dlift_def)

lemma decode_all_Inr:
  "decode_all lift m bs = Inr x \<longleftrightarrow>
     (\<exists>d'. m (dec_at [] bs) = Inr (x, d') \<and> dec_finish d' = Inr ((), d'))"
proof -
  have fin: "dec_finish d = Inr r \<Longrightarrow> r = ((), d)" for d r
    by (auto simp: dec_finish_def split: if_splits)
  have "decode_all lift m bs = Inr x \<longleftrightarrow>
      (\<exists>d. dbind m (\<lambda>x. dbind (dlift lift dec_finish) (\<lambda>_. dret x)) (dec_at [] bs) = Inr (x, d))"
    by (auto simp: decode_all_def Dec_new_at split: sum.splits)
  then show ?thesis by (auto simp: dbind_Inr_iff dest: fin)
qed

section \<open>Formats\<close>

locale wire =
  fixes enc :: "'a \<Rightarrow> bytes"
    and dec :: "('e, 'a) decoder"
    and wf :: "'a \<Rightarrow> bool"
  assumes decode_encode:
    "wf x \<Longrightarrow> dec (dec_at p (enc x @ s)) = Inr (x, dec_at (p @ enc x) s)"
begin

lemma decode_encode_nil: "wf x \<Longrightarrow> dec (dec_at p (enc x)) = Inr (x, dec_at (p @ enc x) [])"
  using decode_encode[of x p "[]"] by simp

lemma repeat_decode:
  "\<forall>x \<in> set xs. wf x \<Longrightarrow>
   drepeat (length xs) dec (dec_at p (concat (map enc xs) @ s))
     = Inr (xs, dec_at (p @ concat (map enc xs)) s)"
proof (induction xs arbitrary: p)
  case (Cons x xs)
  then have "dec (dec_at p (enc x @ concat (map enc xs) @ s))
      = Inr (x, dec_at (p @ enc x) (concat (map enc xs) @ s))"
    by (simp add: decode_encode)
  with Cons show ?case by (simp add: dbind_def)
qed simp

lemma whole_buffer: "wf x \<Longrightarrow> decode_all lift dec (enc x) = Inr x"
  by (rule decode_all_ok) (rule decode_encode_nil)

lemma unique_parse:
  assumes "wf x" and "wf y" and "enc x @ s = enc y @ t"
  shows "x = y \<and> s = t"
proof -
  have "dec (dec_at [] (enc x @ s)) = Inr (x, dec_at ([] @ enc x) s)"
    using assms(1) by (rule decode_encode)
  moreover have "dec (dec_at [] (enc y @ t)) = Inr (y, dec_at ([] @ enc y) t)"
    using assms(2) by (rule decode_encode)
  ultimately have "(x, dec_at ([] @ enc x) s) = (y, dec_at ([] @ enc y) t)"
    using assms(3) by (metis sum.inject(2))
  then show ?thesis by simp
qed

lemma encode_inject: "wf x \<Longrightarrow> wf y \<Longrightarrow> enc x = enc y \<longleftrightarrow> x = y"
  using unique_parse[of x y "[]" "[]"] by auto

end

locale canonical_wire = wire +
  assumes encode_decode:
    "dec (dec_at p s) = Inr (x, d') \<Longrightarrow> \<exists>t. s = enc x @ t \<and> d' = dec_at (p @ enc x) t \<and> wf x"
begin

lemma repeat_encode:
  "drepeat n dec (dec_at p s) = Inr (xs, d') \<Longrightarrow>
   length xs = n \<and> (\<forall>x \<in> set xs. wf x) \<and>
   (\<exists>t. s = concat (map enc xs) @ t \<and> d' = dec_at (p @ concat (map enc xs)) t)"
proof (induction n arbitrary: p s xs d')
  case (Suc n)
  then obtain x d1 ys where x: "dec (dec_at p s) = Inr (x, d1)"
      and ys: "drepeat n dec d1 = Inr (ys, d')" and xs: "xs = x # ys"
    by (auto simp: dbind_Inr_iff)
  from encode_decode[OF x] obtain t where t: "s = enc x @ t" "d1 = dec_at (p @ enc x) t" "wf x"
    by blast
  from Suc.IH[OF ys[unfolded t(2)]] t xs show ?case by auto
qed simp

lemma whole_buffer_encode: "decode_all lift dec bs = Inr x \<Longrightarrow> bs = enc x \<and> wf x"
proof -
  assume "decode_all lift dec bs = Inr x"
  then obtain d' where d: "dec (dec_at [] bs) = Inr (x, d')" and fin: "dec_finish d' = Inr ((), d')"
    by (auto simp: decode_all_Inr)
  from encode_decode[OF d] obtain t where t: "bs = enc x @ t" "d' = dec_at ([] @ enc x) t" "wf x"
    by blast
  with fin have "t = []" by (simp add: dec_finish_at)
  with t show ?thesis by simp
qed

lemma whole_buffer_iff: "decode_all lift dec bs = Inr x \<longleftrightarrow> bs = enc x \<and> wf x"
  using whole_buffer whole_buffer_encode by blast

end

section \<open>The primitive formats\<close>

interpretation u8_wire: canonical_wire enc_u8 dec_u8 "\<lambda>_. True"
proof unfold_locales
  fix x :: byte and p s
  show "dec_u8 (dec_at p (enc_u8 x @ s)) = Inr (x, dec_at (p @ enc_u8 x) s)"
    by (simp add: dec_u8_def enc_u8_def dbind_def Dec_take_at)
next
  fix p s x d'
  assume "dec_u8 (dec_at p s) = Inr (x, d')"
  then show "\<exists>t. s = enc_u8 x @ t \<and> d' = dec_at (p @ enc_u8 x) t \<and> True"
    by (auto simp: dec_u8_def enc_u8_def dbind_Inr_iff Dec_take_Inr length_Suc_conv)
qed

lemma le_field_decode:
  assumes "v < 256 ^ n"
  shows "dbind (Dec_take n) (\<lambda>bs. dret (from_le bs)) (dec_at p (to_le n v @ s))
           = Inr (v, dec_at (p @ to_le n v) s)"
  using assms by (simp add: dbind_def)

lemma le_field_encode:
  assumes "dbind (Dec_take n) (\<lambda>bs. dret (from_le bs)) (dec_at p s) = Inr (v, d')"
  shows "\<exists>t. s = to_le n v @ t \<and> d' = dec_at (p @ to_le n v) t \<and> v < 256 ^ n"
proof -
  from assms obtain w t where "length w = n" "s = w @ t" "d' = dec_at (p @ w) t" "v = from_le w"
    by (auto simp: dbind_Inr_iff Dec_take_Inr)
  then show ?thesis using from_le_less[of w] by (auto simp: to_le_from_le_length)
qed

interpretation u16_wire: canonical_wire enc_u16 dec_u16 "\<lambda>v. v < 2 ^ 16"
  using le_field_decode[where n = 2] le_field_encode[where n = 2]
  by unfold_locales (simp_all add: enc_u16_def dec_u16_def)

interpretation u32_wire: canonical_wire enc_u32 dec_u32 "\<lambda>v. v < 2 ^ 32"
  using le_field_decode[where n = 4] le_field_encode[where n = 4]
  by unfold_locales (simp_all add: enc_u32_def dec_u32_def)

interpretation u64_wire: canonical_wire enc_u64 dec_u64 "\<lambda>v. v < 2 ^ 64"
  using le_field_decode[where n = 8] le_field_encode[where n = 8]
  by unfold_locales (simp_all add: enc_u64_def dec_u64_def)

lemma MAX_CODEC_less [u_bounds]: "n \<le> MAX_CODEC_BYTES \<Longrightarrow> n < 2 ^ 32"
  by (simp add: MAX_CODEC_BYTES_def)

interpretation bytes_wire: canonical_wire enc_bytes dec_bytes_field enc_bytes_ok
proof unfold_locales
  fix x p s
  assume ok: "enc_bytes_ok x"
  then have "length x < 2 ^ 32" using MAX_CODEC_less[of "length x"] by (simp add: enc_bytes_ok_def)
  with ok show "dec_bytes_field (dec_at p (enc_bytes x @ s)) = Inr (x, dec_at (p @ enc_bytes x) s)"
    by (simp add: dec_bytes_field_def enc_bytes_def dbind_def u32_wire.decode_encode enc_bytes_ok_def)
next
  fix p s x d'
  assume "dec_bytes_field (dec_at p s) = Inr (x, d')"
  then obtain n d1 where n: "dec_u32 (dec_at p s) = Inr (n, d1)" and le: "n \<le> MAX_CODEC_BYTES"
      and tk: "Dec_take n d1 = Inr (x, d')"
    by (auto simp: dec_bytes_field_def dbind_Inr_iff split: if_splits)
  from u32_wire.encode_decode[OF n] obtain t where "s = enc_u32 n @ t" "d1 = dec_at (p @ enc_u32 n) t"
    by blast
  with tk le show "\<exists>t. s = enc_bytes x @ t \<and> d' = dec_at (p @ enc_bytes x) t \<and> enc_bytes_ok x"
    by (auto simp: Dec_take_Inr enc_bytes_def enc_bytes_ok_def)
qed

lemma header_decode:
  "magic < 2 ^ 32 \<Longrightarrow> version < 2 ^ 16 \<Longrightarrow>
   dec_header magic version (dec_at p (enc_header magic version @ s))
     = Inr ((), dec_at (p @ enc_header magic version) s)"
  by (simp add: dec_header_def enc_header_def dbind_def u32_wire.decode_encode u16_wire.decode_encode)

lemma header_decode_nil:
  "magic < 2 ^ 32 \<Longrightarrow> version < 2 ^ 16 \<Longrightarrow>
   dec_header magic version (dec_at p (enc_header magic version))
     = Inr ((), dec_at (p @ enc_header magic version) [])"
  using header_decode[of magic version p "[]"] by simp

lemma header_encode:
  assumes "dec_header magic version (dec_at p s) = Inr (u, d')"
  shows "\<exists>t. s = enc_header magic version @ t \<and> d' = dec_at (p @ enc_header magic version) t"
proof -
  from assms obtain d1 where a: "dec_u32 (dec_at p s) = Inr (magic, d1)"
      and b: "dec_u16 d1 = Inr (version, d')"
    by (auto simp: dec_header_def dbind_Inr_iff split: if_splits)
  from u32_wire.encode_decode[OF a] obtain t where t: "s = enc_u32 magic @ t" "d1 = dec_at (p @ enc_u32 magic) t"
    by blast
  from u16_wire.encode_decode[OF b[unfolded t(2)]] t show ?thesis
    by (auto simp: enc_header_def)
qed

text \<open>The bundle that lets the simplifier run a decoder over the output of its encoder.\<close>

lemmas decode_simps =
  u8_wire.decode_encode u8_wire.decode_encode_nil
  u16_wire.decode_encode u16_wire.decode_encode_nil
  u32_wire.decode_encode u32_wire.decode_encode_nil
  u64_wire.decode_encode u64_wire.decode_encode_nil
  bytes_wire.decode_encode bytes_wire.decode_encode_nil
  header_decode header_decode_nil dbind_def dlift_def

text \<open>The bundle that reads a successful decode backwards, one consumed field at a time.\<close>

lemmas encode_dests =
  u8_wire.encode_decode u16_wire.encode_decode u32_wire.encode_decode u64_wire.encode_decode
  bytes_wire.encode_decode header_encode

lemma length_enc [simp]:
  "length (enc_u8 b) = 1" "length (enc_u16 v) = 2" "length (enc_u32 v) = 4"
  "length (enc_u64 v) = 8" "length (enc_header m v) = 6" "length (enc_bytes bs) = 4 + length bs"
  by (simp_all add: enc_u8_def enc_u16_def enc_u32_def enc_u64_def enc_header_def enc_bytes_def)

section \<open>Sealed records\<close>

text \<open>
  Every durable or transmitted record ends in a CRC-32C over itself with the checksum field
  zeroed.  \<open>seal\<close> is the common tail of the \<open>encode\<close> functions: append four zero bytes, compute
  the checksum, overwrite the last four bytes.  \<open>seal_ok\<close> is the comparison at the head of the
  \<open>decode\<close> functions.
\<close>

definition seal :: "bytes \<Rightarrow> bytes" where
  "seal body =
     (let bytes = body @ to_le 4 0;
          crc = crc32c_zeroed_tail bytes;
          checksum_start = length bytes - 4
      in take checksum_start bytes @ to_le 4 crc)"

definition seal_ok :: "bytes \<Rightarrow> bool" where
  "seal_ok bs \<longleftrightarrow> crc32c_zeroed_tail bs = from_le (drop (length bs - 4) bs)"

lemma to_le_zero: "to_le 4 0 = [0, 0, 0, 0]"
proof -
  have "to_le (Suc (Suc (Suc (Suc 0)))) 0 = [0, 0, 0, 0]" by simp
  moreover have "Suc (Suc (Suc (Suc 0))) = 4" by simp
  ultimately show ?thesis by metis
qed

lemma seal_eq: "seal body = body @ to_le 4 (crc32c (body @ [0, 0, 0, 0]))"
  by (simp add: seal_def Let_def crc32c_zeroed_tail_append to_le_zero)

lemma length_seal [simp]: "length (seal body) = length body + 4"
  by (simp add: seal_eq)

lemma seal_body [simp]: "take (length (seal body) - 4) (seal body) = body"
  by (simp add: seal_eq)

lemma seal_ok_append:
  assumes "length tail = 4"
  shows "seal_ok (body @ tail) \<longleftrightarrow> tail = to_le 4 (crc32c (body @ [0, 0, 0, 0]))"
proof -
  have "seal_ok (body @ tail) \<longleftrightarrow> crc32c (body @ [0, 0, 0, 0]) = from_le tail"
    using assms by (simp add: seal_ok_def crc32c_zeroed_tail_append)
  also have "\<dots> \<longleftrightarrow> tail = to_le 4 (crc32c (body @ [0, 0, 0, 0]))"
  proof
    assume "crc32c (body @ [0, 0, 0, 0]) = from_le tail"
    then show "tail = to_le 4 (crc32c (body @ [0, 0, 0, 0]))"
      using assms by (simp add: to_le_from_le_length)
  next
    assume "tail = to_le 4 (crc32c (body @ [0, 0, 0, 0]))"
    then show "crc32c (body @ [0, 0, 0, 0]) = from_le tail"
      using crc32c_less[of "body @ [0, 0, 0, 0]"] by simp
  qed
  finally show ?thesis .
qed

lemma seal_ok_seal [simp]: "seal_ok (seal body)"
  by (simp add: seal_eq seal_ok_append)

lemma seal_ok_iff:
  assumes "4 \<le> length bs"
  shows "seal_ok bs \<longleftrightarrow> bs = seal (take (length bs - 4) bs)"
proof -
  define body tail where "body = take (length bs - 4) bs" and "tail = drop (length bs - 4) bs"
  then have "bs = body @ tail" and "length tail = 4" using assms by simp_all
  then show ?thesis
    by (simp add: seal_ok_append seal_eq body_def[symmetric])
qed

text \<open>A change confined to one byte of a sealed body is always rejected.\<close>

lemma seal_detects_byte:
  assumes "seal (xs @ a # ys) = xs @ a # ys @ tail" and "a \<noteq> b"
  shows "\<not> seal_ok (xs @ b # ys @ tail)"
proof
  have tail: "tail = to_le 4 (crc32c ((xs @ a # ys) @ [0, 0, 0, 0]))"
    using assms(1) by (simp add: seal_eq)
  then have len: "length tail = 4" by simp
  assume "seal_ok (xs @ b # ys @ tail)"
  then have "crc32c ((xs @ b # ys) @ [0, 0, 0, 0]) = from_le tail"
    using crc32c_zeroed_tail_append[OF len, of "xs @ b # ys"] len by (simp add: seal_ok_def)
  also have "\<dots> = crc32c ((xs @ a # ys) @ [0, 0, 0, 0])"
    using crc32c_less[of "(xs @ a # ys) @ [0, 0, 0, 0]"] by (simp add: tail)
  finally show False using crc32c_one_byte[OF assms(2), of xs "ys @ [0, 0, 0, 0]"] by simp
qed

end
