(* ===== verification/ClusterPolicy.thy ===== *)
theory ClusterPolicy
  imports Codec
begin

text \<open>
  \<open>ClusterPolicy\<close> of \<open>crates/cc-core/src/lib.rs\<close>: the replicated limits every peer must agree on,
  with the CCPL v1 record that carries them.  The decoder accepts exactly the encodings of valid
  policies.
\<close>

record cluster_policy =
  max_members :: nat
  max_key_bytes :: nat
  max_value_bytes :: nat
  max_live_logical_bytes :: nat
  max_command_bytes :: nat
  max_reply_bytes :: nat
  max_scan_items :: nat
  max_live_deadlines :: nat
  max_sessions :: nat
  max_session_bytes :: nat
  max_session_tombstones :: nat
  session_idle_ns :: nat
  session_retry_grace_ns :: nat
  leader_transfer_timeout_ns :: nat
  max_keys_per_expiry_sweep :: nat
  max_batch_commands :: nat
  max_batch_bytes :: nat
  max_batch_reply_bytes :: nat

definition CLUSTER_POLICY_MAGIC :: nat where
  "CLUSTER_POLICY_MAGIC = from_le [0x43, 0x43, 0x50, 0x4c]"

definition CLUSTER_POLICY_VERSION :: nat where "CLUSTER_POLICY_VERSION = 1"
definition MAX_POLICY_MEMBERS :: nat where "MAX_POLICY_MEMBERS = 4096"
definition MAX_POLICY_LIVE_LOGICAL_BYTES :: nat where "MAX_POLICY_LIVE_LOGICAL_BYTES = 2 ^ 40"
definition MAX_POLICY_LIVE_DEADLINES :: nat where "MAX_POLICY_LIVE_DEADLINES = 10000000"
definition MAX_POLICY_SESSIONS :: nat where "MAX_POLICY_SESSIONS = 1000000"
definition MAX_POLICY_SESSION_BYTES :: nat where "MAX_POLICY_SESSION_BYTES = 2 ^ 30"
definition MAX_POLICY_SESSION_TOMBSTONES :: nat where "MAX_POLICY_SESSION_TOMBSTONES = 1000000"

definition MAX_POLICY_DURATION_NS :: nat where
  "MAX_POLICY_DURATION_NS = 365 * 24 * 60 * 60 * 1000000000"

definition MAX_POLICY_EXPIRY_SWEEP :: nat where "MAX_POLICY_EXPIRY_SWEEP = 1000000"

lemmas policy_consts =
  CLUSTER_POLICY_VERSION_def MAX_POLICY_MEMBERS_def MAX_POLICY_LIVE_LOGICAL_BYTES_def
  MAX_POLICY_LIVE_DEADLINES_def MAX_POLICY_SESSIONS_def MAX_POLICY_SESSION_BYTES_def
  MAX_POLICY_SESSION_TOMBSTONES_def MAX_POLICY_DURATION_NS_def MAX_POLICY_EXPIRY_SWEEP_def
  MAX_CODEC_BYTES_def

definition ClusterPolicy_default :: cluster_policy where
  "ClusterPolicy_default = \<lparr>
     max_members = 64,
     max_key_bytes = 4 * 1024,
     max_value_bytes = 1024 * 1024,
     max_live_logical_bytes = 1024 * 1024 * 1024,
     max_command_bytes = 2 * 1024 * 1024,
     max_reply_bytes = 2 * 1024 * 1024,
     max_scan_items = 4096,
     max_live_deadlines = 1000000,
     max_sessions = 100000,
     max_session_bytes = 64 * 1024 * 1024,
     max_session_tombstones = 100000,
     session_idle_ns = 30 * 60 * 1000000000,
     session_retry_grace_ns = 5 * 60 * 1000000000,
     leader_transfer_timeout_ns = 15 * 1000000000,
     max_keys_per_expiry_sweep = 1024,
     max_batch_commands = 256,
     max_batch_bytes = 2 * 1024 * 1024,
     max_batch_reply_bytes = 2 * 1024 * 1024\<rparr>"

definition policy_nonzero :: "cluster_policy \<Rightarrow> bool" where
  "policy_nonzero p \<longleftrightarrow>
     max_members p \<noteq> 0 \<and> max_key_bytes p \<noteq> 0 \<and> max_value_bytes p \<noteq> 0 \<and>
     max_live_logical_bytes p \<noteq> 0 \<and> max_command_bytes p \<noteq> 0 \<and> max_reply_bytes p \<noteq> 0 \<and>
     max_scan_items p \<noteq> 0 \<and> max_live_deadlines p \<noteq> 0 \<and> max_sessions p \<noteq> 0 \<and>
     max_session_bytes p \<noteq> 0 \<and> max_session_tombstones p \<noteq> 0 \<and> session_idle_ns p \<noteq> 0 \<and>
     session_retry_grace_ns p \<noteq> 0 \<and> leader_transfer_timeout_ns p \<noteq> 0 \<and>
     max_keys_per_expiry_sweep p \<noteq> 0 \<and> max_batch_commands p \<noteq> 0 \<and> max_batch_bytes p \<noteq> 0 \<and>
     max_batch_reply_bytes p \<noteq> 0"

definition policy_coherent :: "cluster_policy \<Rightarrow> bool" where
  "policy_coherent p \<longleftrightarrow>
     max_batch_bytes p \<le> max_command_bytes p \<and>
     max_batch_reply_bytes p \<le> max_reply_bytes p \<and>
     max_key_bytes p \<le> max_command_bytes p \<and>
     max_value_bytes p \<le> max_command_bytes p \<and>
     max_session_bytes p \<le> max_live_logical_bytes p"

definition policy_hard_bounded :: "cluster_policy \<Rightarrow> bool" where
  "policy_hard_bounded p \<longleftrightarrow>
     max_members p \<le> MAX_POLICY_MEMBERS \<and>
     max_key_bytes p \<le> MAX_CODEC_BYTES \<and>
     max_value_bytes p \<le> MAX_CODEC_BYTES \<and>
     max_command_bytes p \<le> MAX_CODEC_BYTES \<and>
     max_reply_bytes p \<le> MAX_CODEC_BYTES \<and>
     max_batch_bytes p \<le> MAX_CODEC_BYTES \<and>
     max_batch_reply_bytes p \<le> MAX_CODEC_BYTES \<and>
     max_live_logical_bytes p \<le> MAX_POLICY_LIVE_LOGICAL_BYTES \<and>
     max_scan_items p \<le> 1000000 \<and>
     max_live_deadlines p \<le> MAX_POLICY_LIVE_DEADLINES \<and>
     max_sessions p \<le> MAX_POLICY_SESSIONS \<and>
     max_session_bytes p \<le> MAX_POLICY_SESSION_BYTES \<and>
     max_session_tombstones p \<le> MAX_POLICY_SESSION_TOMBSTONES \<and>
     session_idle_ns p \<le> MAX_POLICY_DURATION_NS \<and>
     session_retry_grace_ns p \<le> MAX_POLICY_DURATION_NS \<and>
     leader_transfer_timeout_ns p \<le> MAX_POLICY_DURATION_NS \<and>
     max_keys_per_expiry_sweep p \<le> MAX_POLICY_EXPIRY_SWEEP \<and>
     max_batch_commands p \<le> 65536"

definition ClusterPolicy_validate :: "cluster_policy \<Rightarrow> decode_error + unit" where
  "ClusterPolicy_validate p =
     (if policy_nonzero p \<and> policy_coherent p \<and> policy_hard_bounded p then Inr ()
      else Inl (InvalidTag 0 0))"

definition ClusterPolicy_body :: "cluster_policy \<Rightarrow> bytes" where
  "ClusterPolicy_body p =
     enc_header CLUSTER_POLICY_MAGIC CLUSTER_POLICY_VERSION @
     enc_u32 (max_members p) @
     enc_u64 (max_key_bytes p) @
     enc_u64 (max_value_bytes p) @
     enc_u64 (max_live_logical_bytes p) @
     enc_u64 (max_command_bytes p) @
     enc_u64 (max_reply_bytes p) @
     enc_u32 (max_scan_items p) @
     enc_u64 (max_live_deadlines p) @
     enc_u64 (max_sessions p) @
     enc_u64 (max_session_bytes p) @
     enc_u64 (max_session_tombstones p) @
     enc_u64 (session_idle_ns p) @
     enc_u64 (session_retry_grace_ns p) @
     enc_u64 (leader_transfer_timeout_ns p) @
     enc_u32 (max_keys_per_expiry_sweep p) @
     enc_u32 (max_batch_commands p) @
     enc_u64 (max_batch_bytes p) @
     enc_u64 (max_batch_reply_bytes p)"

definition ClusterPolicy_encode :: "cluster_policy \<Rightarrow> bytes" where
  "ClusterPolicy_encode p = seal (ClusterPolicy_body p)"

definition ClusterPolicy_fields :: "(decode_error, cluster_policy) decoder" where
  "ClusterPolicy_fields =
     dbind (dec_header CLUSTER_POLICY_MAGIC CLUSTER_POLICY_VERSION) (\<lambda>_.
     dbind dec_u32 (\<lambda>f1. dbind dec_u64 (\<lambda>f2. dbind dec_u64 (\<lambda>f3. dbind dec_u64 (\<lambda>f4.
     dbind dec_u64 (\<lambda>f5. dbind dec_u64 (\<lambda>f6. dbind dec_u32 (\<lambda>f7. dbind dec_u64 (\<lambda>f8.
     dbind dec_u64 (\<lambda>f9. dbind dec_u64 (\<lambda>f10. dbind dec_u64 (\<lambda>f11. dbind dec_u64 (\<lambda>f12.
     dbind dec_u64 (\<lambda>f13. dbind dec_u64 (\<lambda>f14. dbind dec_u32 (\<lambda>f15. dbind dec_u32 (\<lambda>f16.
     dbind dec_u64 (\<lambda>f17. dbind dec_u64 (\<lambda>f18.
     dret \<lparr>
       max_members = f1, max_key_bytes = f2, max_value_bytes = f3,
       max_live_logical_bytes = f4, max_command_bytes = f5, max_reply_bytes = f6,
       max_scan_items = f7, max_live_deadlines = f8, max_sessions = f9,
       max_session_bytes = f10, max_session_tombstones = f11, session_idle_ns = f12,
       session_retry_grace_ns = f13, leader_transfer_timeout_ns = f14,
       max_keys_per_expiry_sweep = f15, max_batch_commands = f16,
       max_batch_bytes = f17, max_batch_reply_bytes = f18\<rparr>)))))))))))))))))))"

definition CCPL_RECORD_LEN :: nat where "CCPL_RECORD_LEN = 138"

definition ClusterPolicy_decode :: "bytes \<Rightarrow> decode_error + cluster_policy" where
  "ClusterPolicy_decode bytes =
     (if length bytes \<noteq> CCPL_RECORD_LEN
      then Inl (if length bytes < CCPL_RECORD_LEN
                then UnexpectedEof (length bytes) (CCPL_RECORD_LEN - length bytes)
                else TrailingBytes CCPL_RECORD_LEN)
      else if \<not> seal_ok bytes then Inl (InvalidTag (CCPL_RECORD_LEN - 4) 0)
      else res_bind (decode_all id ClusterPolicy_fields (take (CCPL_RECORD_LEN - 4) bytes))
             (\<lambda>policy. res_bind (ClusterPolicy_validate policy) (\<lambda>_. Inr policy)))"

definition ClusterPolicy_hash :: "cluster_policy \<Rightarrow> u64w" where
  "ClusterPolicy_hash p = fnv1a (ClusterPolicy_encode p)"

section \<open>The record round-trips and is canonical\<close>

lemma magic_less: "length bs = 4 \<Longrightarrow> from_le bs < 2 ^ 32"
  using from_le_less[of bs] by simp

lemma ClusterPolicy_validate_Inr:
  "ClusterPolicy_validate p = Inr u \<longleftrightarrow>
     policy_nonzero p \<and> policy_coherent p \<and> policy_hard_bounded p"
  by (simp add: ClusterPolicy_validate_def)

definition policy_fits :: "cluster_policy \<Rightarrow> bool" where
  "policy_fits p \<longleftrightarrow>
     max_members p < 2 ^ 32 \<and> max_key_bytes p < 2 ^ 64 \<and> max_value_bytes p < 2 ^ 64 \<and>
     max_live_logical_bytes p < 2 ^ 64 \<and> max_command_bytes p < 2 ^ 64 \<and>
     max_reply_bytes p < 2 ^ 64 \<and> max_scan_items p < 2 ^ 32 \<and> max_live_deadlines p < 2 ^ 64 \<and>
     max_sessions p < 2 ^ 64 \<and> max_session_bytes p < 2 ^ 64 \<and>
     max_session_tombstones p < 2 ^ 64 \<and> session_idle_ns p < 2 ^ 64 \<and>
     session_retry_grace_ns p < 2 ^ 64 \<and> leader_transfer_timeout_ns p < 2 ^ 64 \<and>
     max_keys_per_expiry_sweep p < 2 ^ 32 \<and> max_batch_commands p < 2 ^ 32 \<and>
     max_batch_bytes p < 2 ^ 64 \<and> max_batch_reply_bytes p < 2 ^ 64"

lemma validated_policy_fits: "ClusterPolicy_validate p = Inr u \<Longrightarrow> policy_fits p"
  by (auto simp: ClusterPolicy_validate_Inr policy_hard_bounded_def policy_fits_def policy_consts)

lemma header_consts [simp]:
  "CLUSTER_POLICY_MAGIC < 4294967296" "CLUSTER_POLICY_VERSION < 65536"
  using magic_less[of "[0x43, 0x43, 0x50, 0x4c]"]
  by (simp_all add: CLUSTER_POLICY_MAGIC_def CLUSTER_POLICY_VERSION_def)

lemma policy_fields_decode:
  "policy_fits p \<Longrightarrow>
   ClusterPolicy_fields (dec_at q (ClusterPolicy_body p @ s)) = Inr (p, dec_at (q @ ClusterPolicy_body p) s)"
  unfolding ClusterPolicy_fields_def ClusterPolicy_body_def policy_fits_def
  by (simp add: decode_simps)

lemma policy_fields_encode:
  "ClusterPolicy_fields (dec_at q s) = Inr (p, d') \<Longrightarrow>
   \<exists>t. s = ClusterPolicy_body p @ t \<and> d' = dec_at (q @ ClusterPolicy_body p) t \<and> policy_fits p"
  unfolding ClusterPolicy_fields_def
  by (auto simp: dbind_Inr_iff ClusterPolicy_body_def policy_fits_def dest!: encode_dests)

interpretation policy_wire: canonical_wire ClusterPolicy_body ClusterPolicy_fields policy_fits
  by unfold_locales (simp add: policy_fields_decode, rule policy_fields_encode)

lemma length_policy_body [simp]: "length (ClusterPolicy_body p) = 134"
  by (simp add: ClusterPolicy_body_def)

lemma length_policy_encode [simp]: "length (ClusterPolicy_encode p) = 138"
  by (simp add: ClusterPolicy_encode_def)

lemma ClusterPolicy_decode_encode:
  assumes "ClusterPolicy_validate p = Inr ()"
  shows "ClusterPolicy_decode (ClusterPolicy_encode p) = Inr p"
proof -
  have "take 134 (seal (ClusterPolicy_body p)) = ClusterPolicy_body p"
    using seal_body[of "ClusterPolicy_body p"] by simp
  with assms validated_policy_fits[OF assms] show ?thesis
    by (simp add: ClusterPolicy_decode_def CCPL_RECORD_LEN_def ClusterPolicy_encode_def
        policy_wire.whole_buffer)
qed

lemma ClusterPolicy_decode_canonical:
  assumes "ClusterPolicy_decode bytes = Inr p"
  shows "bytes = ClusterPolicy_encode p \<and> ClusterPolicy_validate p = Inr ()"
proof -
  from assms have len: "length bytes = 138" and ok: "seal_ok bytes"
      and dec: "decode_all id ClusterPolicy_fields (take 134 bytes) = Inr p"
      and val: "ClusterPolicy_validate p = Inr ()"
    by (auto simp: ClusterPolicy_decode_def CCPL_RECORD_LEN_def res_bind_Inr_iff split: if_splits)
  have "take 134 bytes = ClusterPolicy_body p"
    using policy_wire.whole_buffer_encode[OF dec] by simp
  moreover have "bytes = seal (take 134 bytes)"
    using seal_ok_iff[of bytes] len ok by simp
  ultimately show ?thesis using val by (simp add: ClusterPolicy_encode_def)
qed

lemma ClusterPolicy_default_valid: "ClusterPolicy_validate ClusterPolicy_default = Inr ()"
  by (simp add: ClusterPolicy_validate_Inr policy_nonzero_def policy_coherent_def
      policy_hard_bounded_def ClusterPolicy_default_def policy_consts)

end
