(* ===== verification/Membership.thy ===== *)
theory Membership
  imports ClusterPolicy
begin

text \<open>
  The membership vocabulary of \<open>crates/cc-core/src/lib.rs\<close>: peer addresses, the membership image
  of snapshots and genesis records (CCMS), replicated configuration operations and their CCCF
  envelope, and the operator's reply (CCAR).  Each format is an interpretation of \<open>wire\<close> or
  \<open>canonical_wire\<close>; the two formats that carry member sets are not canonical, because the
  decoder of a set accepts its elements in any order.
\<close>

section \<open>Peer addresses\<close>

datatype peer_address =
    V4 (pa_ip: bytes) (pa_port: nat)
  | V6 (pa_ip: bytes) (pa_port: nat)

definition PeerAddress_validate :: "peer_address \<Rightarrow> decode_error + unit" where
  "PeerAddress_validate a =
     (let unspecified = list_all (\<lambda>b. b = 0) (pa_ip a);
          multicast = (case a of V4 ip _ \<Rightarrow> ip ! 0 AND 0xf0 = 0xe0 | V6 ip _ \<Rightarrow> ip ! 0 = 0xff);
          v4_mapped_v6 = (case a of V4 _ _ \<Rightarrow> False
            | V6 ip _ \<Rightarrow> list_all (\<lambda>b. b = 0) (take 10 ip) \<and> ip ! 10 = 0xff \<and> ip ! 11 = 0xff)
      in if pa_port a = 0 \<or> unspecified \<or> multicast \<or> v4_mapped_v6
         then Inl (InvalidTag 0 0) else Inr ())"

fun PeerAddress_encode :: "peer_address \<Rightarrow> bytes" where
  "PeerAddress_encode (V4 ip port) = enc_u8 1 @ concat (map enc_u8 ip) @ enc_u16 port"
| "PeerAddress_encode (V6 ip port) = enc_u8 2 @ concat (map enc_u8 ip) @ enc_u16 port"

definition dvalidate :: "('a \<Rightarrow> 'e + unit) \<Rightarrow> ('e, 'a) decoder \<Rightarrow> ('e, 'a) decoder" where
  "dvalidate v m = dbind m (\<lambda>x. case v x of Inl e \<Rightarrow> dfail e | Inr _ \<Rightarrow> dret x)"

definition PeerAddress_decode :: "(decode_error, peer_address) decoder" where
  "PeerAddress_decode = dvalidate PeerAddress_validate
     (dbind dec_u8 (\<lambda>tag.
        if tag = 1 then
          dbind (drepeat 4 dec_u8) (\<lambda>ip. dbind dec_u16 (\<lambda>port. dret (V4 ip port)))
        else if tag = 2 then
          dbind (drepeat 16 dec_u8) (\<lambda>ip. dbind dec_u16 (\<lambda>port. dret (V6 ip port)))
        else dfail_at (\<lambda>pos. InvalidTag (pos - 1) tag)))"

fun peer_address_ok :: "peer_address \<Rightarrow> bool" where
  "peer_address_ok (V4 ip port) \<longleftrightarrow>
     length ip = 4 \<and> port < 2 ^ 16 \<and> PeerAddress_validate (V4 ip port) = Inr ()"
| "peer_address_ok (V6 ip port) \<longleftrightarrow>
     length ip = 16 \<and> port < 2 ^ 16 \<and> PeerAddress_validate (V6 ip port) = Inr ()"

lemma concat_enc_u8 [simp]: "concat (map enc_u8 bs) = bs"
  by (induction bs) (simp_all add: enc_u8_def)

lemma repeat_u8_decode [simp]:
  "length bs = n \<Longrightarrow> drepeat n dec_u8 (dec_at p (bs @ s)) = Inr (bs, dec_at (p @ bs) s)"
  using u8_wire.repeat_decode[of bs p s] by auto

lemma repeat_u8_encode:
  "drepeat n dec_u8 (dec_at p s) = Inr (bs, d') \<Longrightarrow>
   \<exists>t. s = bs @ t \<and> d' = dec_at (p @ bs) t \<and> length bs = n"
  using u8_wire.repeat_encode[of n p s bs d'] by auto

lemma dvalidate_Inr: "dvalidate v m d = Inr (x, d') \<longleftrightarrow> m d = Inr (x, d') \<and> is_ok (v x)"
proof (cases "m d")
  case (Inr r)
  then show ?thesis
    by (cases r; cases "v (fst r)") (auto simp: dvalidate_def dbind_def)
qed (simp add: dvalidate_def dbind_def)

lemma dvalidate_ok: "m d = Inr (x, d') \<Longrightarrow> v x = Inr u \<Longrightarrow> dvalidate v m d = Inr (x, d')"
  by (simp add: dvalidate_def dbind_def)

lemma is_ok_unit: "is_ok r \<longleftrightarrow> r = Inr ()"
  by (cases r) auto

interpretation address_wire: canonical_wire PeerAddress_encode PeerAddress_decode peer_address_ok
proof unfold_locales
  fix x p s
  assume ok: "peer_address_ok x"
  then show "PeerAddress_decode (dec_at p (PeerAddress_encode x @ s))
      = Inr (x, dec_at (p @ PeerAddress_encode x) s)"
    by (cases x) (auto simp: PeerAddress_decode_def decode_simps intro!: dvalidate_ok)
next
  fix p s x d'
  assume "PeerAddress_decode (dec_at p s) = Inr (x, d')"
  then show "\<exists>t. s = PeerAddress_encode x @ t \<and> d' = dec_at (p @ PeerAddress_encode x) t \<and>
      peer_address_ok x"
    by (auto simp: PeerAddress_decode_def dvalidate_Inr dbind_Inr_iff is_ok_unit
        split: if_splits dest!: encode_dests repeat_u8_encode)
qed

lemmas address_decode = address_wire.decode_encode address_wire.decode_encode_nil

section \<open>Identifiers and member sets\<close>

definition decode_nonzero_id :: "(decode_error, nat) decoder" where
  "decode_nonzero_id = dbind dec_u64 (\<lambda>v.
     if v = 0 then dfail_at (\<lambda>pos. InvalidTag (pos - 8) 0) else dret v)"

definition decode_nonzero_index :: "(decode_error, nat) decoder" where
  "decode_nonzero_index = dbind dec_u64 (\<lambda>v.
     if v = 0 then dfail_at (\<lambda>pos. InvalidTag (pos - 8) 0) else dret v)"

definition id_ok :: "nat \<Rightarrow> bool" where
  "id_ok v \<longleftrightarrow> v \<noteq> 0 \<and> v < 2 ^ 64"

interpretation id_wire: canonical_wire enc_u64 decode_nonzero_id id_ok
  by unfold_locales
    (simp add: decode_nonzero_id_def id_ok_def decode_simps,
     auto simp: decode_nonzero_id_def id_ok_def dbind_Inr_iff split: if_splits dest!: encode_dests)

interpretation index_wire: canonical_wire enc_u64 decode_nonzero_index id_ok
  by unfold_locales
    (simp add: decode_nonzero_index_def id_ok_def decode_simps,
     auto simp: decode_nonzero_index_def id_ok_def dbind_Inr_iff split: if_splits dest!: encode_dests)

definition encode_member_set :: "nat bset \<Rightarrow> bytes" where
  "encode_member_set members = enc_u32 (length members) @ concat (map enc_u64 members)"

primrec decode_member_loop :: "nat \<Rightarrow> nat bset \<Rightarrow> (decode_error, nat bset) decoder" where
  "decode_member_loop 0 members = dret members"
| "decode_member_loop (Suc n) members =
     dbind decode_nonzero_id (\<lambda>id.
       if id \<in> set members then dfail_at (\<lambda>pos. InvalidTag (pos - 8) 0)
       else decode_member_loop n (bset_insert id members))"

definition decode_member_set :: "bool \<Rightarrow> (decode_error, nat bset) decoder" where
  "decode_member_set allow_empty = dbind dec_u32 (\<lambda>count.
     if (\<not> allow_empty \<and> count = 0) \<or> MAX_POLICY_MEMBERS < count
     then dfail_at (\<lambda>pos. LengthTooLarge (pos - 4) count MAX_POLICY_MEMBERS)
     else decode_member_loop count [])"

definition members_ok :: "bool \<Rightarrow> nat bset \<Rightarrow> bool" where
  "members_ok allow_empty ms \<longleftrightarrow>
     bset_ok ms \<and> (\<forall>m \<in> set ms. id_ok m) \<and> length ms \<le> MAX_POLICY_MEMBERS \<and>
     (allow_empty \<or> ms \<noteq> [])"

lemma decode_member_loop_ok:
  "bset_ok (acc @ xs) \<Longrightarrow> \<forall>x \<in> set xs. id_ok x \<Longrightarrow>
   decode_member_loop (length xs) acc (dec_at p (concat (map enc_u64 xs) @ s))
     = Inr (acc @ xs, dec_at (p @ concat (map enc_u64 xs)) s)"
proof (induction xs arbitrary: acc p)
  case (Cons x xs)
  have lt: "\<forall>y \<in> set acc. y < x"
    using Cons.prems(1) by (auto simp: bset_ok_def sorted_wrt_append)
  then have ins: "bset_insert x acc = acc @ [x]" by (rule bset_insert_snoc)
  have "x \<notin> set acc" using lt by auto
  with Cons ins show ?case
    by (simp add: dbind_def id_wire.decode_encode)
qed simp

interpretation members_wire: wire encode_member_set "decode_member_set e" "members_ok e" for e
proof unfold_locales
  fix x p s
  assume ok: "members_ok e x"
  then have "length x \<le> 4096" by (simp add: members_ok_def policy_consts)
  with ok decode_member_loop_ok[of "[]" x]
  show "decode_member_set e (dec_at p (encode_member_set x @ s))
      = Inr (x, dec_at (p @ encode_member_set x) s)"
    by (auto simp: decode_member_set_def encode_member_set_def members_ok_def decode_simps)
qed

lemmas members_decode = members_wire.decode_encode members_wire.decode_encode_nil

text \<open>What the decoder of a set guarantees of its result, whatever the bytes.\<close>

lemma decode_member_loop_sound:
  "decode_member_loop n acc d = Inr (ms, d') \<Longrightarrow> bset_ok acc \<Longrightarrow> \<forall>x \<in> set acc. id_ok x \<Longrightarrow>
   d = dec_at p s \<Longrightarrow>
   bset_ok ms \<and> (\<forall>x \<in> set ms. id_ok x) \<and> length ms = length acc + n \<and>
   (\<exists>q t. d' = dec_at (p @ q) t \<and> s = q @ t)"
proof (induction n arbitrary: acc d p s)
  case (Suc n)
  from Suc.prems(1) obtain id d1 where id: "decode_nonzero_id d = Inr (id, d1)"
      and fresh: "id \<notin> set acc" and rest: "decode_member_loop n (bset_insert id acc) d1 = Inr (ms, d')"
    by (auto simp: dbind_Inr_iff split: if_splits)
  from id_wire.encode_decode[OF id[unfolded Suc.prems(4)]] obtain t
    where t: "s = enc_u64 id @ t" "d1 = dec_at (p @ enc_u64 id) t" "id_ok id" by blast
  have "length (bset_insert id acc) = Suc (length acc)"
    using fresh by (induction acc) auto
  with Suc.IH[OF rest _ _ t(2)] Suc.prems(2,3) t show ?case by auto
qed (auto intro: exI[of _ "[]"])

lemma decode_member_set_sound:
  assumes "decode_member_set e (dec_at p s) = Inr (ms, d')"
  shows "members_ok e ms \<and> (\<exists>q t. d' = dec_at (p @ q) t \<and> s = q @ t)"
proof -
  from assms obtain n d1 where n: "dec_u32 (dec_at p s) = Inr (n, d1)"
      and guard: "e \<or> n \<noteq> 0" "n \<le> MAX_POLICY_MEMBERS"
      and loop: "decode_member_loop n [] d1 = Inr (ms, d')"
    by (auto simp: decode_member_set_def dbind_Inr_iff split: if_splits)
  from u32_wire.encode_decode[OF n] obtain t where t: "s = enc_u32 n @ t" "d1 = dec_at (p @ enc_u32 n) t"
    by blast
  from decode_member_loop_sound[OF loop _ _ t(2)] guard t show ?thesis
    by (auto simp: members_ok_def)
qed

section \<open>The membership image (CCMS)\<close>

record joint_membership =
  jm_old_voters :: "nat bset"
  jm_new_voters :: "nat bset"
  jm_enter_index :: nat

record membership_state =
  ms_voters :: "nat bset"
  ms_learners :: "nat bset"
  ms_joint :: "joint_membership option"
  ms_addresses :: "(nat, peer_address) bmap"
  ms_active_features :: u64w

definition MEMBERSHIP_MAGIC :: nat where
  "MEMBERSHIP_MAGIC = from_le [0x43, 0x43, 0x4d, 0x53]"

definition MEMBERSHIP_FORMAT_VERSION :: nat where "MEMBERSHIP_FORMAT_VERSION = 2"

definition ATOMIC_BATCH_FEATURE :: u64w where "ATOMIC_BATCH_FEATURE = push_bit 1 1"

fun validate_addresses ::
  "nat bset \<Rightarrow> nat bset \<Rightarrow> (nat, peer_address) bmap \<Rightarrow> decode_error + unit" where
  "validate_addresses voters learners [] = Inr ()"
| "validate_addresses voters learners ((peer, address) # rest) =
     (if peer = 0 \<or> (peer \<notin> set voters \<and> peer \<notin> set learners) then Inl (InvalidTag 0 0)
      else res_bind (PeerAddress_validate address)
             (\<lambda>_. validate_addresses voters learners rest))"

definition MembershipState_validate :: "membership_state \<Rightarrow> decode_error + unit" where
  "MembershipState_validate m =
     (if ms_voters m = [] \<or> 0 \<in> set (ms_voters m) \<or> 0 \<in> set (ms_learners m) \<or>
         \<not> (set (ms_voters m) \<inter> set (ms_learners m) = {}) \<or>
         4096 < length (ms_voters m) + length (ms_learners m) \<or>
         ms_active_features m AND NOT ATOMIC_BATCH_FEATURE \<noteq> 0
      then Inl (InvalidTag 0 0)
      else res_bind (validate_addresses (ms_voters m) (ms_learners m) (ms_addresses m)) (\<lambda>_.
        case ms_joint m of None \<Rightarrow> Inr ()
        | Some j \<Rightarrow>
            if jm_old_voters j = [] \<or> jm_new_voters j = [] \<or> jm_enter_index j = 0 \<or>
               \<not> set (jm_old_voters j) \<subseteq> set (ms_voters m) \<or>
               \<not> set (jm_new_voters j) \<subseteq> set (ms_voters m)
            then Inl (InvalidTag 0 0) else Inr ()))"

definition MembershipState_new :: "nat bset \<Rightarrow> decode_error + membership_state" where
  "MembershipState_new voters =
     (let state = \<lparr>ms_voters = voters, ms_learners = [], ms_joint = None, ms_addresses = [],
                   ms_active_features = 0\<rparr>
      in res_bind (MembershipState_validate state) (\<lambda>_. Inr state))"

fun encode_joint :: "joint_membership option \<Rightarrow> bytes" where
  "encode_joint None = enc_u8 0"
| "encode_joint (Some j) =
     enc_u8 1 @ encode_member_set (jm_old_voters j) @ encode_member_set (jm_new_voters j) @
     enc_u64 (jm_enter_index j)"

definition encode_address_entry :: "nat \<times> peer_address \<Rightarrow> bytes" where
  "encode_address_entry e = enc_u64 (fst e) @ PeerAddress_encode (snd e)"

definition MembershipState_body :: "membership_state \<Rightarrow> bytes" where
  "MembershipState_body m =
     enc_header MEMBERSHIP_MAGIC MEMBERSHIP_FORMAT_VERSION @
     encode_member_set (ms_voters m) @
     encode_member_set (ms_learners m) @
     encode_joint (ms_joint m) @
     enc_u32 (length (ms_addresses m)) @
     concat (map encode_address_entry (ms_addresses m)) @
     enc_u64 (unat (ms_active_features m))"

definition MembershipState_encode :: "membership_state \<Rightarrow> decode_error + bytes" where
  "MembershipState_encode m =
     res_bind (MembershipState_validate m) (\<lambda>_.
       if u32_max < length (ms_addresses m)
       then Inl (LengthTooLarge 0 u32_max MAX_POLICY_MEMBERS)
       else Inr (seal (MembershipState_body m)))"

definition decode_joint :: "(decode_error, joint_membership option) decoder" where
  "decode_joint = dbind dec_u8 (\<lambda>tag.
     if tag = 0 then dret None
     else if tag = 1 then
       dbind (decode_member_set False) (\<lambda>old_voters.
       dbind (decode_member_set False) (\<lambda>new_voters.
       dbind decode_nonzero_index (\<lambda>enter_index.
         dret (Some \<lparr>jm_old_voters = old_voters, jm_new_voters = new_voters,
                     jm_enter_index = enter_index\<rparr>))))
     else dfail_at (\<lambda>pos. InvalidTag (pos - 1) tag))"

primrec decode_address_loop ::
  "nat \<Rightarrow> (nat, peer_address) bmap \<Rightarrow> (decode_error, (nat, peer_address) bmap) decoder" where
  "decode_address_loop 0 addresses = dret addresses"
| "decode_address_loop (Suc n) addresses =
     dbind decode_nonzero_id (\<lambda>id. dbind PeerAddress_decode (\<lambda>address.
       if bmap_get addresses id \<noteq> None then dfail_at (\<lambda>pos. InvalidTag (pos - 1) 0)
       else decode_address_loop n (bmap_insert id address addresses)))"

definition MembershipState_fields :: "(decode_error, membership_state) decoder" where
  "MembershipState_fields =
     dbind dec_u32 (\<lambda>magic. dbind dec_u16 (\<lambda>version.
       if magic \<noteq> MEMBERSHIP_MAGIC then dfail (InvalidMagic MEMBERSHIP_MAGIC magic)
       else if version \<noteq> 1 \<and> version \<noteq> MEMBERSHIP_FORMAT_VERSION
       then dfail (InvalidVersion MEMBERSHIP_FORMAT_VERSION version)
       else
         dbind (decode_member_set False) (\<lambda>voters.
         dbind (decode_member_set True) (\<lambda>learners.
         dbind decode_joint (\<lambda>joint.
         dbind dec_u32 (\<lambda>address_count.
           if MAX_POLICY_MEMBERS < address_count
           then dfail_at (\<lambda>pos. LengthTooLarge (pos - 4) address_count MAX_POLICY_MEMBERS)
           else
             dbind (decode_address_loop address_count []) (\<lambda>addresses.
             dbind (if version = 1 then dret 0 else dec_u64) (\<lambda>features.
               dret \<lparr>ms_voters = voters, ms_learners = learners, ms_joint = joint,
                     ms_addresses = addresses,
                     ms_active_features = word_of_nat features\<rparr>))))))))"

definition MembershipState_decode :: "bytes \<Rightarrow> decode_error + membership_state" where
  "MembershipState_decode bytes =
     (if length bytes < 4 then Inl (UnexpectedEof (length bytes) (4 - length bytes))
      else
        let body_len = length bytes - 4
        in if \<not> seal_ok bytes then Inl (InvalidTag body_len 0)
           else res_bind (decode_all id MembershipState_fields (take body_len bytes))
                  (\<lambda>state. res_bind (MembershipState_validate state) (\<lambda>_. Inr state)))"

fun joint_ok :: "joint_membership option \<Rightarrow> bool" where
  "joint_ok None = True"
| "joint_ok (Some j) \<longleftrightarrow>
     members_ok False (jm_old_voters j) \<and> members_ok False (jm_new_voters j) \<and>
     id_ok (jm_enter_index j)"

definition membership_ok :: "membership_state \<Rightarrow> bool" where
  "membership_ok m \<longleftrightarrow>
     members_ok False (ms_voters m) \<and> members_ok True (ms_learners m) \<and> joint_ok (ms_joint m) \<and>
     bmap_ok (ms_addresses m) \<and> length (ms_addresses m) \<le> MAX_POLICY_MEMBERS \<and>
     (\<forall>(id, a) \<in> set (ms_addresses m). id_ok id \<and> peer_address_ok a) \<and>
     MembershipState_validate m = Inr ()"

interpretation joint_wire: wire encode_joint decode_joint joint_ok
proof unfold_locales
  fix x p s
  assume "joint_ok x"
  then show "decode_joint (dec_at p (encode_joint x @ s)) = Inr (x, dec_at (p @ encode_joint x) s)"
    by (cases x)
      (simp_all add: decode_joint_def decode_simps members_decode index_wire.decode_encode)
qed

lemma decode_address_loop_ok:
  "bmap_ok (acc @ xs) \<Longrightarrow> \<forall>(id, a) \<in> set xs. id_ok id \<and> peer_address_ok a \<Longrightarrow>
   decode_address_loop (length xs) acc (dec_at p (concat (map encode_address_entry xs) @ s))
     = Inr (acc @ xs, dec_at (p @ concat (map encode_address_entry xs)) s)"
proof (induction xs arbitrary: acc p)
  case (Cons x xs)
  obtain id a where x: "x = (id, a)" by fastforce
  have lt: "\<forall>k \<in> set (bmap_keys acc). k < id"
    using Cons.prems(1) by (auto simp: x bmap_ok_def sorted_wrt_append)
  then have ins: "bmap_insert id a acc = acc @ [(id, a)]" by (rule bmap_insert_snoc)
  have "map_of acc id = None" using lt by (auto simp: map_of_eq_None_iff)
  with Cons ins x show ?case
    by (simp add: dbind_def id_wire.decode_encode address_decode encode_address_entry_def)
qed simp

lemma MEMBERSHIP_MAGIC_less [simp]: "MEMBERSHIP_MAGIC < 4294967296"
  using magic_less[of "[0x43, 0x43, 0x4d, 0x53]"] by (simp add: MEMBERSHIP_MAGIC_def)

lemma word_fits [simp]: "unat (w :: u64w) < 18446744073709551616"
  using unsigned_less[of w, where 'a = nat] by simp

lemma membership_fields_decode:
  assumes "membership_ok m"
  shows "MembershipState_fields (dec_at p (MembershipState_body m @ s))
           = Inr (m, dec_at (p @ MembershipState_body m) s)"
proof -
  have "length (ms_addresses m) \<le> 4096" using assms by (simp add: membership_ok_def policy_consts)
  with assms show ?thesis
    using decode_address_loop_ok[of "[]" "ms_addresses m"]
    by (simp add: MembershipState_fields_def MembershipState_body_def membership_ok_def enc_header_def
        decode_simps members_decode joint_wire.decode_encode MEMBERSHIP_FORMAT_VERSION_def policy_consts)
qed

interpretation membership_wire: wire MembershipState_body MembershipState_fields membership_ok
  by unfold_locales (rule membership_fields_decode)

lemma MembershipState_roundtrip:
  assumes "membership_ok m"
  shows "\<exists>bytes. MembershipState_encode m = Inr bytes \<and> MembershipState_decode bytes = Inr m"
proof -
  let ?b = "MembershipState_body m"
  have "length (ms_addresses m) \<le> u32_max"
    using assms by (simp add: membership_ok_def policy_consts u32_max_def)
  then have "MembershipState_encode m = Inr (seal ?b)"
    using assms by (simp add: MembershipState_encode_def membership_ok_def)
  moreover have "take (length ?b) (seal ?b) = ?b" using seal_body[of ?b] by simp
  then have "MembershipState_decode (seal ?b) = Inr m"
    using assms membership_wire.whole_buffer[OF assms]
    by (simp add: MembershipState_decode_def membership_ok_def)
  ultimately show ?thesis by blast
qed

end
