(* ===== verification/ConfigEntry.thy ===== *)
theory ConfigEntry
  imports Membership
begin

text \<open>
  Replicated configuration operations of \<open>crates/cc-core/src/lib.rs\<close>, the CCCF envelope a Raft
  configuration entry carries, and the CCAR reply of the operator interface.
\<close>

section \<open>Operations\<close>

datatype transfer_result = TR_Success | TR_Timeout | TR_Superseded

fun TransferResult_tag :: "transfer_result \<Rightarrow> byte" where
  "TransferResult_tag TR_Success = 1"
| "TransferResult_tag TR_Timeout = 2"
| "TransferResult_tag TR_Superseded = 3"

definition TransferResult_decode :: "byte \<Rightarrow> decode_error + transfer_result" where
  "TransferResult_decode tag =
     (if tag = 1 then Inr TR_Success
      else if tag = 2 then Inr TR_Timeout
      else if tag = 3 then Inr TR_Superseded
      else Inl (InvalidTag 0 tag))"

datatype config_operation =
    AddLearner nat "peer_address option"
  | RemoveLearner nat
  | UpdateAddress nat peer_address
  | EnterJoint "nat bset"
  | LeaveJoint nat
  | BeginLeaderTransfer nat
  | FinishLeaderTransfer nat transfer_result
  | ActivateFeature u64w

fun ConfigOperation_tag :: "config_operation \<Rightarrow> byte" where
  "ConfigOperation_tag (AddLearner _ _) = 1"
| "ConfigOperation_tag (RemoveLearner _) = 2"
| "ConfigOperation_tag (UpdateAddress _ _) = 3"
| "ConfigOperation_tag (EnterJoint _) = 4"
| "ConfigOperation_tag (LeaveJoint _) = 5"
| "ConfigOperation_tag (BeginLeaderTransfer _) = 6"
| "ConfigOperation_tag (FinishLeaderTransfer _ _) = 7"
| "ConfigOperation_tag (ActivateFeature _) = 8"

fun encode_optional_address :: "peer_address option \<Rightarrow> bytes" where
  "encode_optional_address None = enc_u8 0"
| "encode_optional_address (Some a) = enc_u8 1 @ PeerAddress_encode a"

definition decode_optional_address :: "(decode_error, peer_address option) decoder" where
  "decode_optional_address = dbind dec_u8 (\<lambda>tag.
     if tag = 0 then dret None
     else if tag = 1 then dbind PeerAddress_decode (\<lambda>a. dret (Some a))
     else dfail_at (\<lambda>pos. InvalidTag (pos - 1) tag))"

fun ConfigOperation_encode_body :: "config_operation \<Rightarrow> bytes" where
  "ConfigOperation_encode_body (AddLearner n address) = enc_u64 n @ encode_optional_address address"
| "ConfigOperation_encode_body (RemoveLearner n) = enc_u64 n"
| "ConfigOperation_encode_body (BeginLeaderTransfer n) = enc_u64 n"
| "ConfigOperation_encode_body (UpdateAddress n address) = enc_u64 n @ PeerAddress_encode address"
| "ConfigOperation_encode_body (EnterJoint new_voters) = encode_member_set new_voters"
| "ConfigOperation_encode_body (LeaveJoint enter_index) = enc_u64 enter_index"
| "ConfigOperation_encode_body (FinishLeaderTransfer intent_index result) =
     enc_u64 intent_index @ enc_u8 (TransferResult_tag result)"
| "ConfigOperation_encode_body (ActivateFeature feature) = enc_u64 (unat feature)"

definition dlift_result :: "('a \<Rightarrow> 'e + 'b) \<Rightarrow> ('e, 'a) decoder \<Rightarrow> ('e, 'b) decoder" where
  "dlift_result f m = dbind m (\<lambda>x. case f x of Inl e \<Rightarrow> dfail e | Inr y \<Rightarrow> dret y)"

definition ConfigOperation_fields :: "byte \<Rightarrow> (decode_error, config_operation) decoder" where
  "ConfigOperation_fields tag =
     (if tag = 1 then
        dbind decode_nonzero_id (\<lambda>n. dbind decode_optional_address (\<lambda>a. dret (AddLearner n a)))
      else if tag = 2 then dbind decode_nonzero_id (\<lambda>n. dret (RemoveLearner n))
      else if tag = 3 then
        dbind decode_nonzero_id (\<lambda>n. dbind PeerAddress_decode (\<lambda>a. dret (UpdateAddress n a)))
      else if tag = 4 then dbind (decode_member_set False) (\<lambda>vs. dret (EnterJoint vs))
      else if tag = 5 then dbind decode_nonzero_index (\<lambda>i. dret (LeaveJoint i))
      else if tag = 6 then dbind decode_nonzero_id (\<lambda>n. dret (BeginLeaderTransfer n))
      else if tag = 7 then
        dbind decode_nonzero_index (\<lambda>i.
        dbind (dlift_result TransferResult_decode dec_u8) (\<lambda>r. dret (FinishLeaderTransfer i r)))
      else if tag = 8 then
        dbind dec_u64 (\<lambda>feature.
          if word_of_nat feature \<noteq> ATOMIC_BATCH_FEATURE
          then dfail_at (\<lambda>pos. InvalidTag (pos - 8) 8)
          else dret (ActivateFeature (word_of_nat feature)))
      else dfail (InvalidTag 0 tag))"

definition ConfigOperation_decode :: "byte \<Rightarrow> bytes \<Rightarrow> decode_error + config_operation" where
  "ConfigOperation_decode tag body = decode_all id (ConfigOperation_fields tag) body"

section \<open>The configuration envelope (CCCF)\<close>

record session_key =
  sk_namespace :: byte
  sk_client :: nat

definition UserRequest :: byte where "UserRequest = 0"
definition AdminRequest :: byte where "AdminRequest = 1"

definition SessionKey_new :: "byte \<Rightarrow> nat \<Rightarrow> decode_error + session_key" where
  "SessionKey_new namespace client =
     (if AdminRequest < namespace \<or> client = 0 then Inl (InvalidTag 0 namespace)
      else Inr \<lparr>sk_namespace = namespace, sk_client = client\<rparr>)"

record config_envelope =
  ce_admin_session :: "(session_key \<times> nat) option"
  ce_leader_time :: nat
  ce_operation :: config_operation

definition CONFIG_ENVELOPE_MAGIC :: nat where
  "CONFIG_ENVELOPE_MAGIC = from_le [0x43, 0x43, 0x43, 0x46]"

definition ADMIN_REPLY_MAGIC :: nat where
  "ADMIN_REPLY_MAGIC = from_le [0x43, 0x43, 0x41, 0x52]"

definition CONFIG_FORMAT_VERSION :: nat where "CONFIG_FORMAT_VERSION = 1"

fun encode_admin_session :: "(session_key \<times> nat) option \<Rightarrow> bytes" where
  "encode_admin_session (Some (key, sequence)) =
     enc_u8 1 @ enc_u8 (sk_namespace key) @ enc_u64 (sk_client key) @ enc_u64 sequence"
| "encode_admin_session None = enc_u8 0 @ enc_u8 0 @ enc_u64 0 @ enc_u64 0"

definition ConfigEnvelope_body :: "config_envelope \<Rightarrow> bytes" where
  "ConfigEnvelope_body e =
     enc_header CONFIG_ENVELOPE_MAGIC CONFIG_FORMAT_VERSION @
     encode_admin_session (ce_admin_session e) @
     enc_u64 (ce_leader_time e) @
     enc_u8 (ConfigOperation_tag (ce_operation e)) @
     enc_bytes (ConfigOperation_encode_body (ce_operation e))"

definition ConfigEnvelope_encode :: "config_envelope \<Rightarrow> bytes" where
  "ConfigEnvelope_encode e = seal (ConfigEnvelope_body e)"

definition decode_admin_session :: "(decode_error, (session_key \<times> nat) option) decoder" where
  "decode_admin_session =
     dbind dec_u8 (\<lambda>has_session. dbind dec_u8 (\<lambda>namespace.
     dbind dec_u64 (\<lambda>client. dbind dec_u64 (\<lambda>sequence.
       if has_session = 0 \<and> namespace = 0 \<and> client = 0 \<and> sequence = 0 then dret None
       else if has_session = 1 \<and> namespace = AdminRequest \<and> sequence \<noteq> 0 then
         (case SessionKey_new namespace client of
            Inl e \<Rightarrow> dfail e | Inr key \<Rightarrow> dret (Some (key, sequence)))
       else dfail (InvalidTag 6 has_session)))))"

definition ConfigEnvelope_fields :: "(decode_error, config_envelope) decoder" where
  "ConfigEnvelope_fields =
     dbind (dec_header CONFIG_ENVELOPE_MAGIC CONFIG_FORMAT_VERSION) (\<lambda>_.
     dbind decode_admin_session (\<lambda>admin_session.
     dbind dec_u64 (\<lambda>leader_time.
     dbind dec_u8 (\<lambda>tag.
     dbind (dlift_result (ConfigOperation_decode tag) dec_bytes_field) (\<lambda>operation.
       dret \<lparr>ce_admin_session = admin_session, ce_leader_time = leader_time,
             ce_operation = operation\<rparr>)))))"

definition ConfigEnvelope_decode :: "bytes \<Rightarrow> decode_error + config_envelope" where
  "ConfigEnvelope_decode bytes =
     (if length bytes < 4 then Inl (UnexpectedEof (length bytes) (4 - length bytes))
      else
        let body_len = length bytes - 4
        in if \<not> seal_ok bytes then Inl (InvalidTag body_len 0)
           else decode_all id ConfigEnvelope_fields (take body_len bytes))"

section \<open>The operator reply (CCAR)\<close>

datatype admin_result_tag =
    Applied | TransferSuccess | TransferTimeout | TransferSuperseded
  | InProgress | RequestConflict | RequestExpired | Rejected

fun AdminResultTag_code :: "admin_result_tag \<Rightarrow> byte" where
  "AdminResultTag_code Applied = 1"
| "AdminResultTag_code TransferSuccess = 2"
| "AdminResultTag_code TransferTimeout = 3"
| "AdminResultTag_code TransferSuperseded = 4"
| "AdminResultTag_code InProgress = 5"
| "AdminResultTag_code RequestConflict = 6"
| "AdminResultTag_code RequestExpired = 7"
| "AdminResultTag_code Rejected = 8"

definition AdminResultTag_of :: "byte \<Rightarrow> admin_result_tag option" where
  "AdminResultTag_of c =
     (if c = 1 then Some Applied else if c = 2 then Some TransferSuccess
      else if c = 3 then Some TransferTimeout else if c = 4 then Some TransferSuperseded
      else if c = 5 then Some InProgress else if c = 6 then Some RequestConflict
      else if c = 7 then Some RequestExpired else if c = 8 then Some Rejected else None)"

record admin_reply =
  ar_operation_tag :: byte
  ar_result :: admin_result_tag
  ar_source_index :: nat
  ar_detail :: bytes

definition AdminReply_body :: "admin_reply \<Rightarrow> bytes" where
  "AdminReply_body r =
     enc_header ADMIN_REPLY_MAGIC CONFIG_FORMAT_VERSION @
     enc_u8 (ar_operation_tag r) @
     enc_u8 (AdminResultTag_code (ar_result r)) @
     enc_u64 (ar_source_index r) @
     enc_bytes (ar_detail r)"

definition AdminReply_encode :: "admin_reply \<Rightarrow> bytes" where
  "AdminReply_encode r = seal (AdminReply_body r)"

definition needs_source :: "admin_result_tag \<Rightarrow> bool" where
  "needs_source t \<longleftrightarrow> t \<in> {Applied, TransferSuccess, TransferTimeout, TransferSuperseded}"

definition AdminReply_fields :: "(decode_error, admin_reply) decoder" where
  "AdminReply_fields =
     dbind (dec_header ADMIN_REPLY_MAGIC CONFIG_FORMAT_VERSION) (\<lambda>_.
     dbind dec_u8 (\<lambda>operation_tag.
       if \<not> (1 \<le> operation_tag \<and> operation_tag \<le> 8)
       then dfail_at (\<lambda>pos. InvalidTag (pos - 1) operation_tag)
       else dbind dec_u8 (\<lambda>result_tag.
         case AdminResultTag_of result_tag of
           None \<Rightarrow> dfail_at (\<lambda>pos. InvalidTag (pos - 1) result_tag)
         | Some result \<Rightarrow> dbind dec_u64 (\<lambda>source_index.
             if needs_source result \<and> source_index = 0
             then dfail_at (\<lambda>pos. InvalidTag (pos - 8) 0)
             else dbind dec_bytes_field (\<lambda>detail.
               dret \<lparr>ar_operation_tag = operation_tag, ar_result = result,
                     ar_source_index = source_index, ar_detail = detail\<rparr>)))))"

definition AdminReply_decode :: "bytes \<Rightarrow> decode_error + admin_reply" where
  "AdminReply_decode bytes =
     (if length bytes < 4 then Inl (UnexpectedEof (length bytes) (4 - length bytes))
      else
        let body_len = length bytes - 4
        in if \<not> seal_ok bytes then Inl (InvalidTag body_len 0)
           else decode_all id AdminReply_fields (take body_len bytes))"

section \<open>Well-formed values\<close>

fun config_operation_ok :: "config_operation \<Rightarrow> bool" where
  "config_operation_ok (AddLearner n address) \<longleftrightarrow>
     id_ok n \<and> (case address of None \<Rightarrow> True | Some a \<Rightarrow> peer_address_ok a)"
| "config_operation_ok (RemoveLearner n) \<longleftrightarrow> id_ok n"
| "config_operation_ok (UpdateAddress n address) \<longleftrightarrow> id_ok n \<and> peer_address_ok address"
| "config_operation_ok (EnterJoint vs) \<longleftrightarrow> members_ok False vs"
| "config_operation_ok (LeaveJoint i) \<longleftrightarrow> id_ok i"
| "config_operation_ok (BeginLeaderTransfer n) \<longleftrightarrow> id_ok n"
| "config_operation_ok (FinishLeaderTransfer i r) \<longleftrightarrow> id_ok i"
| "config_operation_ok (ActivateFeature f) \<longleftrightarrow> f = ATOMIC_BATCH_FEATURE"

fun admin_session_ok :: "(session_key \<times> nat) option \<Rightarrow> bool" where
  "admin_session_ok None = True"
| "admin_session_ok (Some (key, sequence)) \<longleftrightarrow>
     sk_namespace key = AdminRequest \<and> id_ok (sk_client key) \<and> id_ok sequence"

definition envelope_ok :: "config_envelope \<Rightarrow> bool" where
  "envelope_ok e \<longleftrightarrow>
     admin_session_ok (ce_admin_session e) \<and> ce_leader_time e < 2 ^ 64 \<and>
     config_operation_ok (ce_operation e)"

definition admin_reply_ok :: "admin_reply \<Rightarrow> bool" where
  "admin_reply_ok r \<longleftrightarrow>
     1 \<le> ar_operation_tag r \<and> ar_operation_tag r \<le> 8 \<and> ar_source_index r < 2 ^ 64 \<and>
     (needs_source (ar_result r) \<longrightarrow> ar_source_index r \<noteq> 0) \<and> enc_bytes_ok (ar_detail r)"

section \<open>Round trips\<close>

lemma dlift_result_ok: "m d = Inr (x, d') \<Longrightarrow> f x = Inr y \<Longrightarrow> dlift_result f m d = Inr (y, d')"
  by (simp add: dlift_result_def dbind_def)

lemma dlift_result_Inr:
  "dlift_result f m d = Inr (y, d') \<longleftrightarrow> (\<exists>x. m d = Inr (x, d') \<and> f x = Inr y)"
proof (cases "m d")
  case (Inr r)
  then show ?thesis
    by (cases r; cases "f (fst r)") (auto simp: dlift_result_def dbind_def)
qed (simp add: dlift_result_def dbind_def)

lemma word_of_nat_u64: "n < 18446744073709551616 \<Longrightarrow> word_of_nat n = (w :: u64w) \<longleftrightarrow> n = unat w"
  by (auto simp: unat_of_nat)

lemma TransferResult_roundtrip [simp]: "TransferResult_decode (TransferResult_tag r) = Inr r"
  by (cases r) (simp_all add: TransferResult_decode_def)

lemma TransferResult_canonical: "TransferResult_decode t = Inr r \<longleftrightarrow> t = TransferResult_tag r"
  by (cases r) (auto simp: TransferResult_decode_def split: if_splits)

interpretation optional_address_wire:
  canonical_wire encode_optional_address decode_optional_address
    "\<lambda>a. case a of None \<Rightarrow> True | Some x \<Rightarrow> peer_address_ok x"
proof unfold_locales
  fix x p s
  assume "case x of None \<Rightarrow> True | Some x \<Rightarrow> peer_address_ok x"
  then show "decode_optional_address (dec_at p (encode_optional_address x @ s))
      = Inr (x, dec_at (p @ encode_optional_address x) s)"
    by (cases x) (simp_all add: decode_optional_address_def decode_simps address_decode)
next
  fix p s x d'
  assume "decode_optional_address (dec_at p s) = Inr (x, d')"
  then show "\<exists>t. s = encode_optional_address x @ t \<and> d' = dec_at (p @ encode_optional_address x) t \<and>
      (case x of None \<Rightarrow> True | Some x \<Rightarrow> peer_address_ok x)"
    by (auto simp: decode_optional_address_def dbind_Inr_iff split: if_splits
        dest!: encode_dests address_wire.encode_decode)
qed

lemmas field_decode =
  decode_simps address_decode members_decode
  id_wire.decode_encode id_wire.decode_encode_nil
  index_wire.decode_encode index_wire.decode_encode_nil
  optional_address_wire.decode_encode optional_address_wire.decode_encode_nil

lemma config_operation_fields_decode:
  "config_operation_ok op \<Longrightarrow>
   ConfigOperation_fields (ConfigOperation_tag op) (dec_at p (ConfigOperation_encode_body op @ s))
     = Inr (op, dec_at (p @ ConfigOperation_encode_body op) s)"
  by (cases op) (simp_all add: ConfigOperation_fields_def field_decode dlift_result_def)

lemma ConfigOperation_roundtrip:
  "config_operation_ok op \<Longrightarrow>
   ConfigOperation_decode (ConfigOperation_tag op) (ConfigOperation_encode_body op) = Inr op"
  using config_operation_fields_decode[of op "[]" "[]"]
  by (auto simp: ConfigOperation_decode_def intro: decode_all_ok)

lemma ConfigOperation_sound:
  assumes "ConfigOperation_decode tag body = Inr op"
  shows "config_operation_ok op \<and> tag = ConfigOperation_tag op \<and>
         ((\<forall>vs. op \<noteq> EnterJoint vs) \<longrightarrow> body = ConfigOperation_encode_body op)"
proof -
  from assms obtain d' where d: "ConfigOperation_fields tag (dec_at [] body) = Inr (op, d')"
      and fin: "dec_finish d' = Inr ((), d')"
    by (auto simp: ConfigOperation_decode_def decode_all_Inr)
  show ?thesis
    using d fin
    by (auto simp: ConfigOperation_fields_def dbind_Inr_iff dlift_result_Inr dec_finish_at
          TransferResult_canonical word_of_nat_u64 split: if_splits
          dest!: encode_dests id_wire.encode_decode index_wire.encode_decode address_wire.encode_decode
            optional_address_wire.encode_decode decode_member_set_sound)
qed

lemma length_address_le: "peer_address_ok a \<Longrightarrow> length (PeerAddress_encode a) \<le> 19"
  by (cases a) simp_all

lemma length_concat_enc_u64 [simp]: "length (concat (map enc_u64 xs)) = 8 * length xs"
  by (induction xs) simp_all

lemma config_body_short: "config_operation_ok op \<Longrightarrow> enc_bytes_ok (ConfigOperation_encode_body op)"
proof (cases op)
  case (AddLearner n address)
  assume "config_operation_ok op"
  then have "length (encode_optional_address address) \<le> 20"
    using AddLearner length_address_le by (cases address) fastforce+
  then show ?thesis using AddLearner by (simp add: enc_bytes_ok_def MAX_CODEC_BYTES_def)
next
  case (UpdateAddress n address)
  assume "config_operation_ok op"
  then have "length (PeerAddress_encode address) \<le> 19"
    using UpdateAddress length_address_le by simp
  then show ?thesis using UpdateAddress by (simp add: enc_bytes_ok_def MAX_CODEC_BYTES_def)
qed (auto simp: enc_bytes_ok_def MAX_CODEC_BYTES_def encode_member_set_def members_ok_def
      MAX_POLICY_MEMBERS_def)

interpretation session_wire: canonical_wire encode_admin_session decode_admin_session admin_session_ok
proof unfold_locales
  fix x p s
  assume "admin_session_ok x"
  then show "decode_admin_session (dec_at p (encode_admin_session x @ s))
      = Inr (x, dec_at (p @ encode_admin_session x) s)"
    by (cases x)
      (auto simp: decode_admin_session_def decode_simps id_ok_def SessionKey_new_def AdminRequest_def)
next
  fix p s x d'
  assume "decode_admin_session (dec_at p s) = Inr (x, d')"
  then show "\<exists>t. s = encode_admin_session x @ t \<and> d' = dec_at (p @ encode_admin_session x) t \<and>
      admin_session_ok x"
    by (auto simp: decode_admin_session_def dbind_Inr_iff SessionKey_new_def AdminRequest_def id_ok_def
        split: if_splits dest!: encode_dests)
qed

lemma config_magic_less [simp]:
  "CONFIG_ENVELOPE_MAGIC < 4294967296" "ADMIN_REPLY_MAGIC < 4294967296" "CONFIG_FORMAT_VERSION < 65536"
  using magic_less[of "[0x43, 0x43, 0x43, 0x46]"] magic_less[of "[0x43, 0x43, 0x41, 0x52]"]
  by (simp_all add: CONFIG_ENVELOPE_MAGIC_def ADMIN_REPLY_MAGIC_def CONFIG_FORMAT_VERSION_def)

interpretation envelope_wire: wire ConfigEnvelope_body ConfigEnvelope_fields envelope_ok
proof unfold_locales
  fix x p s
  assume ok: "envelope_ok x"
  then have op: "enc_bytes_ok (ConfigOperation_encode_body (ce_operation x))"
    by (simp add: envelope_ok_def config_body_short)
  with ok show "ConfigEnvelope_fields (dec_at p (ConfigEnvelope_body x @ s))
      = Inr (x, dec_at (p @ ConfigEnvelope_body x) s)"
    by (simp add: ConfigEnvelope_fields_def ConfigEnvelope_body_def envelope_ok_def decode_simps
        session_wire.decode_encode dlift_result_def ConfigOperation_roundtrip)
qed

lemma ConfigEnvelope_roundtrip:
  assumes "envelope_ok e"
  shows "ConfigEnvelope_decode (ConfigEnvelope_encode e) = Inr e"
proof -
  have "take (length (ConfigEnvelope_body e)) (seal (ConfigEnvelope_body e)) = ConfigEnvelope_body e"
    using seal_body[of "ConfigEnvelope_body e"] by simp
  with envelope_wire.whole_buffer[OF assms] show ?thesis
    by (simp add: ConfigEnvelope_decode_def ConfigEnvelope_encode_def)
qed

lemma ConfigEnvelope_fields_sound:
  assumes "ConfigEnvelope_fields (dec_at p s) = Inr (e, d')"
  shows "envelope_ok e \<and> (\<exists>q t. s = q @ t \<and> d' = dec_at (p @ q) t \<and>
           ((\<forall>vs. ce_operation e \<noteq> EnterJoint vs) \<longrightarrow> q = ConfigEnvelope_body e))"
  using assms
  by (auto simp: ConfigEnvelope_fields_def ConfigEnvelope_body_def dbind_Inr_iff dlift_result_Inr envelope_ok_def
      dest!: encode_dests session_wire.encode_decode ConfigOperation_sound)

lemma ConfigEnvelope_sound:
  assumes "ConfigEnvelope_decode bytes = Inr e"
  shows "envelope_ok e \<and> ((\<forall>vs. ce_operation e \<noteq> EnterJoint vs) \<longrightarrow> bytes = ConfigEnvelope_encode e)"
proof -
  let ?b = "take (length bytes - 4) bytes"
  from assms have len: "4 \<le> length bytes" and ok: "seal_ok bytes"
      and dec: "decode_all id ConfigEnvelope_fields ?b = Inr e"
    by (auto simp: ConfigEnvelope_decode_def Let_def split: if_splits)
  from dec obtain d' where d: "ConfigEnvelope_fields (dec_at [] ?b) = Inr (e, d')"
      and fin: "dec_finish d' = Inr ((), d')"
    by (auto simp: decode_all_Inr)
  from ConfigEnvelope_fields_sound[OF d] fin
  have "envelope_ok e" and "(\<forall>vs. ce_operation e \<noteq> EnterJoint vs) \<longrightarrow> ?b = ConfigEnvelope_body e"
    by (auto simp: dec_finish_at)
  moreover have "bytes = seal ?b" using seal_ok_iff[OF len] ok by simp
  ultimately show ?thesis by (metis ConfigEnvelope_encode_def)
qed

lemma ConfigEnvelope_rejects_byte:
  assumes "ConfigEnvelope_encode e = xs @ a # ys @ tail" and "length tail = 4" and "a \<noteq> b"
  shows "ConfigEnvelope_decode (xs @ b # ys @ tail) = Inl (InvalidTag (length (xs @ b # ys)) 0)"
proof -
  have eq: "seal (ConfigEnvelope_body e) = (xs @ a # ys) @ tail"
    using assms(1) by (simp add: ConfigEnvelope_encode_def)
  have "length (ConfigEnvelope_body e) + 4 = length (xs @ a # ys) + 4"
    using arg_cong[OF eq, of length] assms(2) by (simp only: length_append length_seal)
  then have "length (ConfigEnvelope_body e) = length (xs @ a # ys)" by (rule add_right_imp_eq)
  then have "ConfigEnvelope_body e = xs @ a # ys"
    using eq[unfolded seal_eq] append_eq_append_conv by blast
  then have "seal (xs @ a # ys) = xs @ a # ys @ tail" using eq by simp
  then have "\<not> seal_ok (xs @ b # ys @ tail)" using assms(3) by (rule seal_detects_byte)
  then show ?thesis using assms(2) by (simp add: ConfigEnvelope_decode_def)
qed

section \<open>The operator reply is canonical\<close>

lemma AdminResultTag_canonical: "AdminResultTag_of c = Some t \<longleftrightarrow> c = AdminResultTag_code t"
  by (cases t) (auto simp: AdminResultTag_of_def split: if_splits)

interpretation reply_wire: canonical_wire AdminReply_body AdminReply_fields admin_reply_ok
proof unfold_locales
  fix x p s
  assume "admin_reply_ok x"
  then show "AdminReply_fields (dec_at p (AdminReply_body x @ s)) = Inr (x, dec_at (p @ AdminReply_body x) s)"
    using AdminResultTag_canonical[of "AdminResultTag_code (ar_result x)" "ar_result x"]
    by (auto simp: AdminReply_fields_def AdminReply_body_def admin_reply_ok_def decode_simps)
next
  fix p s x d'
  assume "AdminReply_fields (dec_at p s) = Inr (x, d')"
  then show "\<exists>t. s = AdminReply_body x @ t \<and> d' = dec_at (p @ AdminReply_body x) t \<and> admin_reply_ok x"
    by (auto simp: AdminReply_fields_def AdminReply_body_def admin_reply_ok_def dbind_Inr_iff
        AdminResultTag_canonical split: if_splits option.splits dest!: encode_dests)
qed

lemma AdminReply_decode_iff:
  "AdminReply_decode bytes = Inr r \<longleftrightarrow> bytes = AdminReply_encode r \<and> admin_reply_ok r"
proof
  let ?b = "take (length bytes - 4) bytes"
  assume "AdminReply_decode bytes = Inr r"
  then have len: "4 \<le> length bytes" and ok: "seal_ok bytes"
      and dec: "decode_all id AdminReply_fields ?b = Inr r"
    by (auto simp: AdminReply_decode_def Let_def split: if_splits)
  moreover have "bytes = seal ?b" using seal_ok_iff[OF len] ok by simp
  ultimately show "bytes = AdminReply_encode r \<and> admin_reply_ok r"
    using reply_wire.whole_buffer_encode[OF dec] by (metis AdminReply_encode_def)
next
  assume r: "bytes = AdminReply_encode r \<and> admin_reply_ok r"
  have "take (length (AdminReply_body r)) (seal (AdminReply_body r)) = AdminReply_body r"
    using seal_body[of "AdminReply_body r"] by simp
  with r show "AdminReply_decode bytes = Inr r"
    by (simp add: AdminReply_decode_def AdminReply_encode_def reply_wire.whole_buffer)
qed

end
