(* ===== verification/Rng.thy ===== *)
theory Rng
  imports Checksum
begin

text \<open>
  The deterministic random streams of \<open>crates/cc-core/src/lib.rs\<close>: \<open>SplitMix64\<close>, the
  xoshiro256++ generator and its samplers.  Generator states are 64-bit words; the sampled
  values are natural numbers.  The lemmas show that a stream never reaches the all-zero state
  (where it would be stuck) and that every sampler stays inside the bounds it is given.
\<close>

section \<open>SplitMix64\<close>

definition SplitMix64_next :: "u64w \<Rightarrow> u64w \<times> u64w" where
  "SplitMix64_next state0 =
     (let state1 = state0 + 0x9e3779b97f4a7c15;
          z1 = (state1 XOR drop_bit 30 state1) * 0xbf58476d1ce4e5b9;
          z2 = (z1 XOR drop_bit 27 z1) * 0x94d049bb133111eb
      in (z2 XOR drop_bit 31 z2, state1))"

section \<open>xoshiro256++\<close>

record xoshiro =
  x0 :: u64w
  x1 :: u64w
  x2 :: u64w
  x3 :: u64w

definition Xoshiro_stream :: "u64w \<Rightarrow> bytes \<Rightarrow> u64w \<Rightarrow> xoshiro" where
  "Xoshiro_stream seed domain index =
     (let s0 = seed XOR fnv1a domain XOR word_rotl 17 index;
          (a, s1) = SplitMix64_next s0;
          (b, s2) = SplitMix64_next s1;
          (c, s3) = SplitMix64_next s2;
          (d, s4) = SplitMix64_next s3
      in if a = 0 \<and> b = 0 \<and> c = 0 \<and> d = 0
         then \<lparr>x0 = 1, x1 = 0, x2 = 0, x3 = 0\<rparr>
         else \<lparr>x0 = a, x1 = b, x2 = c, x3 = d\<rparr>)"

definition Xoshiro_u64 :: "xoshiro \<Rightarrow> u64w \<times> xoshiro" where
  "Xoshiro_u64 r =
     (let result = word_rotl 23 (x0 r + x3 r) + x0 r;
          t = push_bit 17 (x1 r);
          s2 = x2 r XOR x0 r;
          s3 = x3 r XOR x1 r;
          s1 = x1 r XOR s2;
          s0 = x0 r XOR s3;
          s2' = s2 XOR t;
          s3' = word_rotl 45 s3
      in (result, \<lparr>x0 = s0, x1 = s1, x2 = s2', x3 = s3'\<rparr>))"

text \<open>The source asserts \<open>low < high\<close>; the bounds below carry that as their hypothesis.\<close>

definition range_u64 :: "xoshiro \<Rightarrow> nat \<Rightarrow> nat \<Rightarrow> nat \<times> xoshiro" where
  "range_u64 r low high =
     (let span = high - low; (v, r') = Xoshiro_u64 r in (low + unat v mod span, r'))"

definition chance :: "xoshiro \<Rightarrow> nat \<Rightarrow> bool \<times> xoshiro" where
  "chance r probability =
     (let (v, r') = Xoshiro_u64 r in (unat (drop_bit 48 v) < probability, r'))"

text \<open>\<open>DelayDist\<close>; the bucket array of \<open>Empirical\<close> is a list (of length 16 in the source).\<close>

datatype delay_dist =
    Fixed nat
  | Uniform (dd_low: nat) (dd_high: nat)
  | TwoPoint (dd_short: nat) (dd_long: nat) (dd_long_chance: nat)
  | Empirical (dd_buckets: "nat list") (dd_count: nat)

fun sample_delay :: "xoshiro \<Rightarrow> delay_dist \<Rightarrow> nat \<times> xoshiro" where
  "sample_delay r (Fixed value) = (value, r)"
| "sample_delay r (Uniform low high) =
     (if high \<le> low then (low, r) else range_u64 r low (sat_add high 1))"
| "sample_delay r (TwoPoint short long long_chance) =
     (let (b, r') = chance r long_chance in (if b then long else short, r'))"
| "sample_delay r (Empirical buckets count) =
     (let count' = min (max count 1) 16;
          (i, r') = range_u64 r 0 count'
      in (buckets ! i, r'))"

section \<open>The state never becomes zero\<close>

definition xoshiro_live :: "xoshiro \<Rightarrow> bool" where
  "xoshiro_live r \<longleftrightarrow> \<not> (x0 r = 0 \<and> x1 r = 0 \<and> x2 r = 0 \<and> x3 r = 0)"

lemma stream_live: "xoshiro_live (Xoshiro_stream seed domain index)"
  by (auto simp: Xoshiro_stream_def xoshiro_live_def Let_def split: prod.splits)

lemma push_bit_fixpoint_zero:
  fixes w :: u64w
  assumes "w = push_bit 17 w"
  shows "w = 0"
proof (rule bit_word_eqI)
  fix n
  assume "n < LENGTH(64)"
  have "\<not> bit w n" for n
  proof (induction n rule: less_induct)
    case (less n)
    show ?case
    proof
      assume "bit w n"
      then have "bit (push_bit 17 w) n" using assms by simp
      then have "17 \<le> n" and "bit w (n - 17)" by (simp_all add: bit_push_bit_iff)
      with less[of "n - 17"] show False by simp
    qed
  qed
  then show "bit w n = bit 0 n" by simp
qed

lemma rotl_eq_zero: "word_rotl n (w :: u64w) = 0 \<longleftrightarrow> w = 0"
proof
  assume "word_rotl n w = 0"
  then have "word_rotr n (word_rotl n w) = word_rotr n 0" by simp
  then show "w = 0" by (simp add: word_rot_rl)
qed simp

lemma xor_eq_zero: "(a :: u64w) XOR b = 0 \<longleftrightarrow> a = b"
  by (metis xor_cancel_right xor_self_eq)

lemma u64_live:
  assumes "xoshiro_live r"
  shows "xoshiro_live (snd (Xoshiro_u64 r))"
proof (rule ccontr)
  assume "\<not> ?thesis"
  then have z: "x0 r XOR (x3 r XOR x1 r) = 0" "x1 r XOR (x2 r XOR x0 r) = 0"
      "(x2 r XOR x0 r) XOR push_bit 17 (x1 r) = 0" "x3 r XOR x1 r = 0"
    by (auto simp: xoshiro_live_def Xoshiro_u64_def Let_def rotl_eq_zero)
  then have a: "x0 r = 0" by (simp add: xor_eq_zero)
  have b: "x1 r = x2 r" using z(2) a by (simp add: xor_eq_zero)
  have "x1 r = push_bit 17 (x1 r)" using z(3) a b by (simp add: xor_eq_zero)
  then have c: "x1 r = 0" by (rule push_bit_fixpoint_zero)
  have "x3 r = 0" using z(4) c by (simp add: xor_eq_zero)
  with a b c assms show False by (simp add: xoshiro_live_def)
qed

section \<open>Samplers stay in range\<close>

lemma range_u64_bounds:
  "low < high \<Longrightarrow> low \<le> fst (range_u64 r low high) \<and> fst (range_u64 r low high) < high"
proof -
  assume "low < high"
  then have "unat (fst (Xoshiro_u64 r)) mod (high - low) < high - low" by simp
  then show ?thesis
    by (simp add: range_u64_def Let_def case_prod_unfold)
qed

lemma sample_uniform_bounds:
  assumes "low \<le> high" and "high < u64_max"
  shows "low \<le> fst (sample_delay r (Uniform low high)) \<and> fst (sample_delay r (Uniform low high)) \<le> high"
proof (cases "high \<le> low")
  case True
  with assms show ?thesis by simp
next
  case False
  have "sat_add high 1 = high + 1" using assms by simp
  with False range_u64_bounds[of low "high + 1" r] show ?thesis by simp
qed

lemma sample_empirical_member:
  assumes "length buckets = 16"
  shows "fst (sample_delay r (Empirical buckets count)) \<in> set (take (min (max count 1) 16) buckets)"
proof -
  let ?k = "min (max count 1) 16"
  let ?i = "fst (range_u64 r 0 ?k)"
  have "?i < ?k" using range_u64_bounds[of 0 ?k r] by simp
  then have "?i < length (take ?k buckets)" and "take ?k buckets ! ?i = buckets ! ?i"
    using assms by simp_all
  then have "buckets ! ?i \<in> set (take ?k buckets)" by (metis nth_mem)
  then show ?thesis by (simp add: Let_def case_prod_unfold)
qed

end
