(* ===== verification/RaftTypes.thy ===== *)
theory RaftTypes
  imports ConfigEntry Rng
begin

text \<open>
  The vocabulary of \<open>crates/cc-raft/src/lib.rs\<close>: entries, messages, effects, errors, the
  \<open>RaftNode\<close> record with its constructor, and the read-only queries of a node.  Node ids, terms,
  indices, times and counters are natural numbers.  The source is modelled as built without its
  \<open>kata01\<close> and \<open>kata02\<close> teaching defects.
\<close>

section \<open>Constants and configuration\<close>

definition PROTOCOL_VERSION :: nat where "PROTOCOL_VERSION = 2"
definition SEMANTIC_VERSION_V3 :: nat where "SEMANTIC_VERSION_V3 = 3"

definition supports_protocol_version :: "nat \<Rightarrow> bool" where
  "supports_protocol_version version \<longleftrightarrow> version = PROTOCOL_VERSION \<or> version = SEMANTIC_VERSION_V3"

definition DEFAULT_ELECTION_MIN :: nat where "DEFAULT_ELECTION_MIN = 150 * 1000000"
definition DEFAULT_ELECTION_MAX :: nat where "DEFAULT_ELECTION_MAX = 300 * 1000000"
definition DEFAULT_HEARTBEAT :: nat where "DEFAULT_HEARTBEAT = 50 * 1000000"
definition PIPELINE_WINDOW :: nat where "PIPELINE_WINDOW = 8"
definition MAX_ENTRIES_PER_APPEND :: nat where "MAX_ENTRIES_PER_APPEND = 64"
definition SNAPSHOT_TRIGGER_BYTES :: nat where "SNAPSHOT_TRIGGER_BYTES = 8 * 1024 * 1024"
definition SNAPSHOT_CHUNK_BYTES :: nat where "SNAPSHOT_CHUNK_BYTES = 256 * 1024"
definition DEFAULT_LEADER_TRANSFER_TIMEOUT :: nat where
  "DEFAULT_LEADER_TRANSFER_TIMEOUT = 15 * 1000000000"

record raft_config =
  election_min :: nat
  election_max :: nat
  heartbeat :: nat
  max_entries_per_append :: nat
  pipeline_window :: nat
  leader_transfer_timeout :: nat

definition RaftConfig_default :: raft_config where
  "RaftConfig_default =
     \<lparr>election_min = DEFAULT_ELECTION_MIN, election_max = DEFAULT_ELECTION_MAX,
      heartbeat = DEFAULT_HEARTBEAT, max_entries_per_append = MAX_ENTRIES_PER_APPEND,
      pipeline_window = PIPELINE_WINDOW,
      leader_transfer_timeout = DEFAULT_LEADER_TRANSFER_TIMEOUT\<rparr>"

section \<open>Entries, messages and effects\<close>

datatype role = Follower | Candidate | Leader | Learner

datatype entry_kind = App | Noop | Config | AppV3 | ConfigV3

definition is_app :: "entry_kind \<Rightarrow> bool" where
  "is_app k \<longleftrightarrow> k = App \<or> k = AppV3"

definition is_config :: "entry_kind \<Rightarrow> bool" where
  "is_config k \<longleftrightarrow> k = Config \<or> k = ConfigV3"

definition requires_semantic_v3 :: "entry_kind \<Rightarrow> bool" where
  "requires_semantic_v3 k \<longleftrightarrow> k = AppV3 \<or> k = ConfigV3"

record entry =
  e_term :: nat
  e_index :: nat
  e_kind :: entry_kind
  e_payload :: bytes

record hard_state =
  hs_term :: nat
  hs_voted_for :: "nat option"

record append_request =
  aq_prev_index :: nat
  aq_prev_term :: nat
  aq_entries :: "entry list"
  aq_leader_commit :: nat
  aq_read_round :: nat

record append_response =
  ap_success :: bool
  ap_match_index :: nat
  ap_conflict_term :: "nat option"
  ap_conflict_index :: nat
  ap_read_round :: nat

datatype snapshot_reject_reason = RestartFromZero | Gap | Conflict | TooLarge | StaleTerm | Corrupt

definition SnapshotRejectReason_decode :: "byte \<Rightarrow> snapshot_reject_reason option" where
  "SnapshotRejectReason_decode tag =
     (if tag = 1 then Some RestartFromZero else if tag = 2 then Some Gap
      else if tag = 3 then Some Conflict else if tag = 4 then Some TooLarge
      else if tag = 5 then Some StaleTerm else if tag = 6 then Some Corrupt else None)"

record snapshot_chunk =
  sc_transfer_id :: nat
  sc_last_included_index :: nat
  sc_last_included_term :: nat
  sc_total_len :: nat
  sc_snapshot_crc32c :: nat
  sc_offset :: nat
  sc_data :: bytes
  sc_done :: bool

text \<open>The inline struct fields of the larger \<open>MessageKind\<close> variants are kept in records
  (\<open>snapshot_chunk\<close>) or as constructor arguments in the order of the source.\<close>

datatype message_kind =
    PreVoteReq (pv_last_index: nat) (pv_last_term: nat)
  | PreVoteResp bool
  | VoteReq (vq_last_index: nat) (vq_last_term: nat)
  | VoteResp bool
  | AppendReq append_request
  | AppendResp append_response
  | SnapshotChunk snapshot_chunk
  | SnapshotAck (sa_transfer_id: nat) (sa_next_offset: nat) (sa_accepted: bool)
      (sa_reason: "snapshot_reject_reason option")
  | TimeoutNow nat
  | FollowerReadRequest (fr_request_id: nat) (fr_command_hash: nat)
  | FollowerReadGrant (fg_request_id: nat) (fg_command_hash: nat) (fg_read_index: nat)
      (fg_read_time: nat)

record message =
  m_proto_version :: nat
  m_from :: nat
  m_to :: nat
  m_term :: nat
  m_kind :: message_kind

datatype timer_kind = Election | Heartbeat

datatype raft_effect =
    Send message
  | ReceiveSnapshotChunk message
  | ReceiveSnapshotAck message
  | PersistHard hard_state
  | PersistEntries "entry list"
  | TruncateSuffix nat
  | Apply "entry list"
  | ArmTimer nat nat timer_kind
  | ReadBarrier nat
  | ReadBarrierReady nat
  | EffFollowerReadRequest (er_from: nat) (er_request_id: nat) (er_command_hash: nat) (er_at: nat)
  | EffFollowerReadGrant (eg_from: nat) (eg_term: nat) (eg_request_id: nat) (eg_command_hash: nat)
      (eg_read_index: nat) (eg_read_time: nat)
  | Trace string nat

datatype raft_error =
  NotLeader | ReadBarrierNotReady | Busy | InvalidMessage | CommittedConflict | TransferInProgress

section \<open>The node\<close>

record retiring_peer =
  rp_terminal :: nat
  rp_farewell_sent :: bool

record leadership_transfer =
  lt_intent_index :: nat
  lt_target :: nat
  lt_deadline :: nat
  lt_finishing :: bool
  lt_admin_session :: "(session_key \<times> nat) option"

type_synonym joint_voters = "(nat bset \<times> nat bset) option"

record node =
  nid :: nat
  role :: role
  hard_state :: hard_state
  voters :: "nat bset"
  learners :: "nat bset"
  joint :: joint_voters
  joint_enter_index :: "nat option"
  base_voters :: "nat bset"
  base_learners :: "nat bset"
  base_joint :: joint_voters
  base_joint_enter_index :: "nat option"
  base_addresses :: "(nat, peer_address) bmap"
  addresses :: "(nat, peer_address) bmap"
  active_features :: u64w
  base_active_features :: u64w
  log :: "entry list"
  commit_index :: nat
  applied_index :: nat
  leader_id :: "nat option"
  next_index :: "(nat, nat) bmap"
  match_index :: "(nat, nat) bmap"
  last_contact :: "(nat, nat) bmap"
  retiring_peers :: "(nat, retiring_peer) bmap"
  election_deadline :: nat
  heartbeat_deadline :: nat
  config :: raft_config
  rng :: xoshiro
  votes :: "nat bset"
  pre_votes :: "nat bset"
  heard_quorum :: "nat bset"
  quorum_deadline :: nat
  read_acks :: "nat bset"
  read_round :: nat
  read_index :: "nat option"
  snapshot_index :: nat
  snapshot_term :: nat
  next_snapshot_transfer_id :: nat
  transfer :: "leadership_transfer option"

abbreviation cur_term :: "node \<Rightarrow> nat" where "cur_term n \<equiv> hs_term (hard_state n)"
abbreviation voted_for :: "node \<Rightarrow> nat option" where "voted_for n \<equiv> hs_voted_for (hard_state n)"

definition reset_election :: "nat \<Rightarrow> node \<Rightarrow> node" where
  "reset_election now n =
     (let low = election_min (config n);
          high = max (election_max (config n)) (low + 1);
          (timeout, rng') = range_u64 (rng n) low (high + 1)
      in n\<lparr>rng := rng', election_deadline := now + timeout\<rparr>)"

definition raft_domain :: bytes where "raft_domain = [0x72, 0x61, 0x66, 0x74]"

definition RaftNode_new :: "nat \<Rightarrow> nat bset \<Rightarrow> u64w \<Rightarrow> raft_config \<Rightarrow> node" where
  "RaftNode_new node_id voters0 seed config0 =
     reset_election 0
       \<lparr>nid = node_id,
        role = (if node_id \<in> set voters0 then Follower else Learner),
        hard_state = \<lparr>hs_term = 0, hs_voted_for = None\<rparr>,
        voters = voters0, learners = [], joint = None, joint_enter_index = None,
        base_voters = voters0, base_learners = [], base_joint = None,
        base_joint_enter_index = None, base_addresses = [], addresses = [],
        active_features = 0, base_active_features = 0,
        log = [], commit_index = 0, applied_index = 0, leader_id = None,
        next_index = [], match_index = [], last_contact = [], retiring_peers = [],
        election_deadline = 0, heartbeat_deadline = 0, config = config0,
        rng = Xoshiro_stream seed raft_domain (word_of_nat node_id),
        votes = [], pre_votes = [], heard_quorum = [], quorum_deadline = 0,
        read_acks = [], read_round = 0, read_index = None,
        snapshot_index = 0, snapshot_term = 0, next_snapshot_transfer_id = 1,
        transfer = None\<rparr>"

section \<open>Queries\<close>

definition last_index :: "node \<Rightarrow> nat" where
  "last_index n = (if log n = [] then snapshot_index n else e_index (last (log n)))"

definition last_term :: "node \<Rightarrow> nat" where
  "last_term n = (if log n = [] then snapshot_term n else e_term (last (log n)))"

definition find_index :: "nat \<Rightarrow> entry list \<Rightarrow> entry option" where
  "find_index i l = find (\<lambda>e. e_index e = i) l"

definition term_at :: "node \<Rightarrow> nat \<Rightarrow> nat option" where
  "term_at n i =
     (if i = 0 then Some 0
      else if i = snapshot_index n then Some (snapshot_term n)
      else if i < snapshot_index n then None
      else map_option e_term (find_index i (log n)))"

definition log_is_up_to_date :: "node \<Rightarrow> nat \<Rightarrow> nat \<Rightarrow> bool" where
  "log_is_up_to_date n i t \<longleftrightarrow> last_term n < t \<or> (t = last_term n \<and> last_index n \<le> i)"

definition majority :: "node \<Rightarrow> nat" where
  "majority n = length (voters n) div 2 + 1"

definition acked :: "node \<Rightarrow> nat \<Rightarrow> nat \<Rightarrow> bool" where
  "acked n candidate member \<longleftrightarrow>
     member = nid n \<or> (case bmap_get (match_index n) member of None \<Rightarrow> False | Some i \<Rightarrow> candidate \<le> i)"

definition commit_quorum :: "node \<Rightarrow> nat \<Rightarrow> bool" where
  "commit_quorum n candidate =
     (case joint n of
        None \<Rightarrow> majority n \<le> length (filter (acked n candidate) (voters n))
      | Some (old, new) \<Rightarrow>
          length old div 2 < length (filter (acked n candidate) old) \<and>
          length new div 2 < length (filter (acked n candidate) new))"

definition count_in :: "nat bset \<Rightarrow> nat bset \<Rightarrow> nat" where
  "count_in vs members = length (filter (\<lambda>v. v \<in> set members) vs)"

definition has_majority :: "node \<Rightarrow> nat bset \<Rightarrow> bool" where
  "has_majority n vs =
     (case joint n of
        Some (old, new) \<Rightarrow> length old div 2 < count_in vs old \<and> length new div 2 < count_in vs new
      | None \<Rightarrow> majority n \<le> count_in vs (voters n))"

definition decoded_op :: "entry \<Rightarrow> config_operation option" where
  "decoded_op e = (case ConfigEnvelope_decode (e_payload e) of Inl _ \<Rightarrow> None | Inr v \<Rightarrow> Some (ce_operation v))"

fun is_membership_change :: "config_operation \<Rightarrow> bool" where
  "is_membership_change (AddLearner _ _) = True"
| "is_membership_change (RemoveLearner _) = True"
| "is_membership_change (UpdateAddress _ _) = True"
| "is_membership_change (EnterJoint _) = True"
| "is_membership_change _ = False"

definition uncommitted_membership_change :: "node \<Rightarrow> bool" where
  "uncommitted_membership_change n \<longleftrightarrow>
     (\<exists>e \<in> set (filter (\<lambda>e. is_config (e_kind e)) (takeWhile (\<lambda>e. commit_index n < e_index e) (rev (log n)))).
        case decoded_op e of Some op \<Rightarrow> is_membership_change op | None \<Rightarrow> False)"

text \<open>\<open>transition_scan\<close> is the loop of \<open>config_transition_in_flight_before\<close>; the accumulator is
  the open transfer.\<close>

fun transition_scan :: "nat option \<Rightarrow> entry list \<Rightarrow> bool" where
  "transition_scan open_transfer [] \<longleftrightarrow> open_transfer \<noteq> None"
| "transition_scan open_transfer (e # es) =
     (case decoded_op e of
        None \<Rightarrow> True
      | Some (BeginLeaderTransfer _) \<Rightarrow>
          (if open_transfer \<noteq> None then True else transition_scan (Some (e_index e)) es)
      | Some (FinishLeaderTransfer intent_index _) \<Rightarrow>
          (if open_transfer = Some intent_index then transition_scan None es else True)
      | Some _ \<Rightarrow> transition_scan open_transfer es)"

definition config_transition_in_flight_before :: "node \<Rightarrow> nat \<Rightarrow> bool" where
  "config_transition_in_flight_before n i =
     transition_scan None (filter (\<lambda>e. is_config (e_kind e) \<and> e_index e < i) (log n))"

section \<open>The node's own invariant report\<close>

definition log_windows :: "entry list \<Rightarrow> (entry \<times> entry) list" where
  "log_windows l = zip l (tl l)"

definition node_invariants :: "node \<Rightarrow> string list" where
  "node_invariants n =
     (if commit_index n < applied_index n then [''applied_le_commit''] else []) @
     (if last_index n < commit_index n then [''commit_le_last''] else []) @
     map (\<lambda>_. ''log_contiguous'')
       (filter (\<lambda>(a, b). e_index b \<noteq> e_index a + 1) (log_windows (log n)))"

end
