(* ===== verification/RaftNode.thy ===== *)
theory RaftNode
  imports RaftTypes
begin

text \<open>
  The operations of \<open>RaftNode\<close> (\<open>crates/cc-raft/src/lib.rs\<close>), in state-passing style: a method
  on \<open>&mut self\<close> that returns effects is a function \<open>node \<Rightarrow> node \<times> raft_effect list\<close>, one that
  returns a \<open>Result\<close> gives \<open>node \<times> (raft_error + raft_effect list)\<close>, so that the state an error
  leaves behind is explicit.
\<close>

type_synonym step = "node \<Rightarrow> node \<times> raft_effect list"
type_synonym 'a attempt = "node \<times> (raft_error + 'a)"

text \<open>\<open>effects.extend(self.g())\<close> after \<open>f\<close>.\<close>

definition extend_with :: "step \<Rightarrow> step \<Rightarrow> step" where
  "extend_with f g n = (let (n1, e1) = f n; (n2, e2) = g n1 in (n2, e1 @ e2))"

definition after_effects :: "raft_effect list \<Rightarrow> node \<times> raft_effect list \<Rightarrow> node \<times> raft_effect list" where
  "after_effects es r = (fst r, es @ snd r)"

section \<open>Replication messages\<close>

definition append_semantic_version :: "entry list \<Rightarrow> nat" where
  "append_semantic_version entries =
     (if \<exists>e \<in> set entries. requires_semantic_v3 (e_kind e) then SEMANTIC_VERSION_V3 else PROTOCOL_VERSION)"

definition send_append :: "node \<Rightarrow> nat \<Rightarrow> raft_effect list" where
  "send_append n peer =
     (let next = (case bmap_get (next_index n) peer of Some i \<Rightarrow> i | None \<Rightarrow> last_index n + 1);
          prev_index = next - 1;
          prev_term = (case term_at n prev_index of Some t \<Rightarrow> t | None \<Rightarrow> 0);
          entries = take (max_entries_per_append (config n)) (filter (\<lambda>e. next \<le> e_index e) (log n))
      in [Send \<lparr>m_proto_version = append_semantic_version entries, m_from = nid n, m_to = peer,
                m_term = cur_term n,
                m_kind = AppendReq \<lparr>aq_prev_index = prev_index, aq_prev_term = prev_term,
                                    aq_entries = entries, aq_leader_commit = commit_index n,
                                    aq_read_round = read_round n\<rparr>\<rparr>])"

definition broadcast_append :: "node \<Rightarrow> raft_effect list" where
  "broadcast_append n =
     concat (map (send_append n)
       (filter (\<lambda>peer. peer \<noteq> nid n) (voters n @ learners n @ bmap_keys (retiring_peers n))))"

definition replicate_peer :: "node \<Rightarrow> nat \<Rightarrow> raft_error + raft_effect list" where
  "replicate_peer n peer =
     (if role n \<noteq> Leader \<or> peer = nid n \<or> (peer \<notin> set (voters n) \<and> peer \<notin> set (learners n))
      then Inl InvalidMessage else Inr (send_append n peer))"

definition timeout_now :: "node \<Rightarrow> nat \<Rightarrow> nat \<Rightarrow> raft_effect" where
  "timeout_now n target intent_index =
     Send \<lparr>m_proto_version = PROTOCOL_VERSION, m_from = nid n, m_to = target, m_term = cur_term n,
           m_kind = TimeoutNow intent_index\<rparr>"

definition transfer_nudge :: "node \<Rightarrow> raft_effect option" where
  "transfer_nudge n =
     (case transfer n of
        None \<Rightarrow> None
      | Some t \<Rightarrow>
          if role n = Leader \<and> \<not> lt_finishing t \<and> lt_target t \<noteq> nid n \<and>
             lt_intent_index t \<le> commit_index n \<and>
             (case bmap_get (match_index n) (lt_target t) of
                Some i \<Rightarrow> lt_intent_index t \<le> i | None \<Rightarrow> False)
          then Some (timeout_now n (lt_target t) (lt_intent_index t)) else None)"

definition nudge_effects :: "node \<Rightarrow> raft_effect list" where
  "nudge_effects n = (case transfer_nudge n of Some e \<Rightarrow> [e] | None \<Rightarrow> [])"

section \<open>Commit and apply\<close>

function apply_scan :: "entry list \<Rightarrow> nat \<Rightarrow> nat \<Rightarrow> entry list \<times> nat" where
  "apply_scan l commit applied =
     (if applied < commit then
        case find_index (applied + 1) l of
          Some e \<Rightarrow> (let (es, applied') = apply_scan l commit (applied + 1) in (e # es, applied'))
        | None \<Rightarrow> ([], applied)
      else ([], applied))"
  by pat_completeness auto
termination by (relation "measure (\<lambda>(l, commit, applied). commit - applied)") auto

declare apply_scan.simps [simp del]

definition apply_committed :: step where
  "apply_committed n =
     (let (applied, applied_index') = apply_scan (log n) (commit_index n) (applied_index n)
      in (n\<lparr>applied_index := applied_index'\<rparr>, if applied = [] then [] else [Apply applied]))"

definition commit_scan :: "node \<Rightarrow> nat" where
  "commit_scan n =
     foldl (\<lambda>new_commit candidate.
              if commit_quorum n candidate \<and> term_at n candidate = Some (cur_term n)
              then candidate else new_commit)
       (commit_index n) [commit_index n + 1 ..< last_index n + 1]"

definition advance_commit :: step where
  "advance_commit n =
     (let new_commit = commit_scan n
      in if commit_index n < new_commit then apply_committed (n\<lparr>commit_index := new_commit\<rparr>)
         else (n, []))"

section \<open>Membership projection\<close>

definition resync_transfer_finishing :: "node \<Rightarrow> node" where
  "resync_transfer_finishing n =
     (case transfer n of
        None \<Rightarrow> n
      | Some t \<Rightarrow>
          let terminal_entry_present =
                (\<exists>e \<in> set (takeWhile (\<lambda>e. lt_intent_index t < e_index e) (rev (log n))).
                   is_config (e_kind e) \<and>
                   (case decoded_op e of
                      Some (FinishLeaderTransfer intent_index _) \<Rightarrow> intent_index = lt_intent_index t
                    | _ \<Rightarrow> False))
          in if lt_finishing t \<noteq> terminal_entry_present
             then n\<lparr>transfer := Some (t\<lparr>lt_finishing := terminal_entry_present\<rparr>)\<rparr> else n)"

fun apply_operation_on_append :: "entry \<Rightarrow> config_operation \<Rightarrow> node \<Rightarrow> raft_error + node" where
  "apply_operation_on_append e (AddLearner peer address) n =
     (if peer \<in> set (voters n) \<or> peer \<in> set (learners n) then Inl InvalidMessage
      else
        let n1 = n\<lparr>learners := bset_insert peer (learners n)\<rparr>
        in Inr (case address of
                  Some a \<Rightarrow> n1\<lparr>addresses := bmap_insert peer a (addresses n)\<rparr> | None \<Rightarrow> n1))"
| "apply_operation_on_append e (RemoveLearner peer) n =
     (if peer \<notin> set (learners n) then Inl InvalidMessage
      else Inr (n\<lparr>learners := bset_remove peer (learners n),
                  addresses := bmap_remove peer (addresses n),
                  last_contact := bmap_remove peer (last_contact n)\<rparr>))"
| "apply_operation_on_append e (UpdateAddress peer a) n =
     (if peer \<notin> set (voters n) \<and> peer \<notin> set (learners n) then Inl InvalidMessage
      else Inr (n\<lparr>addresses := bmap_insert peer a (addresses n)\<rparr>))"
| "apply_operation_on_append e (EnterJoint new_voters) n =
     (if joint n \<noteq> None \<or> config_transition_in_flight_before n (e_index e) \<or> new_voters = []
      then Inl Busy
      else Inr (n\<lparr>learners := filter (\<lambda>l. l \<notin> set new_voters) (learners n),
                  joint := Some (voters n, new_voters),
                  joint_enter_index := Some (e_index e),
                  voters := bset_extend (voters n) new_voters\<rparr>))"
| "apply_operation_on_append e (LeaveJoint enter_index) n =
     (case joint n of
        None \<Rightarrow> Inl InvalidMessage
      | Some (_, new) \<Rightarrow>
          if joint_enter_index n \<noteq> Some enter_index then Inl InvalidMessage
          else
            let n1 = n\<lparr>voters := new,
                        last_contact := bmap_retain (\<lambda>x. x \<in> set new \<or> x \<in> set (learners n)) (last_contact n),
                        joint := None, joint_enter_index := None\<rparr>
            in Inr (if nid n \<notin> set new then n1\<lparr>role := Follower\<rparr> else n1))"
| "apply_operation_on_append e (BeginLeaderTransfer target) n =
     (if target \<notin> set (voters n) \<or> joint n \<noteq> None \<or> config_transition_in_flight_before n (e_index e)
      then Inl InvalidMessage else Inr n)"
| "apply_operation_on_append e (FinishLeaderTransfer intent_index _) n =
     (let committed_intent =
            (case transfer n of Some t \<Rightarrow> lt_intent_index t = intent_index | None \<Rightarrow> False);
          retained_intent =
            (\<exists>c \<in> set (log n). e_index c = intent_index \<and> is_config (e_kind c) \<and>
               (case decoded_op c of Some (BeginLeaderTransfer _) \<Rightarrow> True | _ \<Rightarrow> False))
      in if committed_intent \<or> (intent_index < e_index e \<and> retained_intent) then Inr n
         else Inl InvalidMessage)"
| "apply_operation_on_append e (ActivateFeature feature) n =
     (if feature \<noteq> ATOMIC_BATCH_FEATURE \<or> and (active_features n) feature \<noteq> 0 \<or>
         (\<exists>prior \<in> set (log n). is_config (e_kind prior) \<and>
            (case decoded_op prior of Some (ActivateFeature f) \<Rightarrow> f = feature | _ \<Rightarrow> False))
      then Inl Busy else Inr n)"

definition apply_config_on_append :: "entry \<Rightarrow> node \<Rightarrow> raft_error + node" where
  "apply_config_on_append e n =
     (case ConfigEnvelope_decode (e_payload e) of
        Inl _ \<Rightarrow> Inl InvalidMessage
      | Inr envelope \<Rightarrow> apply_operation_on_append e (ce_operation envelope) n)"

fun rebuild_operation :: "entry \<Rightarrow> config_operation \<Rightarrow> node \<Rightarrow> node" where
  "rebuild_operation e (AddLearner peer address) n =
     (let n1 = n\<lparr>learners := bset_insert peer (learners n)\<rparr>
      in case address of Some a \<Rightarrow> n1\<lparr>addresses := bmap_insert peer a (addresses n)\<rparr> | None \<Rightarrow> n1)"
| "rebuild_operation e (RemoveLearner peer) n =
     n\<lparr>learners := bset_remove peer (learners n),
       addresses := bmap_remove peer (addresses n),
       last_contact := bmap_remove peer (last_contact n)\<rparr>"
| "rebuild_operation e (UpdateAddress peer a) n = n\<lparr>addresses := bmap_insert peer a (addresses n)\<rparr>"
| "rebuild_operation e (EnterJoint new_voters) n =
     n\<lparr>learners := filter (\<lambda>l. l \<notin> set new_voters) (learners n),
       joint := Some (voters n, new_voters),
       joint_enter_index := Some (e_index e),
       voters := bset_extend (voters n) new_voters\<rparr>"
| "rebuild_operation e (LeaveJoint enter_index) n =
     (if joint_enter_index n = Some enter_index then
        let n1 = (case joint n of
                    Some (old, new) \<Rightarrow>
                      n\<lparr>joint := None,
                        retiring_peers :=
                          fold (\<lambda>peer m. bmap_insert peer \<lparr>rp_terminal = e_index e, rp_farewell_sent = False\<rparr> m)
                            (filter (\<lambda>peer. peer \<noteq> nid n) (bset_diff old new)) (retiring_peers n),
                        voters := new\<rparr>
                  | None \<Rightarrow> n)
        in n1\<lparr>joint_enter_index := None,
              addresses := bmap_retain
                (\<lambda>x. x \<in> set (voters n1) \<or> x \<in> set (learners n1) \<or> x \<in> set (bmap_keys (retiring_peers n1)))
                (addresses n1)\<rparr>
      else n)"
| "rebuild_operation e (BeginLeaderTransfer _) n = n"
| "rebuild_operation e (FinishLeaderTransfer _ _) n = n"
| "rebuild_operation e (ActivateFeature _) n = n"

primrec rebuild_loop :: "entry list \<Rightarrow> node \<Rightarrow> node" where
  "rebuild_loop [] n = n"
| "rebuild_loop (e # es) n =
     (case decoded_op e of None \<Rightarrow> n | Some op \<Rightarrow> rebuild_loop es (rebuild_operation e op n))"

definition reset_membership :: "node \<Rightarrow> node" where
  "reset_membership n =
     n\<lparr>voters := base_voters n, learners := base_learners n, joint := base_joint n,
       joint_enter_index := base_joint_enter_index n, addresses := base_addresses n,
       active_features := base_active_features n, retiring_peers := []\<rparr>"

definition rebuild_membership_from_log :: "node \<Rightarrow> node" where
  "rebuild_membership_from_log n =
     (let n1 = reset_membership (resync_transfer_finishing n);
          n2 = rebuild_loop (filter (\<lambda>e. is_config (e_kind e)) (log n1)) n1;
          n3 = n2\<lparr>last_contact :=
                    bmap_retain (\<lambda>x. x \<in> set (voters n2) \<or> x \<in> set (learners n2)) (last_contact n2)\<rparr>
      in if nid n3 \<notin> set (voters n3) \<and> nid n3 \<notin> set (learners n3) then n3\<lparr>role := Follower\<rparr> else n3)"

section \<open>Proposals\<close>

definition next_entry :: "node \<Rightarrow> entry_kind \<Rightarrow> bytes \<Rightarrow> entry" where
  "next_entry n kind payload =
     \<lparr>e_term = cur_term n, e_index = last_index n + 1, e_kind = kind, e_payload = payload\<rparr>"

definition push_entry :: "entry \<Rightarrow> node \<Rightarrow> node" where
  "push_entry e n = n\<lparr>log := log n @ [e]\<rparr>"

definition outstanding :: "node \<Rightarrow> nat" where
  "outstanding n = length (filter (\<lambda>i. i \<le> last_index n) (map snd (next_index n)))"

definition publish_entry :: "entry \<Rightarrow> step" where
  "publish_entry e n =
     (let (n1, e1) = advance_commit (push_entry e n)
      in (n1, PersistEntries [e] # e1 @ broadcast_append n1))"

definition propose_with_kind :: "bytes \<Rightarrow> entry_kind \<Rightarrow> node \<Rightarrow> raft_effect list attempt" where
  "propose_with_kind payload kind n =
     (if role n \<noteq> Leader then (n, Inl NotLeader)
      else if transfer n \<noteq> None then (n, Inl TransferInProgress)
      else if pipeline_window (config n) * max (length (voters n)) 1 \<le> outstanding n then (n, Inl Busy)
      else let (n1, es) = publish_entry (next_entry n kind payload) n in (n1, Inr es))"

definition propose :: "bytes \<Rightarrow> node \<Rightarrow> raft_effect list attempt" where
  "propose payload = propose_with_kind payload App"

definition propose_v3_batch :: "bytes \<Rightarrow> node \<Rightarrow> raft_effect list attempt" where
  "propose_v3_batch payload n =
     (if and (active_features n) ATOMIC_BATCH_FEATURE = 0 then (n, Inl Busy)
      else propose_with_kind payload AppV3 n)"

definition current_term_is_committed :: "node \<Rightarrow> bool" where
  "current_term_is_committed n \<longleftrightarrow>
     (snapshot_index n \<le> commit_index n \<and> snapshot_term n = cur_term n) \<or>
     (\<exists>e \<in> set (log n). e_term e = cur_term n \<and> e_index e \<le> commit_index n)"

definition request_read :: "node \<Rightarrow> raft_effect list attempt" where
  "request_read n =
     (if role n \<noteq> Leader then (n, Inl NotLeader)
      else if transfer n \<noteq> None then (n, Inl TransferInProgress)
      else if \<not> current_term_is_committed n then (n, Inl ReadBarrierNotReady)
      else
        let n1 = n\<lparr>read_round := sat_add (read_round n) 1, read_acks := [nid n],
                    read_index := Some (commit_index n)\<rparr>;
            effects = ReadBarrier (commit_index n1) # broadcast_append n1
        in if has_majority n1 (read_acks n1)
           then (n1\<lparr>read_index := None\<rparr>, Inr (effects @ [ReadBarrierReady (commit_index n1)]))
           else (n1, Inr effects))"

definition retire_peers :: "nat list \<Rightarrow> nat \<Rightarrow> (nat, retiring_peer) bmap \<Rightarrow> (nat, retiring_peer) bmap" where
  "retire_peers peers terminal m =
     fold (\<lambda>peer. bmap_insert peer \<lparr>rp_terminal = terminal, rp_farewell_sent = False\<rparr>) peers m"

definition config_entry :: "config_envelope \<Rightarrow> node \<Rightarrow> entry" where
  "config_entry envelope n =
     \<lparr>e_term = cur_term n, e_index = sat_add (last_index n) 1,
      e_kind = (case ce_operation envelope of ActivateFeature _ \<Rightarrow> ConfigV3 | _ \<Rightarrow> Config),
      e_payload = ConfigEnvelope_encode envelope\<rparr>"

definition append_config :: "config_envelope \<Rightarrow> node \<Rightarrow> raft_effect list attempt" where
  "append_config envelope n =
     (let removed_voters =
            (case ce_operation envelope of
               LeaveJoint _ \<Rightarrow> (case joint n of Some (old, new) \<Rightarrow> bset_diff old new | None \<Rightarrow> [])
             | _ \<Rightarrow> []);
          e = config_entry envelope n
      in case apply_config_on_append e n of
           Inl err \<Rightarrow> (n, Inl err)
         | Inr n1 \<Rightarrow>
             let n2 = push_entry e n1;
                 removed = filter (\<lambda>peer. peer \<noteq> nid n2) removed_voters;
                 n3 = n2\<lparr>retiring_peers := retire_peers removed (e_index e) (retiring_peers n2)\<rparr>
             in (n3, Inr (PersistEntries [e] # broadcast_append n3 @
                          concat (map (send_append n3) removed))))"

definition plain_envelope :: "nat \<Rightarrow> config_operation \<Rightarrow> config_envelope" where
  "plain_envelope leader_time op =
     \<lparr>ce_admin_session = None, ce_leader_time = leader_time, ce_operation = op\<rparr>"

definition add_learner :: "nat \<Rightarrow> node \<Rightarrow> raft_effect list attempt" where
  "add_learner peer n =
     (if role n \<noteq> Leader then (n, Inl NotLeader)
      else if peer = 0 \<or> joint n \<noteq> None \<or> peer \<in> set (voters n) \<or> peer \<in> set (learners n) \<or>
              uncommitted_membership_change n \<or>
              config_transition_in_flight_before n (sat_add (last_index n) 1)
      then (n, Inl InvalidMessage)
      else append_config (plain_envelope 0 (AddLearner peer None)) n)"

definition enter_joint :: "nat bset \<Rightarrow> node \<Rightarrow> raft_effect list attempt" where
  "enter_joint new_voters n =
     (if role n \<noteq> Leader then (n, Inl NotLeader)
      else if joint n \<noteq> None \<or> new_voters = [] \<or> 0 \<in> set new_voters \<or> uncommitted_membership_change n
      then (n, Inl Busy)
      else
        let e = next_entry n Config (ConfigEnvelope_encode (plain_envelope 0 (EnterJoint new_voters)))
        in case apply_config_on_append e n of
             Inl err \<Rightarrow> (n, Inl err)
           | Inr n1 \<Rightarrow> (let (n2, es) = publish_entry e n1 in (n2, Inr es)))"

definition promote_learner :: "nat \<Rightarrow> node \<Rightarrow> raft_effect list attempt" where
  "promote_learner peer n =
     (if role n \<noteq> Leader then (n, Inl NotLeader)
      else if peer \<notin> set (learners n) then (n, Inl InvalidMessage)
      else if (case bmap_get (match_index n) peer of None \<Rightarrow> True | Some i \<Rightarrow> i < last_index n)
      then (n, Inl Busy)
      else enter_joint (bset_insert peer (voters n)) n)"

definition leave_joint :: "node \<Rightarrow> raft_effect list attempt" where
  "leave_joint n =
     (if role n \<noteq> Leader then (n, Inl NotLeader)
      else case joint n of
        None \<Rightarrow> (n, Inl InvalidMessage)
      | Some _ \<Rightarrow>
          (case joint_enter_index n of
             None \<Rightarrow> (n, Inl InvalidMessage)
           | Some enter_index \<Rightarrow>
               if commit_index n < enter_index then (n, Inl Busy)
               else append_config (plain_envelope 0 (LeaveJoint enter_index)) n))"

definition begin_leadership_transfer :: "nat \<Rightarrow> nat \<Rightarrow> node \<Rightarrow> raft_effect list attempt" where
  "begin_leadership_transfer target leader_time n =
     (if role n \<noteq> Leader then (n, Inl NotLeader)
      else if joint n \<noteq> None \<or> transfer n \<noteq> None then (n, Inl TransferInProgress)
      else if target \<notin> set (voters n) \<or>
              (target \<noteq> nid n \<and>
               (case bmap_get (match_index n) target of None \<Rightarrow> True | Some i \<Rightarrow> i < last_index n))
      then (n, Inl Busy)
      else append_config (plain_envelope leader_time (BeginLeaderTransfer target)) n)"

definition activate_feature :: "u64w \<Rightarrow> nat \<Rightarrow> node \<Rightarrow> raft_effect list attempt" where
  "activate_feature feature leader_time n =
     (if role n \<noteq> Leader then (n, Inl NotLeader)
      else if feature \<noteq> ATOMIC_BATCH_FEATURE \<or> and (active_features n) feature \<noteq> 0 \<or> joint n \<noteq> None
      then (n, Inl Busy)
      else append_config (plain_envelope leader_time (ActivateFeature feature)) n)"

definition finish_leadership_transfer ::
  "transfer_result \<Rightarrow> nat \<Rightarrow> node \<Rightarrow> raft_effect list attempt" where
  "finish_leadership_transfer result leader_time n =
     (case transfer n of
        None \<Rightarrow> (n, Inl InvalidMessage)
      | Some t \<Rightarrow>
          if lt_finishing t then (n, Inl TransferInProgress)
          else
            case append_config
                   \<lparr>ce_admin_session = lt_admin_session t, ce_leader_time = leader_time,
                    ce_operation = FinishLeaderTransfer (lt_intent_index t) result\<rparr>
                   (n\<lparr>transfer := Some (t\<lparr>lt_finishing := True\<rparr>)\<rparr>) of
              (n1, Inr es) \<Rightarrow> (n1, Inr es)
            | (n1, Inl err) \<Rightarrow> (n1\<lparr>transfer := Some (t\<lparr>lt_finishing := False\<rparr>)\<rparr>, Inl err))"

definition contact_is_recent :: "node \<Rightarrow> nat \<Rightarrow> nat \<Rightarrow> bool" where
  "contact_is_recent n leader_time peer \<longleftrightarrow>
     peer = nid n \<or>
     (case bmap_get (last_contact n) peer of
        Some contact \<Rightarrow> leader_time - contact \<le> leader_transfer_timeout (config n)
      | None \<Rightarrow> False)"

text \<open>\<open>admin_guard\<close> is the match over the operation in \<open>propose_admin_config\<close>: \<open>Some e\<close> where the
  source returns the error \<open>e\<close>.\<close>

fun admin_guard :: "node \<Rightarrow> nat \<Rightarrow> nat \<Rightarrow> config_operation \<Rightarrow> raft_error option" where
  "admin_guard n leader_time next (AddLearner peer address) =
     (case address of
        None \<Rightarrow> Some InvalidMessage
      | Some a \<Rightarrow>
          if peer = 0 \<or> joint n \<noteq> None \<or> peer \<in> set (voters n) \<or> peer \<in> set (learners n) \<or>
             a \<in> set (map snd (addresses n)) \<or> uncommitted_membership_change n \<or>
             config_transition_in_flight_before n next
          then Some InvalidMessage else None)"
| "admin_guard n leader_time next (RemoveLearner peer) =
     (if joint n \<noteq> None \<or> peer \<notin> set (learners n) \<or> uncommitted_membership_change n \<or>
         config_transition_in_flight_before n next
      then Some InvalidMessage else None)"
| "admin_guard n leader_time next (UpdateAddress peer a) =
     (if joint n \<noteq> None \<or> (peer \<notin> set (voters n) \<and> peer \<notin> set (learners n)) \<or>
         (\<exists>(node, existing) \<in> set (addresses n). node \<noteq> peer \<and> existing = a) \<or>
         uncommitted_membership_change n \<or> config_transition_in_flight_before n next
      then Some InvalidMessage else None)"
| "admin_guard n leader_time next (EnterJoint new_voters) =
     (if joint n \<noteq> None \<or> new_voters = [] \<or> new_voters = voters n \<or> 0 \<in> set new_voters \<or>
         uncommitted_membership_change n \<or> config_transition_in_flight_before n next
      then Some Busy
      else if \<exists>added \<in> set (bset_diff new_voters (voters n)).
                added \<notin> set (learners n) \<or>
                (case bmap_get (match_index n) added of None \<Rightarrow> True | Some i \<Rightarrow> i < commit_index n) \<or>
                \<not> contact_is_recent n leader_time added
      then Some Busy
      else if length (filter (contact_is_recent n leader_time) (voters n)) \<le> length (voters n) div 2 \<or>
              length (filter (contact_is_recent n leader_time) new_voters) \<le> length new_voters div 2
      then Some Busy else None)"
| "admin_guard n leader_time next (LeaveJoint enter_index) =
     (if joint n = None \<or> joint_enter_index n \<noteq> Some enter_index \<or> commit_index n < enter_index
      then Some Busy else None)"
| "admin_guard n leader_time next (BeginLeaderTransfer target) =
     (if joint n \<noteq> None \<or> transfer n \<noteq> None then Some TransferInProgress
      else if target \<notin> set (voters n) \<or>
              (target \<noteq> nid n \<and>
               ((case bmap_get (match_index n) target of None \<Rightarrow> True | Some i \<Rightarrow> i < commit_index n) \<or>
                \<not> contact_is_recent n leader_time target))
      then Some Busy else None)"
| "admin_guard n leader_time next (ActivateFeature feature) =
     (if feature \<noteq> ATOMIC_BATCH_FEATURE \<or> and (active_features n) feature \<noteq> 0 \<or> joint n \<noteq> None \<or>
         config_transition_in_flight_before n next
      then Some Busy else None)"
| "admin_guard n leader_time next (FinishLeaderTransfer _ _) = Some InvalidMessage"

definition propose_admin_config :: "config_envelope \<Rightarrow> node \<Rightarrow> raft_effect list attempt" where
  "propose_admin_config envelope n =
     (if role n \<noteq> Leader then (n, Inl NotLeader)
      else case ce_admin_session envelope of
        None \<Rightarrow> (n, Inl InvalidMessage)
      | Some (session, sequence) \<Rightarrow>
          if sk_namespace session \<noteq> AdminRequest \<or> sequence = 0 then (n, Inl InvalidMessage)
          else
            case admin_guard n (ce_leader_time envelope) (sat_add (last_index n) 1)
                   (ce_operation envelope) of
              Some err \<Rightarrow> (n, Inl err)
            | None \<Rightarrow> append_config envelope n)"

definition apply_committed_config :: "entry \<Rightarrow> node \<Rightarrow> raft_effect list attempt" where
  "apply_committed_config e n =
     (if \<not> is_config (e_kind e) then (n, Inl InvalidMessage)
      else case ConfigEnvelope_decode (e_payload e) of
        Inl _ \<Rightarrow> (n, Inl InvalidMessage)
      | Inr envelope \<Rightarrow>
          (case ce_operation envelope of
             AddLearner peer _ \<Rightarrow>
               (if role n = Leader \<and> peer \<in> set (learners n) then (n, Inr (send_append n peer))
                else (n, Inr []))
           | BeginLeaderTransfer target \<Rightarrow>
               (if transfer n \<noteq> None \<or> target \<notin> set (voters n) then (n, Inl InvalidMessage)
                else
                  let n1 = n\<lparr>transfer := Some
                        \<lparr>lt_intent_index = e_index e, lt_target = target,
                         lt_deadline = ce_leader_time envelope + leader_transfer_timeout (config n),
                         lt_finishing = False, lt_admin_session = ce_admin_session envelope\<rparr>\<rparr>
                  in if role n1 = Leader \<and> target = nid n1
                     then finish_leadership_transfer TR_Success (ce_leader_time envelope) n1
                     else if role n1 = Leader \<and>
                             (case bmap_get (match_index n1) target of Some i \<Rightarrow> e_index e \<le> i | None \<Rightarrow> False)
                     then (n1, Inr [timeout_now n1 target (e_index e)])
                     else (n1, Inr []))
           | FinishLeaderTransfer intent_index _ \<Rightarrow>
               (case transfer n of
                  Some t \<Rightarrow>
                    if lt_intent_index t = intent_index then (n\<lparr>transfer := None\<rparr>, Inr [])
                    else (n, Inl InvalidMessage)
                | None \<Rightarrow> (n, Inl InvalidMessage))
           | ActivateFeature feature \<Rightarrow>
               (if feature \<noteq> ATOMIC_BATCH_FEATURE \<or> and (active_features n) feature \<noteq> 0
                then (n, Inl InvalidMessage)
                else (n\<lparr>active_features := or (active_features n) feature\<rparr>, Inr []))
           | _ \<Rightarrow> (n, Inr [])))"

section \<open>Snapshots and restored state\<close>

definition snapshot_needed :: "nat \<Rightarrow> bool" where
  "snapshot_needed applied_bytes \<longleftrightarrow> SNAPSHOT_TRIGGER_BYTES \<le> applied_bytes"

definition snapshot_base :: "node \<Rightarrow> nat \<times> nat" where
  "snapshot_base n = (snapshot_index n, snapshot_term n)"

definition install_snapshot_state :: "nat \<Rightarrow> nat \<Rightarrow> node \<Rightarrow> node" where
  "install_snapshot_state i t n =
     (if i < snapshot_index n \<or> (i = snapshot_index n \<and> t \<noteq> snapshot_term n) then n
      else n\<lparr>log := filter (\<lambda>e. i < e_index e) (log n),
             commit_index := max (commit_index n) i,
             applied_index := max (applied_index n) i,
             snapshot_index := i, snapshot_term := t\<rparr>)"

definition leadership_transfer_state :: "node \<Rightarrow> leadership_transfer option" where
  "leadership_transfer_state n = transfer n"

definition snapshot_leadership_transfer :: "node \<Rightarrow> leadership_transfer option" where
  "snapshot_leadership_transfer n =
     (case leadership_transfer_state n of
        None \<Rightarrow> None
      | Some t \<Rightarrow> if applied_index n < lt_intent_index t then None else Some (t\<lparr>lt_finishing := False\<rparr>))"

definition restore_leadership_transfer :: "leadership_transfer option \<Rightarrow> node \<Rightarrow> unit attempt" where
  "restore_leadership_transfer t n =
     (case t of
        None \<Rightarrow> (n\<lparr>transfer := None\<rparr>, Inr ())
      | Some tr \<Rightarrow>
          if lt_intent_index tr = 0 \<or> (lt_target tr = nid n \<and> nid n \<notin> set (voters n)) \<or>
             lt_target tr \<notin> set (voters n)
          then (n, Inl InvalidMessage)
          else (n\<lparr>transfer := Some tr\<rparr>, Inr ()))"

definition node_membership_state :: "node \<Rightarrow> membership_state" where
  "node_membership_state n =
     \<lparr>ms_voters = voters n, ms_learners = learners n,
      ms_joint =
        (case joint n of
           Some (old, new) \<Rightarrow>
             (case joint_enter_index n of
                Some i \<Rightarrow> Some \<lparr>jm_old_voters = old, jm_new_voters = new, jm_enter_index = i\<rparr>
              | None \<Rightarrow> None)
         | None \<Rightarrow> None),
      ms_addresses = bmap_retain (\<lambda>x. x \<in> set (voters n) \<or> x \<in> set (learners n)) (addresses n),
      ms_active_features = active_features n\<rparr>"

definition membership_state_at :: "nat \<Rightarrow> node \<Rightarrow> membership_state" where
  "membership_state_at i n =
     node_membership_state
       (rebuild_membership_from_log (n\<lparr>log := filter (\<lambda>e. e_index e \<le> i) (log n)\<rparr>))"

definition restore_membership_state :: "membership_state \<Rightarrow> node \<Rightarrow> unit attempt" where
  "restore_membership_state state n =
     (case MembershipState_validate state of
        Inl _ \<Rightarrow> (n, Inl InvalidMessage)
      | Inr _ \<Rightarrow>
          let j = map_option (\<lambda>j. (jm_old_voters j, jm_new_voters j)) (ms_joint state);
              i = map_option jm_enter_index (ms_joint state)
          in (n\<lparr>voters := ms_voters state, learners := ms_learners state, joint := j,
                joint_enter_index := i, addresses := ms_addresses state,
                active_features := ms_active_features state,
                base_voters := ms_voters state, base_learners := ms_learners state,
                base_joint := j, base_joint_enter_index := i,
                base_addresses := ms_addresses state,
                base_active_features := ms_active_features state\<rparr>, Inr ()))"

definition replay_retained_membership_suffix :: "node \<Rightarrow> node" where
  "replay_retained_membership_suffix n = rebuild_membership_from_log n"

definition allocate_snapshot_transfer_id :: "node \<Rightarrow> nat \<times> node" where
  "allocate_snapshot_transfer_id n =
     (next_snapshot_transfer_id n,
      n\<lparr>next_snapshot_transfer_id := max (sat_add (next_snapshot_transfer_id n) 1) 1\<rparr>)"

fun chunk_loop :: "nat \<Rightarrow> nat \<Rightarrow> bytes \<Rightarrow> bytes list" where
  "chunk_loop 0 k bs = []"
| "chunk_loop (Suc fuel) k bs = (if bs = [] then [] else take k bs # chunk_loop fuel k (drop k bs))"

text \<open>\<open>slice::chunks\<close>: at most one chunk per byte, so the length is enough fuel.\<close>

definition chunks :: "nat \<Rightarrow> bytes \<Rightarrow> bytes list" where
  "chunks k bs = chunk_loop (length bs) k bs"

definition snapshot_chunk_message ::
  "node \<Rightarrow> nat \<Rightarrow> nat \<Rightarrow> nat \<Rightarrow> nat \<Rightarrow> bytes \<Rightarrow> nat \<times> bytes \<Rightarrow> message" where
  "snapshot_chunk_message n peer i t transfer_id bs p =
     (case p of (chunk, data) \<Rightarrow>
       \<lparr>m_proto_version = PROTOCOL_VERSION, m_from = nid n, m_to = peer, m_term = cur_term n,
        m_kind = SnapshotChunk
          \<lparr>sc_transfer_id = transfer_id, sc_last_included_index = i, sc_last_included_term = t,
           sc_total_len = length bs, sc_snapshot_crc32c = crc32c bs,
           sc_offset = chunk * SNAPSHOT_CHUNK_BYTES, sc_data = data,
           sc_done = (length bs \<le> (chunk + 1) * SNAPSHOT_CHUNK_BYTES)\<rparr>\<rparr>)"

definition snapshot_chunks :: "nat \<Rightarrow> nat \<Rightarrow> nat \<Rightarrow> bytes \<Rightarrow> node \<Rightarrow> node \<times> message list" where
  "snapshot_chunks peer i t bs n =
     (if bs = [] then (n, [])
      else let (transfer_id, n1) = allocate_snapshot_transfer_id n
           in (n1, map (snapshot_chunk_message n1 peer i t transfer_id bs)
                     (List.enumerate 0 (chunks SNAPSHOT_CHUNK_BYTES bs))))"

section \<open>Elections\<close>

definition peer_messages :: "node \<Rightarrow> nat \<Rightarrow> message_kind \<Rightarrow> raft_effect list" where
  "peer_messages n t kind =
     map (\<lambda>peer. Send \<lparr>m_proto_version = PROTOCOL_VERSION, m_from = nid n, m_to = peer, m_term = t,
                       m_kind = kind\<rparr>)
       (filter (\<lambda>peer. peer \<noteq> nid n) (voters n))"

definition set_peer_progress :: "nat list \<Rightarrow> nat \<Rightarrow> node \<Rightarrow> node" where
  "set_peer_progress peers next n =
     fold (\<lambda>peer n. n\<lparr>next_index := bmap_insert peer next (next_index n),
                      match_index := bmap_insert peer 0 (match_index n)\<rparr>) peers n"

definition assume_leadership :: "entry \<Rightarrow> node \<Rightarrow> node" where
  "assume_leadership e n =
     (let n1 = push_entry e (n\<lparr>role := Leader, leader_id := Some (nid n)\<rparr>);
          n2 = set_peer_progress (filter (\<lambda>peer. peer \<noteq> nid n1) (voters n1 @ learners n1))
                 (last_index n1 + 1) n1
      in n2\<lparr>heard_quorum := [nid n2], quorum_deadline := 0\<rparr>)"

text \<open>\<open>resume_leave_joint\<close> is the first early return of \<open>become_leader\<close>: \<open>Some\<close> the effects of the
  appended \<open>LeaveJoint\<close>.\<close>

definition resume_leave_joint :: "node \<Rightarrow> node \<times> raft_effect list option" where
  "resume_leave_joint n =
     (case joint_enter_index n of
        None \<Rightarrow> (n, None)
      | Some enter_index \<Rightarrow>
          if commit_index n < enter_index then (n, None)
          else case find_index enter_index (log n) of
            None \<Rightarrow> (n, None)
          | Some candidate \<Rightarrow>
              (case ConfigEnvelope_decode (e_payload candidate) of
                 Inl _ \<Rightarrow> (n, None)
               | Inr enter \<Rightarrow>
                   (case ce_operation enter of
                      EnterJoint _ \<Rightarrow>
                        if ce_admin_session enter = None then (n, None)
                        else
                          (case append_config
                                  \<lparr>ce_admin_session = ce_admin_session enter,
                                   ce_leader_time = ce_leader_time enter,
                                   ce_operation = LeaveJoint enter_index\<rparr> n of
                             (n1, Inr finish) \<Rightarrow> (n1, Some finish)
                           | (n1, Inl _) \<Rightarrow> (n1, None))
                    | _ \<Rightarrow> (n, None))))"

text \<open>\<open>finish_inherited_transfer\<close> is the second early return of \<open>become_leader\<close>.\<close>

definition finish_inherited_transfer :: "node \<Rightarrow> node \<times> raft_effect list option" where
  "finish_inherited_transfer n0 =
     (let n = resync_transfer_finishing n0
      in case transfer n of
           None \<Rightarrow> (n, None)
         | Some t \<Rightarrow>
             if lt_finishing t then (n, None)
             else
               case finish_leadership_transfer
                      (if nid n = lt_target t then TR_Success else TR_Superseded) (lt_deadline t) n of
                 (n1, Inr finish) \<Rightarrow> (n1, Some finish)
               | (n1, Inl _) \<Rightarrow> (n1, None))"

definition become_leader :: step where
  "become_leader n =
     (let e = next_entry n Noop [];
          (n2, es2) = advance_commit (assume_leadership e n);
          effects = PersistEntries [e] # es2
      in case resume_leave_joint n2 of
           (n3, Some finish) \<Rightarrow> (n3, effects @ finish)
         | (n3, None) \<Rightarrow>
             (case finish_inherited_transfer n3 of
                (n4, Some finish) \<Rightarrow> (n4, effects @ finish)
              | (n4, None) \<Rightarrow> (n4, effects @ broadcast_append n4)))"

definition start_election :: step where
  "start_election n =
     (if nid n \<notin> set (voters n) then (n\<lparr>role := Learner, pre_votes := [], votes := []\<rparr>, [])
      else
        let n1 = n\<lparr>role := Candidate,
                    hard_state := \<lparr>hs_term = cur_term n + 1, hs_voted_for = Some (nid n)\<rparr>,
                    votes := [nid n]\<rparr>
        in if has_majority n1 (votes n1)
           then after_effects [PersistHard (hard_state n1)] (become_leader n1)
           else (n1, PersistHard (hard_state n1) #
                     peer_messages n1 (cur_term n1) (VoteReq (last_index n1) (last_term n1))))"

definition start_pre_vote :: "nat \<Rightarrow> step" where
  "start_pre_vote now n =
     (if nid n \<notin> set (voters n)
      then (reset_election now (n\<lparr>role := Learner, pre_votes := [], votes := []\<rparr>), [])
      else
        let n1 = reset_election now (n\<lparr>role := Candidate, pre_votes := [nid n], votes := []\<rparr>)
        in if has_majority n1 (pre_votes n1) then start_election n1
           else (n1, peer_messages n1 (cur_term n1 + 1) (PreVoteReq (last_index n1) (last_term n1))))"

definition pre_vote_response :: "node \<Rightarrow> message \<Rightarrow> nat \<Rightarrow> nat \<Rightarrow> raft_effect" where
  "pre_vote_response n message i t =
     (let granted = cur_term n + 1 \<le> m_term message \<and> log_is_up_to_date n i t \<and> role n \<noteq> Learner
      in Send \<lparr>m_proto_version = PROTOCOL_VERSION, m_from = nid n, m_to = m_from message,
               m_term = m_term message, m_kind = PreVoteResp granted\<rparr>)"

definition vote_granted :: "message \<Rightarrow> nat \<Rightarrow> nat \<Rightarrow> node \<Rightarrow> bool" where
  "vote_granted message i t n \<longleftrightarrow>
     m_term message = cur_term n \<and> m_from message \<in> set (voters n) \<and>
     (case voted_for n of None \<Rightarrow> True | Some voted \<Rightarrow> voted = m_from message) \<and>
     role n \<noteq> Learner \<and> log_is_up_to_date n i t"

definition vote_request :: "message \<Rightarrow> nat \<Rightarrow> nat \<Rightarrow> nat \<Rightarrow> step" where
  "vote_request message i t now n =
     (let granted = vote_granted message i t n;
          (n1, es) =
            (if granted then
               let n1 = n\<lparr>hard_state := (hard_state n)\<lparr>hs_voted_for := Some (m_from message)\<rparr>\<rparr>
               in (reset_election now n1, [PersistHard (hard_state n1)])
             else (n, []))
      in (n1, es @ [Send \<lparr>m_proto_version = PROTOCOL_VERSION, m_from = nid n1, m_to = m_from message,
                          m_term = cur_term n1, m_kind = VoteResp granted\<rparr>]))"

section \<open>Replication on the follower\<close>

definition make_append_response ::
  "node \<Rightarrow> message \<Rightarrow> bool \<Rightarrow> nat \<Rightarrow> nat option \<Rightarrow> nat \<Rightarrow> raft_effect" where
  "make_append_response n message success matched conflict_term conflict_index =
     (let round = (case m_kind message of AppendReq request \<Rightarrow> aq_read_round request | _ \<Rightarrow> 0)
      in Send \<lparr>m_proto_version = PROTOCOL_VERSION, m_from = nid n, m_to = m_from message,
               m_term = cur_term n,
               m_kind = AppendResp \<lparr>ap_success = success, ap_match_index = matched,
                                    ap_conflict_term = conflict_term,
                                    ap_conflict_index = conflict_index, ap_read_round = round\<rparr>\<rparr>)"

definition truncate_from :: "nat \<Rightarrow> node \<Rightarrow> node" where
  "truncate_from i n = rebuild_membership_from_log (n\<lparr>log := filter (\<lambda>e. e_index e < i) (log n)\<rparr>)"

text \<open>The tail of one iteration: the contiguity check, the configuration projection and the push.
  \<open>Inl\<close> is an early return of \<open>append_request\<close>.\<close>

definition accept_entry ::
  "message \<Rightarrow> entry \<Rightarrow> node \<Rightarrow> raft_effect list \<Rightarrow>
     node \<times> raft_effect list + node \<times> raft_effect list" where
  "accept_entry message e n effects =
     (if e_index e \<noteq> sat_add (last_index n) 1 then
        Inl (n, effects @ [Trace ''append_gap_rejected'' (e_index e),
                 make_append_response n message False (last_index n) None (sat_add (last_index n) 1)])
      else if is_config (e_kind e) then
        (case apply_config_on_append e n of
           Inl _ \<Rightarrow> Inl (n, [Trace ''invalid_config_rejected'' (e_index e)])
         | Inr n1 \<Rightarrow> Inr (push_entry e n1, effects))
      else Inr (push_entry e n, effects))"

text \<open>The loop over the request's entries; \<open>appended\<close> collects the entries pushed.\<close>

fun append_loop ::
  "message \<Rightarrow> entry list \<Rightarrow> node \<Rightarrow> raft_effect list \<Rightarrow> entry list \<Rightarrow>
     node \<times> raft_effect list + node \<times> raft_effect list \<times> entry list" where
  "append_loop message [] n effects appended = Inr (n, effects, appended)"
| "append_loop message (e # es) n effects appended =
     (let accept = (\<lambda>n effects.
            case accept_entry message e n effects of
              Inl r \<Rightarrow> Inl r
            | Inr (n1, effects1) \<Rightarrow> append_loop message es n1 effects1 (appended @ [e]))
      in case find_index (e_index e) (log n) of
           Some existing \<Rightarrow>
             (if e_term existing \<noteq> e_term e then
                (if e_index e \<le> commit_index n
                 then Inl (n, effects @ [Trace ''committed_conflict_rejected'' (e_index e)])
                 else accept (truncate_from (e_index e) n) (effects @ [TruncateSuffix (e_index e)]))
              else append_loop message es n effects appended)
         | None \<Rightarrow> accept n effects)"

definition follow_leader :: "message \<Rightarrow> nat \<Rightarrow> node \<Rightarrow> node" where
  "follow_leader message now n =
     reset_election now
       (n\<lparr>role := (if nid n \<in> set (voters n) then Follower else Learner),
          leader_id := Some (m_from message)\<rparr>)"

definition append_conflict_index :: "node \<Rightarrow> append_request \<Rightarrow> nat" where
  "append_conflict_index n request =
     (if last_index n < aq_prev_index request then sat_add (last_index n) 1
      else max (aq_prev_index request) (sat_add (snapshot_index n) 1))"

definition learn_commit :: "nat \<Rightarrow> step" where
  "learn_commit leader_commit n =
     (if commit_index n < leader_commit
      then apply_committed (n\<lparr>commit_index := min leader_commit (last_index n)\<rparr>)
      else (n, []))"

definition handle_append_request :: "message \<Rightarrow> append_request \<Rightarrow> nat \<Rightarrow> step" where
  "handle_append_request message request now n0 =
     (if m_term message < cur_term n0 then
        (n0, [make_append_response n0 message False (last_index n0) None (last_index n0)])
      else
        let n = follow_leader message now n0
        in if term_at n (aq_prev_index request) \<noteq> Some (aq_prev_term request) then
             (n, [make_append_response n message False (last_index n)
                    (term_at n (aq_prev_index request)) (append_conflict_index n request)])
           else
             case append_loop message (aq_entries request) n [] [] of
               Inl r \<Rightarrow> r
             | Inr (n1, effects, appended) \<Rightarrow>
                 let (n2, es) = learn_commit (aq_leader_commit request) n1
                 in (n2, effects @ (if appended = [] then [] else [PersistEntries appended]) @ es @
                         [make_append_response n2 message True (last_index n2) None 0]))"

section \<open>Replication on the leader\<close>

definition note_read_ack :: "nat \<Rightarrow> append_response \<Rightarrow> node \<Rightarrow> node" where
  "note_read_ack peer response n =
     (if peer \<in> set (voters n) \<and> ap_read_round response = read_round n
      then n\<lparr>read_acks := bset_insert peer (read_acks n)\<rparr> else n)"

definition release_read :: step where
  "release_read n =
     (case read_index n of
        Some i \<Rightarrow>
          if has_majority n (read_acks n) then (n\<lparr>read_index := None\<rparr>, [ReadBarrierReady i]) else (n, [])
      | None \<Rightarrow> (n, []))"

definition record_match :: "nat \<Rightarrow> append_response \<Rightarrow> node \<Rightarrow> node" where
  "record_match peer response n =
     (let n1 = n\<lparr>match_index := bmap_insert peer (ap_match_index response) (match_index n),
                  next_index := bmap_insert peer (ap_match_index response + 1) (next_index n)\<rparr>
      in if peer \<in> set (voters n1) then n1\<lparr>heard_quorum := bset_insert peer (heard_quorum n1)\<rparr> else n1)"

definition transfer_trigger :: "nat \<Rightarrow> append_response \<Rightarrow> node \<Rightarrow> raft_effect list" where
  "transfer_trigger peer response n =
     (case transfer n of
        Some t \<Rightarrow>
          if role n = Leader \<and> \<not> lt_finishing t \<and> lt_target t = peer \<and>
             lt_intent_index t \<le> commit_index n \<and> lt_intent_index t \<le> ap_match_index response
          then [timeout_now n peer (lt_intent_index t)] else []
      | None \<Rightarrow> [])"

definition append_response_from_peer :: "nat \<Rightarrow> append_response \<Rightarrow> step" where
  "append_response_from_peer peer response n =
     (if ap_success response then
        let (n1, es1) = advance_commit (record_match peer response n);
            (n2, es2) = release_read (note_read_ack peer response n1)
        in (n2, es1 @ es2 @ transfer_trigger peer response n2 @
                (case bmap_get (next_index n2) peer of
                   Some next \<Rightarrow> if next \<le> last_index n2 then send_append n2 peer else []
                 | None \<Rightarrow> []))
      else
        let n1 = n\<lparr>next_index := bmap_insert peer (max (ap_conflict_index response) 1) (next_index n)\<rparr>
        in (n1, send_append n1 peer))"

definition forget_peer :: "nat \<Rightarrow> node \<Rightarrow> node" where
  "forget_peer peer n =
     n\<lparr>retiring_peers := bmap_remove peer (retiring_peers n),
       next_index := bmap_remove peer (next_index n),
       match_index := bmap_remove peer (match_index n),
       addresses := bmap_remove peer (addresses n)\<rparr>"

definition handle_append_response :: "message \<Rightarrow> append_response \<Rightarrow> nat \<Rightarrow> step" where
  "handle_append_response message response now n0 =
     (let peer = m_from message
      in if role n0 \<noteq> Leader \<or> m_term message \<noteq> cur_term n0 \<or>
            (peer \<notin> set (voters n0) \<and> peer \<notin> set (learners n0) \<and>
             bmap_get (retiring_peers n0) peer = None)
         then (n0, [])
         else if ap_success response then
           let n = n0\<lparr>last_contact := bmap_insert peer now (last_contact n0)\<rparr>
           in case bmap_get (retiring_peers n) peer of
                None \<Rightarrow> append_response_from_peer peer response n
              | Some retiring \<Rightarrow>
                  if rp_terminal retiring \<le> ap_match_index response then
                    (if commit_index n < rp_terminal retiring
                     then (fst (append_response_from_peer peer response n), [])
                     else if \<not> rp_farewell_sent retiring then
                       (let n1 = n\<lparr>retiring_peers :=
                                    bmap_insert peer (retiring\<lparr>rp_farewell_sent := True\<rparr>) (retiring_peers n)\<rparr>
                        in (n1, send_append n1 peer))
                     else (forget_peer peer n, []))
                  else append_response_from_peer peer response n
         else append_response_from_peer peer response n0)"

section \<open>Snapshot chunks\<close>

definition snapshot_ack ::
  "node \<Rightarrow> message \<Rightarrow> nat \<Rightarrow> nat \<Rightarrow> bool \<Rightarrow> snapshot_reject_reason option \<Rightarrow> raft_effect" where
  "snapshot_ack n message transfer_id next_offset accepted reason =
     Send \<lparr>m_proto_version = PROTOCOL_VERSION, m_from = nid n, m_to = m_from message,
           m_term = cur_term n, m_kind = SnapshotAck transfer_id next_offset accepted reason\<rparr>"

definition handle_snapshot_chunk :: "node \<Rightarrow> message \<Rightarrow> snapshot_chunk \<Rightarrow> raft_effect list" where
  "handle_snapshot_chunk n message c =
     (if sc_last_included_index c < snapshot_index n \<or> sc_last_included_index c < applied_index n \<or>
         (sc_last_included_index c = snapshot_index n \<and> sc_last_included_term c \<noteq> snapshot_term n)
      then [snapshot_ack n message (sc_transfer_id c) 0 False (Some StaleTerm)]
      else case checked_add (sc_offset c) (length (sc_data c)) of
        None \<Rightarrow> [snapshot_ack n message (sc_transfer_id c) 0 False (Some TooLarge)]
      | Some chunk_end \<Rightarrow>
          if sc_transfer_id c = 0 \<or> sc_total_len c = 0 \<or> MAX_CODEC_BYTES < sc_total_len c \<or>
             sc_data c = [] \<or> SNAPSHOT_CHUNK_BYTES < length (sc_data c) \<or>
             sc_total_len c < chunk_end \<or> sc_done c \<noteq> (chunk_end = sc_total_len c)
          then [snapshot_ack n message (sc_transfer_id c) 0 False (Some Corrupt)]
          else [ReceiveSnapshotChunk message])"

section \<open>Message delivery\<close>

fun is_pre_vote :: "message_kind \<Rightarrow> bool" where
  "is_pre_vote (PreVoteReq _ _) = True"
| "is_pre_vote (PreVoteResp _) = True"
| "is_pre_vote _ = False"

definition observe_term :: "message \<Rightarrow> step" where
  "observe_term message n =
     (if cur_term n < m_term message \<and> \<not> is_pre_vote (m_kind message) then
        let n1 = n\<lparr>hard_state := \<lparr>hs_term = m_term message, hs_voted_for = None\<rparr>,
                    role := (if nid n \<in> set (voters n) then Follower else Learner),
                    leader_id := None, votes := [], pre_votes := []\<rparr>
        in (n1, [PersistHard (hard_state n1)])
      else (n, []))"

definition handle_pre_vote_resp :: "message \<Rightarrow> bool \<Rightarrow> step" where
  "handle_pre_vote_resp message granted n =
     (if (role n = Follower \<or> role n = Candidate) \<and> m_term message = cur_term n + 1 \<and> granted then
        let n1 = n\<lparr>pre_votes := bset_insert (m_from message) (pre_votes n)\<rparr>
        in if has_majority n1 (pre_votes n1) then start_election n1 else (n1, [])
      else (n, []))"

definition handle_vote_resp :: "message \<Rightarrow> bool \<Rightarrow> step" where
  "handle_vote_resp message granted n =
     (if role n = Candidate \<and> m_term message = cur_term n \<and> granted then
        let n1 = n\<lparr>votes := bset_insert (m_from message) (votes n)\<rparr>
        in if has_majority n1 (votes n1) then become_leader n1 else (n1, [])
      else (n, []))"

definition timeout_now_valid :: "message \<Rightarrow> nat \<Rightarrow> node \<Rightarrow> bool" where
  "timeout_now_valid message intent_index n \<longleftrightarrow>
     intent_index \<noteq> 0 \<and> m_term message = cur_term n \<and> leader_id n = Some (m_from message) \<and>
     nid n \<in> set (voters n) \<and> intent_index \<le> applied_index n \<and>
     (case transfer n of
        Some t \<Rightarrow> lt_intent_index t = intent_index \<and> lt_target t = nid n | None \<Rightarrow> False)"

definition dispatch :: "message \<Rightarrow> nat \<Rightarrow> step" where
  "dispatch message now n =
     (case m_kind message of
        PreVoteReq i t \<Rightarrow> (n, [pre_vote_response n message i t])
      | PreVoteResp granted \<Rightarrow> handle_pre_vote_resp message granted n
      | VoteReq i t \<Rightarrow> vote_request message i t now n
      | VoteResp granted \<Rightarrow> handle_vote_resp message granted n
      | AppendReq request \<Rightarrow> handle_append_request message request now n
      | AppendResp response \<Rightarrow> handle_append_response message response now n
      | SnapshotChunk c \<Rightarrow> (n, handle_snapshot_chunk n message c)
      | SnapshotAck _ next_offset accepted _ \<Rightarrow>
          (if accepted \<and> m_term message = cur_term n
           then n\<lparr>last_contact := bmap_insert (m_from message) now (last_contact n)\<rparr> else n,
           [ReceiveSnapshotAck message, Trace ''snapshot_ack'' next_offset])
      | TimeoutNow intent_index \<Rightarrow>
          (if timeout_now_valid message intent_index n then start_election n
           else (n, [Trace ''timeout_now_rejected'' intent_index]))
      | FollowerReadRequest request_id command_hash \<Rightarrow>
          (n, [if m_proto_version message = SEMANTIC_VERSION_V3 \<and> request_id \<noteq> 0 \<and>
                  m_term message = cur_term n \<and> role n = Leader
               then EffFollowerReadRequest (m_from message) request_id command_hash now
               else Trace ''follower_read_request_rejected'' (last_index n)])
      | FollowerReadGrant request_id command_hash i t \<Rightarrow>
          (n, [if m_proto_version message = SEMANTIC_VERSION_V3 \<and> request_id \<noteq> 0 \<and>
                  m_term message = cur_term n \<and> leader_id n = Some (m_from message)
               then EffFollowerReadGrant (m_from message) (m_term message) request_id command_hash i t
               else Trace ''follower_read_grant_rejected'' i]))"

definition on_message_at :: "message \<Rightarrow> nat \<Rightarrow> step" where
  "on_message_at message now n =
     (if \<not> supports_protocol_version (m_proto_version message)
      then (n, [Trace ''proto_version_rejected'' (last_index n)])
      else extend_with (observe_term message) (dispatch message now) n)"

definition on_message :: "message \<Rightarrow> step" where
  "on_message message = on_message_at message 0"

section \<open>Timers\<close>

text \<open>\<open>check_quorum\<close> is the quorum-check part of \<open>tick\<close>: \<open>Inl\<close> is its early return.\<close>

definition reset_quorum :: "nat \<Rightarrow> node \<Rightarrow> node" where
  "reset_quorum now n = n\<lparr>heard_quorum := [nid n], quorum_deadline := now + election_min (config n)\<rparr>"

definition check_quorum :: "nat \<Rightarrow> node \<Rightarrow> node \<times> raft_effect list + node" where
  "check_quorum now n =
     (if role n = Leader \<and> quorum_deadline n = 0 then Inr (reset_quorum now n)
      else if role n = Leader \<and> quorum_deadline n \<le> now then
        (if has_majority n (heard_quorum n) then Inr (reset_quorum now n)
         else
           let n1 = reset_election now ((reset_quorum now n)\<lparr>role := Follower, leader_id := None\<rparr>)
           in Inl (n1, [Trace ''checkquorum_stepdown'' (last_index n1)]))
      else Inr n)"

definition tick_timers :: "nat \<Rightarrow> step" where
  "tick_timers now n0 =
     (case check_quorum now n0 of
        Inl r \<Rightarrow> r
      | Inr n \<Rightarrow>
          if role n = Leader \<and> heartbeat_deadline n \<le> now then
            let n1 = n\<lparr>heartbeat_deadline := now + heartbeat (config n)\<rparr>
            in (n1, broadcast_append n1 @ nudge_effects n1 @
                    [ArmTimer (sat_add (sat_mul (nid n1) 2) 1) (heartbeat_deadline n1) Heartbeat])
          else if role n \<noteq> Leader \<and> election_deadline n \<le> now then start_pre_vote now n
          else (n, []))"

definition transfer_expired :: "nat \<Rightarrow> node \<Rightarrow> bool" where
  "transfer_expired now n \<longleftrightarrow>
     role n = Leader \<and>
     (case transfer n of Some t \<Rightarrow> \<not> lt_finishing t \<and> lt_deadline t \<le> now | None \<Rightarrow> False)"

definition tick :: "nat \<Rightarrow> step" where
  "tick now n0 =
     (let n = resync_transfer_finishing n0
      in if transfer_expired now n then
           case finish_leadership_transfer TR_Timeout now n of
             (n1, Inr effects) \<Rightarrow> (n1, effects)
           | (n1, Inl _) \<Rightarrow> tick_timers now n1
         else tick_timers now n)"

definition on_timer :: "nat \<Rightarrow> timer_kind \<Rightarrow> step" where
  "on_timer now timer n =
     (case timer of
        Election \<Rightarrow>
          (if role n = Leader then (n, broadcast_append n @ nudge_effects n) else start_pre_vote now n)
      | Heartbeat \<Rightarrow>
          (if role n = Leader then (n, broadcast_append n @ nudge_effects n) else (n, [])))"

definition rearm_election :: "nat \<Rightarrow> node \<Rightarrow> node" where
  "rearm_election now n = reset_election now n"

end
