(* ===== verification/RaftFrame.thy ===== *)
theory RaftFrame
  imports RaftNode
begin

text \<open>
  Which fields each operation of the node leaves alone, as simplification rules.  The later proofs
  only have to look at the fields an operation writes.
\<close>

lemma extend_with_fst [simp]: "fst (extend_with f g n) = fst (g (fst (f n)))"
  by (simp add: extend_with_def Let_def split: prod.splits)

lemma extend_with_snd: "snd (extend_with f g n) = snd (f n) @ snd (g (fst (f n)))"
  by (simp add: extend_with_def Let_def split: prod.splits)

lemma after_effects_fst [simp]: "fst (after_effects es r) = fst r"
  by (simp add: after_effects_def)

lemma after_effects_snd [simp]: "snd (after_effects es r) = es @ snd r"
  by (simp add: after_effects_def)

section \<open>Local updates\<close>

lemma reset_election_frame [simp]:
  "nid (reset_election now n) = nid n" "role (reset_election now n) = role n"
  "hard_state (reset_election now n) = hard_state n" "voters (reset_election now n) = voters n"
  "learners (reset_election now n) = learners n" "joint (reset_election now n) = joint n"
  "joint_enter_index (reset_election now n) = joint_enter_index n"
  "base_voters (reset_election now n) = base_voters n" "base_learners (reset_election now n) = base_learners n"
  "base_joint (reset_election now n) = base_joint n"
  "base_joint_enter_index (reset_election now n) = base_joint_enter_index n" "log (reset_election now n) = log n"
  "commit_index (reset_election now n) = commit_index n" "applied_index (reset_election now n) = applied_index n"
  "leader_id (reset_election now n) = leader_id n" "next_index (reset_election now n) = next_index n"
  "match_index (reset_election now n) = match_index n" "config (reset_election now n) = config n"
  "votes (reset_election now n) = votes n" "pre_votes (reset_election now n) = pre_votes n"
  "read_acks (reset_election now n) = read_acks n" "read_round (reset_election now n) = read_round n"
  "read_index (reset_election now n) = read_index n" "snapshot_index (reset_election now n) = snapshot_index n"
  "snapshot_term (reset_election now n) = snapshot_term n" "transfer (reset_election now n) = transfer n"
  by (simp_all add: reset_election_def Let_def split: prod.splits)

lemma push_entry_frame [simp]:
  "nid (push_entry e n) = nid n" "role (push_entry e n) = role n" "hard_state (push_entry e n) = hard_state n"
  "voters (push_entry e n) = voters n" "learners (push_entry e n) = learners n"
  "joint (push_entry e n) = joint n" "joint_enter_index (push_entry e n) = joint_enter_index n"
  "base_voters (push_entry e n) = base_voters n" "base_learners (push_entry e n) = base_learners n"
  "base_joint (push_entry e n) = base_joint n"
  "base_joint_enter_index (push_entry e n) = base_joint_enter_index n"
  "commit_index (push_entry e n) = commit_index n" "applied_index (push_entry e n) = applied_index n"
  "leader_id (push_entry e n) = leader_id n" "next_index (push_entry e n) = next_index n"
  "match_index (push_entry e n) = match_index n" "config (push_entry e n) = config n"
  "votes (push_entry e n) = votes n" "pre_votes (push_entry e n) = pre_votes n"
  "read_acks (push_entry e n) = read_acks n" "read_round (push_entry e n) = read_round n"
  "read_index (push_entry e n) = read_index n" "snapshot_index (push_entry e n) = snapshot_index n"
  "snapshot_term (push_entry e n) = snapshot_term n" "transfer (push_entry e n) = transfer n"
  by (simp_all add: push_entry_def)

lemma push_entry_log [simp]: "log (push_entry e n) = log n @ [e]"
  by (simp add: push_entry_def)

lemma apply_committed_frame [simp]:
  "nid (fst (apply_committed n)) = nid n" "role (fst (apply_committed n)) = role n"
  "hard_state (fst (apply_committed n)) = hard_state n" "voters (fst (apply_committed n)) = voters n"
  "learners (fst (apply_committed n)) = learners n" "joint (fst (apply_committed n)) = joint n"
  "joint_enter_index (fst (apply_committed n)) = joint_enter_index n"
  "base_voters (fst (apply_committed n)) = base_voters n"
  "base_learners (fst (apply_committed n)) = base_learners n"
  "base_joint (fst (apply_committed n)) = base_joint n"
  "base_joint_enter_index (fst (apply_committed n)) = base_joint_enter_index n"
  "log (fst (apply_committed n)) = log n" "commit_index (fst (apply_committed n)) = commit_index n"
  "leader_id (fst (apply_committed n)) = leader_id n" "next_index (fst (apply_committed n)) = next_index n"
  "match_index (fst (apply_committed n)) = match_index n" "config (fst (apply_committed n)) = config n"
  "votes (fst (apply_committed n)) = votes n" "pre_votes (fst (apply_committed n)) = pre_votes n"
  "read_acks (fst (apply_committed n)) = read_acks n" "read_round (fst (apply_committed n)) = read_round n"
  "read_index (fst (apply_committed n)) = read_index n"
  "snapshot_index (fst (apply_committed n)) = snapshot_index n"
  "snapshot_term (fst (apply_committed n)) = snapshot_term n" "transfer (fst (apply_committed n)) = transfer n"
  by (simp_all add: apply_committed_def Let_def split: prod.splits)

lemma advance_commit_frame [simp]:
  "nid (fst (advance_commit n)) = nid n" "role (fst (advance_commit n)) = role n"
  "hard_state (fst (advance_commit n)) = hard_state n" "voters (fst (advance_commit n)) = voters n"
  "learners (fst (advance_commit n)) = learners n" "joint (fst (advance_commit n)) = joint n"
  "joint_enter_index (fst (advance_commit n)) = joint_enter_index n"
  "base_voters (fst (advance_commit n)) = base_voters n"
  "base_learners (fst (advance_commit n)) = base_learners n" "base_joint (fst (advance_commit n)) = base_joint n"
  "base_joint_enter_index (fst (advance_commit n)) = base_joint_enter_index n"
  "log (fst (advance_commit n)) = log n" "leader_id (fst (advance_commit n)) = leader_id n"
  "next_index (fst (advance_commit n)) = next_index n" "match_index (fst (advance_commit n)) = match_index n"
  "config (fst (advance_commit n)) = config n" "votes (fst (advance_commit n)) = votes n"
  "pre_votes (fst (advance_commit n)) = pre_votes n" "read_acks (fst (advance_commit n)) = read_acks n"
  "read_round (fst (advance_commit n)) = read_round n" "read_index (fst (advance_commit n)) = read_index n"
  "snapshot_index (fst (advance_commit n)) = snapshot_index n"
  "snapshot_term (fst (advance_commit n)) = snapshot_term n" "transfer (fst (advance_commit n)) = transfer n"
  by (simp_all add: advance_commit_def Let_def)

lemma resync_frame [simp]:
  "nid (resync_transfer_finishing n) = nid n" "role (resync_transfer_finishing n) = role n"
  "hard_state (resync_transfer_finishing n) = hard_state n" "voters (resync_transfer_finishing n) = voters n"
  "learners (resync_transfer_finishing n) = learners n" "joint (resync_transfer_finishing n) = joint n"
  "joint_enter_index (resync_transfer_finishing n) = joint_enter_index n"
  "base_voters (resync_transfer_finishing n) = base_voters n"
  "base_learners (resync_transfer_finishing n) = base_learners n"
  "base_joint (resync_transfer_finishing n) = base_joint n"
  "base_joint_enter_index (resync_transfer_finishing n) = base_joint_enter_index n"
  "log (resync_transfer_finishing n) = log n" "commit_index (resync_transfer_finishing n) = commit_index n"
  "applied_index (resync_transfer_finishing n) = applied_index n"
  "leader_id (resync_transfer_finishing n) = leader_id n"
  "next_index (resync_transfer_finishing n) = next_index n"
  "match_index (resync_transfer_finishing n) = match_index n" "config (resync_transfer_finishing n) = config n"
  "votes (resync_transfer_finishing n) = votes n" "pre_votes (resync_transfer_finishing n) = pre_votes n"
  "read_acks (resync_transfer_finishing n) = read_acks n"
  "read_round (resync_transfer_finishing n) = read_round n"
  "read_index (resync_transfer_finishing n) = read_index n"
  "snapshot_index (resync_transfer_finishing n) = snapshot_index n"
  "snapshot_term (resync_transfer_finishing n) = snapshot_term n"
  by (simp_all add: resync_transfer_finishing_def Let_def split: option.splits)

lemma follow_leader_frame [simp]:
  "nid (follow_leader message now n) = nid n" "hard_state (follow_leader message now n) = hard_state n"
  "voters (follow_leader message now n) = voters n" "learners (follow_leader message now n) = learners n"
  "joint (follow_leader message now n) = joint n"
  "joint_enter_index (follow_leader message now n) = joint_enter_index n"
  "base_voters (follow_leader message now n) = base_voters n"
  "base_learners (follow_leader message now n) = base_learners n"
  "base_joint (follow_leader message now n) = base_joint n"
  "base_joint_enter_index (follow_leader message now n) = base_joint_enter_index n"
  "log (follow_leader message now n) = log n" "commit_index (follow_leader message now n) = commit_index n"
  "applied_index (follow_leader message now n) = applied_index n"
  "next_index (follow_leader message now n) = next_index n"
  "match_index (follow_leader message now n) = match_index n" "config (follow_leader message now n) = config n"
  "votes (follow_leader message now n) = votes n" "pre_votes (follow_leader message now n) = pre_votes n"
  "read_acks (follow_leader message now n) = read_acks n"
  "read_round (follow_leader message now n) = read_round n"
  "read_index (follow_leader message now n) = read_index n"
  "snapshot_index (follow_leader message now n) = snapshot_index n"
  "snapshot_term (follow_leader message now n) = snapshot_term n"
  "transfer (follow_leader message now n) = transfer n"
  by (simp_all add: follow_leader_def)

lemma learn_commit_frame [simp]:
  "nid (fst (learn_commit c n)) = nid n" "role (fst (learn_commit c n)) = role n"
  "hard_state (fst (learn_commit c n)) = hard_state n" "voters (fst (learn_commit c n)) = voters n"
  "learners (fst (learn_commit c n)) = learners n" "joint (fst (learn_commit c n)) = joint n"
  "joint_enter_index (fst (learn_commit c n)) = joint_enter_index n"
  "base_voters (fst (learn_commit c n)) = base_voters n"
  "base_learners (fst (learn_commit c n)) = base_learners n" "base_joint (fst (learn_commit c n)) = base_joint n"
  "base_joint_enter_index (fst (learn_commit c n)) = base_joint_enter_index n"
  "log (fst (learn_commit c n)) = log n" "leader_id (fst (learn_commit c n)) = leader_id n"
  "next_index (fst (learn_commit c n)) = next_index n" "match_index (fst (learn_commit c n)) = match_index n"
  "config (fst (learn_commit c n)) = config n" "votes (fst (learn_commit c n)) = votes n"
  "pre_votes (fst (learn_commit c n)) = pre_votes n" "read_acks (fst (learn_commit c n)) = read_acks n"
  "read_round (fst (learn_commit c n)) = read_round n" "read_index (fst (learn_commit c n)) = read_index n"
  "snapshot_index (fst (learn_commit c n)) = snapshot_index n"
  "snapshot_term (fst (learn_commit c n)) = snapshot_term n" "transfer (fst (learn_commit c n)) = transfer n"
  by (simp_all add: learn_commit_def)

lemma note_read_ack_frame [simp]:
  "nid (note_read_ack peer response n) = nid n" "role (note_read_ack peer response n) = role n"
  "hard_state (note_read_ack peer response n) = hard_state n" "voters (note_read_ack peer response n) = voters n"
  "learners (note_read_ack peer response n) = learners n" "joint (note_read_ack peer response n) = joint n"
  "joint_enter_index (note_read_ack peer response n) = joint_enter_index n"
  "base_voters (note_read_ack peer response n) = base_voters n"
  "base_learners (note_read_ack peer response n) = base_learners n"
  "base_joint (note_read_ack peer response n) = base_joint n"
  "base_joint_enter_index (note_read_ack peer response n) = base_joint_enter_index n"
  "log (note_read_ack peer response n) = log n" "commit_index (note_read_ack peer response n) = commit_index n"
  "applied_index (note_read_ack peer response n) = applied_index n"
  "leader_id (note_read_ack peer response n) = leader_id n"
  "next_index (note_read_ack peer response n) = next_index n"
  "match_index (note_read_ack peer response n) = match_index n"
  "config (note_read_ack peer response n) = config n" "votes (note_read_ack peer response n) = votes n"
  "pre_votes (note_read_ack peer response n) = pre_votes n"
  "read_round (note_read_ack peer response n) = read_round n"
  "read_index (note_read_ack peer response n) = read_index n"
  "snapshot_index (note_read_ack peer response n) = snapshot_index n"
  "snapshot_term (note_read_ack peer response n) = snapshot_term n"
  "transfer (note_read_ack peer response n) = transfer n"
  by (simp_all add: note_read_ack_def)

lemma release_read_frame [simp]:
  "nid (fst (release_read n)) = nid n" "role (fst (release_read n)) = role n"
  "hard_state (fst (release_read n)) = hard_state n" "voters (fst (release_read n)) = voters n"
  "learners (fst (release_read n)) = learners n" "joint (fst (release_read n)) = joint n"
  "joint_enter_index (fst (release_read n)) = joint_enter_index n"
  "base_voters (fst (release_read n)) = base_voters n" "base_learners (fst (release_read n)) = base_learners n"
  "base_joint (fst (release_read n)) = base_joint n"
  "base_joint_enter_index (fst (release_read n)) = base_joint_enter_index n" "log (fst (release_read n)) = log n"
  "commit_index (fst (release_read n)) = commit_index n" "applied_index (fst (release_read n)) = applied_index n"
  "leader_id (fst (release_read n)) = leader_id n" "next_index (fst (release_read n)) = next_index n"
  "match_index (fst (release_read n)) = match_index n" "config (fst (release_read n)) = config n"
  "votes (fst (release_read n)) = votes n" "pre_votes (fst (release_read n)) = pre_votes n"
  "read_acks (fst (release_read n)) = read_acks n" "read_round (fst (release_read n)) = read_round n"
  "snapshot_index (fst (release_read n)) = snapshot_index n"
  "snapshot_term (fst (release_read n)) = snapshot_term n" "transfer (fst (release_read n)) = transfer n"
  by (simp_all add: release_read_def split: option.splits)

lemma record_match_frame [simp]:
  "nid (record_match peer response n) = nid n" "role (record_match peer response n) = role n"
  "hard_state (record_match peer response n) = hard_state n" "voters (record_match peer response n) = voters n"
  "learners (record_match peer response n) = learners n" "joint (record_match peer response n) = joint n"
  "joint_enter_index (record_match peer response n) = joint_enter_index n"
  "base_voters (record_match peer response n) = base_voters n"
  "base_learners (record_match peer response n) = base_learners n"
  "base_joint (record_match peer response n) = base_joint n"
  "base_joint_enter_index (record_match peer response n) = base_joint_enter_index n"
  "log (record_match peer response n) = log n" "commit_index (record_match peer response n) = commit_index n"
  "applied_index (record_match peer response n) = applied_index n"
  "leader_id (record_match peer response n) = leader_id n" "config (record_match peer response n) = config n"
  "votes (record_match peer response n) = votes n" "pre_votes (record_match peer response n) = pre_votes n"
  "read_acks (record_match peer response n) = read_acks n"
  "read_round (record_match peer response n) = read_round n"
  "read_index (record_match peer response n) = read_index n"
  "snapshot_index (record_match peer response n) = snapshot_index n"
  "snapshot_term (record_match peer response n) = snapshot_term n"
  "transfer (record_match peer response n) = transfer n"
  by (simp_all add: record_match_def Let_def)

lemma forget_peer_frame [simp]:
  "nid (forget_peer peer n) = nid n" "role (forget_peer peer n) = role n"
  "hard_state (forget_peer peer n) = hard_state n" "voters (forget_peer peer n) = voters n"
  "learners (forget_peer peer n) = learners n" "joint (forget_peer peer n) = joint n"
  "joint_enter_index (forget_peer peer n) = joint_enter_index n"
  "base_voters (forget_peer peer n) = base_voters n" "base_learners (forget_peer peer n) = base_learners n"
  "base_joint (forget_peer peer n) = base_joint n"
  "base_joint_enter_index (forget_peer peer n) = base_joint_enter_index n" "log (forget_peer peer n) = log n"
  "commit_index (forget_peer peer n) = commit_index n" "applied_index (forget_peer peer n) = applied_index n"
  "leader_id (forget_peer peer n) = leader_id n" "config (forget_peer peer n) = config n"
  "votes (forget_peer peer n) = votes n" "pre_votes (forget_peer peer n) = pre_votes n"
  "read_acks (forget_peer peer n) = read_acks n" "read_round (forget_peer peer n) = read_round n"
  "read_index (forget_peer peer n) = read_index n" "snapshot_index (forget_peer peer n) = snapshot_index n"
  "snapshot_term (forget_peer peer n) = snapshot_term n" "transfer (forget_peer peer n) = transfer n"
  by (simp_all add: forget_peer_def)

lemma reset_quorum_frame [simp]:
  "nid (reset_quorum now n) = nid n" "role (reset_quorum now n) = role n"
  "hard_state (reset_quorum now n) = hard_state n" "voters (reset_quorum now n) = voters n"
  "learners (reset_quorum now n) = learners n" "joint (reset_quorum now n) = joint n"
  "joint_enter_index (reset_quorum now n) = joint_enter_index n"
  "base_voters (reset_quorum now n) = base_voters n" "base_learners (reset_quorum now n) = base_learners n"
  "base_joint (reset_quorum now n) = base_joint n"
  "base_joint_enter_index (reset_quorum now n) = base_joint_enter_index n" "log (reset_quorum now n) = log n"
  "commit_index (reset_quorum now n) = commit_index n" "applied_index (reset_quorum now n) = applied_index n"
  "leader_id (reset_quorum now n) = leader_id n" "next_index (reset_quorum now n) = next_index n"
  "match_index (reset_quorum now n) = match_index n" "config (reset_quorum now n) = config n"
  "votes (reset_quorum now n) = votes n" "pre_votes (reset_quorum now n) = pre_votes n"
  "read_acks (reset_quorum now n) = read_acks n" "read_round (reset_quorum now n) = read_round n"
  "read_index (reset_quorum now n) = read_index n" "snapshot_index (reset_quorum now n) = snapshot_index n"
  "snapshot_term (reset_quorum now n) = snapshot_term n" "transfer (reset_quorum now n) = transfer n"
  by (simp_all add: reset_quorum_def)

lemma observe_term_frame [simp]:
  "nid (fst (observe_term message n)) = nid n" "voters (fst (observe_term message n)) = voters n"
  "learners (fst (observe_term message n)) = learners n" "joint (fst (observe_term message n)) = joint n"
  "joint_enter_index (fst (observe_term message n)) = joint_enter_index n"
  "base_voters (fst (observe_term message n)) = base_voters n"
  "base_learners (fst (observe_term message n)) = base_learners n"
  "base_joint (fst (observe_term message n)) = base_joint n"
  "base_joint_enter_index (fst (observe_term message n)) = base_joint_enter_index n"
  "log (fst (observe_term message n)) = log n" "commit_index (fst (observe_term message n)) = commit_index n"
  "applied_index (fst (observe_term message n)) = applied_index n"
  "next_index (fst (observe_term message n)) = next_index n"
  "match_index (fst (observe_term message n)) = match_index n" "config (fst (observe_term message n)) = config n"
  "read_acks (fst (observe_term message n)) = read_acks n"
  "read_round (fst (observe_term message n)) = read_round n"
  "read_index (fst (observe_term message n)) = read_index n"
  "snapshot_index (fst (observe_term message n)) = snapshot_index n"
  "snapshot_term (fst (observe_term message n)) = snapshot_term n"
  "transfer (fst (observe_term message n)) = transfer n"
  by (simp_all add: observe_term_def Let_def)

lemma vote_request_frame [simp]:
  "nid (fst (vote_request message i t now n)) = nid n" "role (fst (vote_request message i t now n)) = role n"
  "voters (fst (vote_request message i t now n)) = voters n"
  "learners (fst (vote_request message i t now n)) = learners n"
  "joint (fst (vote_request message i t now n)) = joint n"
  "joint_enter_index (fst (vote_request message i t now n)) = joint_enter_index n"
  "base_voters (fst (vote_request message i t now n)) = base_voters n"
  "base_learners (fst (vote_request message i t now n)) = base_learners n"
  "base_joint (fst (vote_request message i t now n)) = base_joint n"
  "base_joint_enter_index (fst (vote_request message i t now n)) = base_joint_enter_index n"
  "log (fst (vote_request message i t now n)) = log n"
  "commit_index (fst (vote_request message i t now n)) = commit_index n"
  "applied_index (fst (vote_request message i t now n)) = applied_index n"
  "leader_id (fst (vote_request message i t now n)) = leader_id n"
  "next_index (fst (vote_request message i t now n)) = next_index n"
  "match_index (fst (vote_request message i t now n)) = match_index n"
  "config (fst (vote_request message i t now n)) = config n"
  "votes (fst (vote_request message i t now n)) = votes n"
  "pre_votes (fst (vote_request message i t now n)) = pre_votes n"
  "read_acks (fst (vote_request message i t now n)) = read_acks n"
  "read_round (fst (vote_request message i t now n)) = read_round n"
  "read_index (fst (vote_request message i t now n)) = read_index n"
  "snapshot_index (fst (vote_request message i t now n)) = snapshot_index n"
  "snapshot_term (fst (vote_request message i t now n)) = snapshot_term n"
  "transfer (fst (vote_request message i t now n)) = transfer n"
  by (simp_all add: vote_request_def Let_def)

section \<open>Configuration projection\<close>

lemma apply_operation_frame:
  assumes "apply_operation_on_append e op n = Inr n'"
  shows
  "nid n' = nid n" "hard_state n' = hard_state n" "base_voters n' = base_voters n"
  "base_learners n' = base_learners n" "base_joint n' = base_joint n"
  "base_joint_enter_index n' = base_joint_enter_index n" "log n' = log n"
  "commit_index n' = commit_index n" "applied_index n' = applied_index n" "leader_id n' = leader_id n"
  "next_index n' = next_index n" "match_index n' = match_index n" "config n' = config n"
  "votes n' = votes n" "pre_votes n' = pre_votes n" "read_acks n' = read_acks n"
  "read_round n' = read_round n" "read_index n' = read_index n" "snapshot_index n' = snapshot_index n"
  "snapshot_term n' = snapshot_term n" "transfer n' = transfer n"
  using assms by (induction e op n rule: apply_operation_on_append.induct)
    (auto simp: Let_def split: if_splits option.splits)

lemma apply_config_frame:
  assumes "apply_config_on_append e n = Inr n'"
  shows
  "nid n' = nid n" "hard_state n' = hard_state n" "base_voters n' = base_voters n"
  "base_learners n' = base_learners n" "base_joint n' = base_joint n"
  "base_joint_enter_index n' = base_joint_enter_index n" "log n' = log n"
  "commit_index n' = commit_index n" "applied_index n' = applied_index n" "leader_id n' = leader_id n"
  "next_index n' = next_index n" "match_index n' = match_index n" "config n' = config n"
  "votes n' = votes n" "pre_votes n' = pre_votes n" "read_acks n' = read_acks n"
  "read_round n' = read_round n" "read_index n' = read_index n" "snapshot_index n' = snapshot_index n"
  "snapshot_term n' = snapshot_term n" "transfer n' = transfer n"
  using assms by (auto simp: apply_config_on_append_def dest: apply_operation_frame split: sum.splits)

lemma rebuild_operation_frame [simp]:
  "nid (rebuild_operation e op n) = nid n" "role (rebuild_operation e op n) = role n"
  "hard_state (rebuild_operation e op n) = hard_state n" "base_voters (rebuild_operation e op n) = base_voters n"
  "base_learners (rebuild_operation e op n) = base_learners n"
  "base_joint (rebuild_operation e op n) = base_joint n"
  "base_joint_enter_index (rebuild_operation e op n) = base_joint_enter_index n"
  "log (rebuild_operation e op n) = log n" "commit_index (rebuild_operation e op n) = commit_index n"
  "applied_index (rebuild_operation e op n) = applied_index n"
  "leader_id (rebuild_operation e op n) = leader_id n" "next_index (rebuild_operation e op n) = next_index n"
  "match_index (rebuild_operation e op n) = match_index n" "config (rebuild_operation e op n) = config n"
  "votes (rebuild_operation e op n) = votes n" "pre_votes (rebuild_operation e op n) = pre_votes n"
  "read_acks (rebuild_operation e op n) = read_acks n" "read_round (rebuild_operation e op n) = read_round n"
  "read_index (rebuild_operation e op n) = read_index n"
  "snapshot_index (rebuild_operation e op n) = snapshot_index n"
  "snapshot_term (rebuild_operation e op n) = snapshot_term n" "transfer (rebuild_operation e op n) = transfer n"
  by (induction e op n rule: rebuild_operation.induct) (auto simp: Let_def split: option.splits)

lemma rebuild_loop_frame [simp]:
  "nid (rebuild_loop es n) = nid n" "role (rebuild_loop es n) = role n"
  "hard_state (rebuild_loop es n) = hard_state n" "base_voters (rebuild_loop es n) = base_voters n"
  "base_learners (rebuild_loop es n) = base_learners n" "base_joint (rebuild_loop es n) = base_joint n"
  "base_joint_enter_index (rebuild_loop es n) = base_joint_enter_index n" "log (rebuild_loop es n) = log n"
  "commit_index (rebuild_loop es n) = commit_index n" "applied_index (rebuild_loop es n) = applied_index n"
  "leader_id (rebuild_loop es n) = leader_id n" "next_index (rebuild_loop es n) = next_index n"
  "match_index (rebuild_loop es n) = match_index n" "config (rebuild_loop es n) = config n"
  "votes (rebuild_loop es n) = votes n" "pre_votes (rebuild_loop es n) = pre_votes n"
  "read_acks (rebuild_loop es n) = read_acks n" "read_round (rebuild_loop es n) = read_round n"
  "read_index (rebuild_loop es n) = read_index n" "snapshot_index (rebuild_loop es n) = snapshot_index n"
  "snapshot_term (rebuild_loop es n) = snapshot_term n" "transfer (rebuild_loop es n) = transfer n"
  by (induction es arbitrary: n) (auto split: option.splits)

lemma reset_membership_frame [simp]:
  "nid (reset_membership n) = nid n" "role (reset_membership n) = role n"
  "hard_state (reset_membership n) = hard_state n" "base_voters (reset_membership n) = base_voters n"
  "base_learners (reset_membership n) = base_learners n" "base_joint (reset_membership n) = base_joint n"
  "base_joint_enter_index (reset_membership n) = base_joint_enter_index n" "log (reset_membership n) = log n"
  "commit_index (reset_membership n) = commit_index n" "applied_index (reset_membership n) = applied_index n"
  "leader_id (reset_membership n) = leader_id n" "next_index (reset_membership n) = next_index n"
  "match_index (reset_membership n) = match_index n" "config (reset_membership n) = config n"
  "votes (reset_membership n) = votes n" "pre_votes (reset_membership n) = pre_votes n"
  "read_acks (reset_membership n) = read_acks n" "read_round (reset_membership n) = read_round n"
  "read_index (reset_membership n) = read_index n" "snapshot_index (reset_membership n) = snapshot_index n"
  "snapshot_term (reset_membership n) = snapshot_term n" "transfer (reset_membership n) = transfer n"
  by (simp_all add: reset_membership_def)

lemma rebuild_membership_frame [simp]:
  "nid (rebuild_membership_from_log n) = nid n" "hard_state (rebuild_membership_from_log n) = hard_state n"
  "base_voters (rebuild_membership_from_log n) = base_voters n"
  "base_learners (rebuild_membership_from_log n) = base_learners n"
  "base_joint (rebuild_membership_from_log n) = base_joint n"
  "base_joint_enter_index (rebuild_membership_from_log n) = base_joint_enter_index n"
  "log (rebuild_membership_from_log n) = log n" "commit_index (rebuild_membership_from_log n) = commit_index n"
  "applied_index (rebuild_membership_from_log n) = applied_index n"
  "leader_id (rebuild_membership_from_log n) = leader_id n"
  "next_index (rebuild_membership_from_log n) = next_index n"
  "match_index (rebuild_membership_from_log n) = match_index n"
  "config (rebuild_membership_from_log n) = config n" "votes (rebuild_membership_from_log n) = votes n"
  "pre_votes (rebuild_membership_from_log n) = pre_votes n"
  "read_acks (rebuild_membership_from_log n) = read_acks n"
  "read_round (rebuild_membership_from_log n) = read_round n"
  "read_index (rebuild_membership_from_log n) = read_index n"
  "snapshot_index (rebuild_membership_from_log n) = snapshot_index n"
  "snapshot_term (rebuild_membership_from_log n) = snapshot_term n"
  by (simp_all add: rebuild_membership_from_log_def Let_def)

lemma truncate_from_frame [simp]:
  "nid (truncate_from i n) = nid n" "hard_state (truncate_from i n) = hard_state n"
  "base_voters (truncate_from i n) = base_voters n" "base_learners (truncate_from i n) = base_learners n"
  "base_joint (truncate_from i n) = base_joint n"
  "base_joint_enter_index (truncate_from i n) = base_joint_enter_index n"
  "commit_index (truncate_from i n) = commit_index n" "applied_index (truncate_from i n) = applied_index n"
  "leader_id (truncate_from i n) = leader_id n" "next_index (truncate_from i n) = next_index n"
  "match_index (truncate_from i n) = match_index n" "config (truncate_from i n) = config n"
  "votes (truncate_from i n) = votes n" "pre_votes (truncate_from i n) = pre_votes n"
  "read_acks (truncate_from i n) = read_acks n" "read_round (truncate_from i n) = read_round n"
  "read_index (truncate_from i n) = read_index n" "snapshot_index (truncate_from i n) = snapshot_index n"
  "snapshot_term (truncate_from i n) = snapshot_term n"
  by (simp_all add: truncate_from_def)

lemma truncate_from_log [simp]: "log (truncate_from i n) = filter (\<lambda>e. e_index e < i) (log n)"
  by (simp add: truncate_from_def)

lemma append_config_frame [simp]:
  "nid (fst (append_config envelope n)) = nid n" "hard_state (fst (append_config envelope n)) = hard_state n"
  "base_voters (fst (append_config envelope n)) = base_voters n"
  "base_learners (fst (append_config envelope n)) = base_learners n"
  "base_joint (fst (append_config envelope n)) = base_joint n"
  "base_joint_enter_index (fst (append_config envelope n)) = base_joint_enter_index n"
  "commit_index (fst (append_config envelope n)) = commit_index n"
  "applied_index (fst (append_config envelope n)) = applied_index n"
  "leader_id (fst (append_config envelope n)) = leader_id n"
  "next_index (fst (append_config envelope n)) = next_index n"
  "match_index (fst (append_config envelope n)) = match_index n"
  "config (fst (append_config envelope n)) = config n" "votes (fst (append_config envelope n)) = votes n"
  "pre_votes (fst (append_config envelope n)) = pre_votes n"
  "read_acks (fst (append_config envelope n)) = read_acks n"
  "read_round (fst (append_config envelope n)) = read_round n"
  "read_index (fst (append_config envelope n)) = read_index n"
  "snapshot_index (fst (append_config envelope n)) = snapshot_index n"
  "snapshot_term (fst (append_config envelope n)) = snapshot_term n"
  "transfer (fst (append_config envelope n)) = transfer n"
  by (simp_all add: append_config_def Let_def apply_config_frame split: sum.splits)

section \<open>Compound operations\<close>

lemma finish_transfer_frame [simp]:
  "nid (fst (finish_leadership_transfer result t n)) = nid n"
  "hard_state (fst (finish_leadership_transfer result t n)) = hard_state n"
  "base_voters (fst (finish_leadership_transfer result t n)) = base_voters n"
  "base_learners (fst (finish_leadership_transfer result t n)) = base_learners n"
  "base_joint (fst (finish_leadership_transfer result t n)) = base_joint n"
  "base_joint_enter_index (fst (finish_leadership_transfer result t n)) = base_joint_enter_index n"
  "commit_index (fst (finish_leadership_transfer result t n)) = commit_index n"
  "applied_index (fst (finish_leadership_transfer result t n)) = applied_index n"
  "leader_id (fst (finish_leadership_transfer result t n)) = leader_id n"
  "next_index (fst (finish_leadership_transfer result t n)) = next_index n"
  "match_index (fst (finish_leadership_transfer result t n)) = match_index n"
  "config (fst (finish_leadership_transfer result t n)) = config n"
  "votes (fst (finish_leadership_transfer result t n)) = votes n"
  "pre_votes (fst (finish_leadership_transfer result t n)) = pre_votes n"
  "read_acks (fst (finish_leadership_transfer result t n)) = read_acks n"
  "read_round (fst (finish_leadership_transfer result t n)) = read_round n"
  "read_index (fst (finish_leadership_transfer result t n)) = read_index n"
  "snapshot_index (fst (finish_leadership_transfer result t n)) = snapshot_index n"
  "snapshot_term (fst (finish_leadership_transfer result t n)) = snapshot_term n"
  by (simp_all add: finish_leadership_transfer_def Let_def case_prod_beta split: option.splits sum.splits)

lemma resume_leave_frame [simp]:
  "nid (fst (resume_leave_joint n)) = nid n" "hard_state (fst (resume_leave_joint n)) = hard_state n"
  "base_voters (fst (resume_leave_joint n)) = base_voters n"
  "base_learners (fst (resume_leave_joint n)) = base_learners n"
  "base_joint (fst (resume_leave_joint n)) = base_joint n"
  "base_joint_enter_index (fst (resume_leave_joint n)) = base_joint_enter_index n"
  "commit_index (fst (resume_leave_joint n)) = commit_index n"
  "applied_index (fst (resume_leave_joint n)) = applied_index n"
  "leader_id (fst (resume_leave_joint n)) = leader_id n" "next_index (fst (resume_leave_joint n)) = next_index n"
  "match_index (fst (resume_leave_joint n)) = match_index n" "config (fst (resume_leave_joint n)) = config n"
  "votes (fst (resume_leave_joint n)) = votes n" "pre_votes (fst (resume_leave_joint n)) = pre_votes n"
  "read_acks (fst (resume_leave_joint n)) = read_acks n" "read_round (fst (resume_leave_joint n)) = read_round n"
  "read_index (fst (resume_leave_joint n)) = read_index n"
  "snapshot_index (fst (resume_leave_joint n)) = snapshot_index n"
  "snapshot_term (fst (resume_leave_joint n)) = snapshot_term n"
  "transfer (fst (resume_leave_joint n)) = transfer n"
  by (simp_all add: resume_leave_joint_def Let_def case_prod_beta split: option.splits sum.splits config_operation.splits)

lemma finish_inherited_frame [simp]:
  "nid (fst (finish_inherited_transfer n)) = nid n"
  "hard_state (fst (finish_inherited_transfer n)) = hard_state n"
  "base_voters (fst (finish_inherited_transfer n)) = base_voters n"
  "base_learners (fst (finish_inherited_transfer n)) = base_learners n"
  "base_joint (fst (finish_inherited_transfer n)) = base_joint n"
  "base_joint_enter_index (fst (finish_inherited_transfer n)) = base_joint_enter_index n"
  "commit_index (fst (finish_inherited_transfer n)) = commit_index n"
  "applied_index (fst (finish_inherited_transfer n)) = applied_index n"
  "leader_id (fst (finish_inherited_transfer n)) = leader_id n"
  "next_index (fst (finish_inherited_transfer n)) = next_index n"
  "match_index (fst (finish_inherited_transfer n)) = match_index n"
  "config (fst (finish_inherited_transfer n)) = config n" "votes (fst (finish_inherited_transfer n)) = votes n"
  "pre_votes (fst (finish_inherited_transfer n)) = pre_votes n"
  "read_acks (fst (finish_inherited_transfer n)) = read_acks n"
  "read_round (fst (finish_inherited_transfer n)) = read_round n"
  "read_index (fst (finish_inherited_transfer n)) = read_index n"
  "snapshot_index (fst (finish_inherited_transfer n)) = snapshot_index n"
  "snapshot_term (fst (finish_inherited_transfer n)) = snapshot_term n"
  by (simp_all add: finish_inherited_transfer_def Let_def case_prod_beta split: option.splits sum.splits)

lemma publish_entry_frame [simp]:
  "nid (fst (publish_entry e n)) = nid n" "role (fst (publish_entry e n)) = role n"
  "hard_state (fst (publish_entry e n)) = hard_state n" "voters (fst (publish_entry e n)) = voters n"
  "learners (fst (publish_entry e n)) = learners n" "joint (fst (publish_entry e n)) = joint n"
  "joint_enter_index (fst (publish_entry e n)) = joint_enter_index n"
  "base_voters (fst (publish_entry e n)) = base_voters n"
  "base_learners (fst (publish_entry e n)) = base_learners n"
  "base_joint (fst (publish_entry e n)) = base_joint n"
  "base_joint_enter_index (fst (publish_entry e n)) = base_joint_enter_index n"
  "leader_id (fst (publish_entry e n)) = leader_id n" "next_index (fst (publish_entry e n)) = next_index n"
  "match_index (fst (publish_entry e n)) = match_index n" "config (fst (publish_entry e n)) = config n"
  "votes (fst (publish_entry e n)) = votes n" "pre_votes (fst (publish_entry e n)) = pre_votes n"
  "read_acks (fst (publish_entry e n)) = read_acks n" "read_round (fst (publish_entry e n)) = read_round n"
  "read_index (fst (publish_entry e n)) = read_index n"
  "snapshot_index (fst (publish_entry e n)) = snapshot_index n"
  "snapshot_term (fst (publish_entry e n)) = snapshot_term n" "transfer (fst (publish_entry e n)) = transfer n"
  by (simp_all add: publish_entry_def Let_def case_prod_beta )

lemma propose_with_kind_frame [simp]:
  "nid (fst (propose_with_kind payload kind n)) = nid n" "role (fst (propose_with_kind payload kind n)) = role n"
  "hard_state (fst (propose_with_kind payload kind n)) = hard_state n"
  "voters (fst (propose_with_kind payload kind n)) = voters n"
  "learners (fst (propose_with_kind payload kind n)) = learners n"
  "joint (fst (propose_with_kind payload kind n)) = joint n"
  "joint_enter_index (fst (propose_with_kind payload kind n)) = joint_enter_index n"
  "base_voters (fst (propose_with_kind payload kind n)) = base_voters n"
  "base_learners (fst (propose_with_kind payload kind n)) = base_learners n"
  "base_joint (fst (propose_with_kind payload kind n)) = base_joint n"
  "base_joint_enter_index (fst (propose_with_kind payload kind n)) = base_joint_enter_index n"
  "leader_id (fst (propose_with_kind payload kind n)) = leader_id n"
  "next_index (fst (propose_with_kind payload kind n)) = next_index n"
  "match_index (fst (propose_with_kind payload kind n)) = match_index n"
  "config (fst (propose_with_kind payload kind n)) = config n"
  "votes (fst (propose_with_kind payload kind n)) = votes n"
  "pre_votes (fst (propose_with_kind payload kind n)) = pre_votes n"
  "read_acks (fst (propose_with_kind payload kind n)) = read_acks n"
  "read_round (fst (propose_with_kind payload kind n)) = read_round n"
  "read_index (fst (propose_with_kind payload kind n)) = read_index n"
  "snapshot_index (fst (propose_with_kind payload kind n)) = snapshot_index n"
  "snapshot_term (fst (propose_with_kind payload kind n)) = snapshot_term n"
  "transfer (fst (propose_with_kind payload kind n)) = transfer n"
  by (simp_all add: propose_with_kind_def Let_def case_prod_beta )

lemma set_peer_progress_frame [simp]:
  "nid (set_peer_progress peers next n) = nid n" "role (set_peer_progress peers next n) = role n"
  "hard_state (set_peer_progress peers next n) = hard_state n"
  "voters (set_peer_progress peers next n) = voters n" "learners (set_peer_progress peers next n) = learners n"
  "joint (set_peer_progress peers next n) = joint n"
  "joint_enter_index (set_peer_progress peers next n) = joint_enter_index n"
  "base_voters (set_peer_progress peers next n) = base_voters n"
  "base_learners (set_peer_progress peers next n) = base_learners n"
  "base_joint (set_peer_progress peers next n) = base_joint n"
  "base_joint_enter_index (set_peer_progress peers next n) = base_joint_enter_index n"
  "log (set_peer_progress peers next n) = log n" "commit_index (set_peer_progress peers next n) = commit_index n"
  "applied_index (set_peer_progress peers next n) = applied_index n"
  "leader_id (set_peer_progress peers next n) = leader_id n" "config (set_peer_progress peers next n) = config n"
  "votes (set_peer_progress peers next n) = votes n" "pre_votes (set_peer_progress peers next n) = pre_votes n"
  "read_acks (set_peer_progress peers next n) = read_acks n"
  "read_round (set_peer_progress peers next n) = read_round n"
  "read_index (set_peer_progress peers next n) = read_index n"
  "snapshot_index (set_peer_progress peers next n) = snapshot_index n"
  "snapshot_term (set_peer_progress peers next n) = snapshot_term n"
  "transfer (set_peer_progress peers next n) = transfer n"
  unfolding set_peer_progress_def by (induction peers arbitrary: n) simp_all

lemma assume_leadership_frame [simp]:
  "nid (assume_leadership e n) = nid n" "hard_state (assume_leadership e n) = hard_state n"
  "voters (assume_leadership e n) = voters n" "learners (assume_leadership e n) = learners n"
  "joint (assume_leadership e n) = joint n" "joint_enter_index (assume_leadership e n) = joint_enter_index n"
  "base_voters (assume_leadership e n) = base_voters n" "base_learners (assume_leadership e n) = base_learners n"
  "base_joint (assume_leadership e n) = base_joint n"
  "base_joint_enter_index (assume_leadership e n) = base_joint_enter_index n"
  "commit_index (assume_leadership e n) = commit_index n"
  "applied_index (assume_leadership e n) = applied_index n" "config (assume_leadership e n) = config n"
  "votes (assume_leadership e n) = votes n" "pre_votes (assume_leadership e n) = pre_votes n"
  "read_acks (assume_leadership e n) = read_acks n" "read_round (assume_leadership e n) = read_round n"
  "read_index (assume_leadership e n) = read_index n" "snapshot_index (assume_leadership e n) = snapshot_index n"
  "snapshot_term (assume_leadership e n) = snapshot_term n" "transfer (assume_leadership e n) = transfer n"
  by (simp_all add: assume_leadership_def Let_def case_prod_beta )

lemma become_leader_frame [simp]:
  "nid (fst (become_leader n)) = nid n" "hard_state (fst (become_leader n)) = hard_state n"
  "base_voters (fst (become_leader n)) = base_voters n" "base_learners (fst (become_leader n)) = base_learners n"
  "base_joint (fst (become_leader n)) = base_joint n"
  "base_joint_enter_index (fst (become_leader n)) = base_joint_enter_index n"
  "config (fst (become_leader n)) = config n" "votes (fst (become_leader n)) = votes n"
  "pre_votes (fst (become_leader n)) = pre_votes n" "read_acks (fst (become_leader n)) = read_acks n"
  "read_round (fst (become_leader n)) = read_round n" "read_index (fst (become_leader n)) = read_index n"
  "snapshot_index (fst (become_leader n)) = snapshot_index n"
  "snapshot_term (fst (become_leader n)) = snapshot_term n"
  by (simp_all add: become_leader_def Let_def case_prod_beta split: option.splits)

lemma start_election_frame [simp]:
  "nid (fst (start_election n)) = nid n" "base_voters (fst (start_election n)) = base_voters n"
  "base_learners (fst (start_election n)) = base_learners n" "base_joint (fst (start_election n)) = base_joint n"
  "base_joint_enter_index (fst (start_election n)) = base_joint_enter_index n"
  "config (fst (start_election n)) = config n" "read_acks (fst (start_election n)) = read_acks n"
  "read_round (fst (start_election n)) = read_round n" "read_index (fst (start_election n)) = read_index n"
  "snapshot_index (fst (start_election n)) = snapshot_index n"
  "snapshot_term (fst (start_election n)) = snapshot_term n"
  by (simp_all add: start_election_def Let_def case_prod_beta )

lemma start_pre_vote_frame [simp]:
  "nid (fst (start_pre_vote now n)) = nid n" "base_voters (fst (start_pre_vote now n)) = base_voters n"
  "base_learners (fst (start_pre_vote now n)) = base_learners n"
  "base_joint (fst (start_pre_vote now n)) = base_joint n"
  "base_joint_enter_index (fst (start_pre_vote now n)) = base_joint_enter_index n"
  "config (fst (start_pre_vote now n)) = config n" "read_acks (fst (start_pre_vote now n)) = read_acks n"
  "read_round (fst (start_pre_vote now n)) = read_round n"
  "read_index (fst (start_pre_vote now n)) = read_index n"
  "snapshot_index (fst (start_pre_vote now n)) = snapshot_index n"
  "snapshot_term (fst (start_pre_vote now n)) = snapshot_term n"
  by (simp_all add: start_pre_vote_def Let_def case_prod_beta )

fun loop_node :: "node \<times> raft_effect list + node \<times> raft_effect list \<times> entry list \<Rightarrow> node" where
  "loop_node (Inl (n, _)) = n"
| "loop_node (Inr (n, _, _)) = n"

lemma accept_entry_cases:
  obtains (gap) "accept_entry message e n effects =
        Inl (n, effects @ [Trace ''append_gap_rejected'' (e_index e),
                 make_append_response n message False (last_index n) None (sat_add (last_index n) 1)])"
      "e_index e \<noteq> sat_add (last_index n) 1"
    | (bad) "accept_entry message e n effects = Inl (n, [Trace ''invalid_config_rejected'' (e_index e)])"
        "is_config (e_kind e)"
    | (conf) n1 where "accept_entry message e n effects = Inr (push_entry e n1, effects)"
        "is_config (e_kind e)" "apply_config_on_append e n = Inr n1" "e_index e = sat_add (last_index n) 1"
    | (plain) "accept_entry message e n effects = Inr (push_entry e n, effects)"
        "\<not> is_config (e_kind e)" "e_index e = sat_add (last_index n) 1"
  using that
  by (cases "e_index e = sat_add (last_index n) 1"; cases "is_config (e_kind e)";
      cases "apply_config_on_append e n") (simp_all add: accept_entry_def)

lemma find_index_truncated: "find_index i (filter (\<lambda>e. e_index e < i) l) = None"
  by (auto simp: find_index_def find_None_iff)

text \<open>A property survives the follower's append loop when it survives its three kinds of update.\<close>

lemma append_loop_rule:
  assumes start: "P n"
    and trunc: "\<And>n e existing. P n \<Longrightarrow> e \<in> set es \<Longrightarrow> find_index (e_index e) (log n) = Some existing \<Longrightarrow>
          e_term existing \<noteq> e_term e \<Longrightarrow> commit_index n < e_index e \<Longrightarrow> P (truncate_from (e_index e) n)"
    and conf: "\<And>n e n1. P n \<Longrightarrow> e \<in> set es \<Longrightarrow> is_config (e_kind e) \<Longrightarrow>
          apply_config_on_append e n = Inr n1 \<Longrightarrow> e_index e = sat_add (last_index n) 1 \<Longrightarrow>
          find_index (e_index e) (log n) = None \<Longrightarrow> P (push_entry e n1)"
    and plain: "\<And>n e. P n \<Longrightarrow> e \<in> set es \<Longrightarrow> \<not> is_config (e_kind e) \<Longrightarrow>
          e_index e = sat_add (last_index n) 1 \<Longrightarrow> find_index (e_index e) (log n) = None \<Longrightarrow>
          P (push_entry e n)"
  shows "P (loop_node (append_loop message es n effects appended))"
  using assms
proof (induction es arbitrary: n effects appended)
  case (Cons e es)
  have IH: "P n' \<Longrightarrow> P (loop_node (append_loop message es n' effects' appended'))" for n' effects' appended'
    by (rule Cons.IH) (auto intro: Cons.prems)
  have accept: "P (loop_node (case accept_entry message e n' effects' of Inl r \<Rightarrow> Inl r
        | Inr (n1, effects1) \<Rightarrow> append_loop message es n1 effects1 (appended @ [e])))"
    if "P n'" "find_index (e_index e) (log n') = None" for n' effects'
  proof (cases rule: accept_entry_cases[of message e n' effects'])
    case (conf n1)
    then have "P (push_entry e n1)" using that Cons.prems(3) by (metis list.set_intros(1))
    then show ?thesis using conf IH by simp
  next
    case plain
    then have "P (push_entry e n')" using that Cons.prems(4) by (metis list.set_intros(1))
    then show ?thesis using plain IH by simp
  qed (use that in simp_all)
  show ?case
  proof (cases "find_index (e_index e) (log n)")
    case None
    then show ?thesis using accept[OF Cons.prems(1)] by simp
  next
    case (Some existing)
    then show ?thesis
      using Cons.prems(1) IH accept[OF Cons.prems(2)[OF Cons.prems(1) _ Some]]
      by (auto simp: find_index_truncated not_le)
  qed
qed simp

lemma append_loop_frame [simp]:
  "nid (loop_node (append_loop message es n effects appended)) = nid n"
  "hard_state (loop_node (append_loop message es n effects appended)) = hard_state n"
  "base_voters (loop_node (append_loop message es n effects appended)) = base_voters n"
  "base_learners (loop_node (append_loop message es n effects appended)) = base_learners n"
  "base_joint (loop_node (append_loop message es n effects appended)) = base_joint n"
  "base_joint_enter_index (loop_node (append_loop message es n effects appended)) = base_joint_enter_index n"
  "commit_index (loop_node (append_loop message es n effects appended)) = commit_index n"
  "applied_index (loop_node (append_loop message es n effects appended)) = applied_index n"
  "leader_id (loop_node (append_loop message es n effects appended)) = leader_id n"
  "next_index (loop_node (append_loop message es n effects appended)) = next_index n"
  "match_index (loop_node (append_loop message es n effects appended)) = match_index n"
  "config (loop_node (append_loop message es n effects appended)) = config n"
  "votes (loop_node (append_loop message es n effects appended)) = votes n"
  "pre_votes (loop_node (append_loop message es n effects appended)) = pre_votes n"
  "read_acks (loop_node (append_loop message es n effects appended)) = read_acks n"
  "read_round (loop_node (append_loop message es n effects appended)) = read_round n"
  "read_index (loop_node (append_loop message es n effects appended)) = read_index n"
  "snapshot_index (loop_node (append_loop message es n effects appended)) = snapshot_index n"
  "snapshot_term (loop_node (append_loop message es n effects appended)) = snapshot_term n"
proof -
  have "(\<lambda>n'. nid n' = nid n \<and>
      hard_state n' = hard_state n \<and>
      base_voters n' = base_voters n \<and>
      base_learners n' = base_learners n \<and>
      base_joint n' = base_joint n \<and>
      base_joint_enter_index n' = base_joint_enter_index n \<and>
      commit_index n' = commit_index n \<and>
      applied_index n' = applied_index n \<and>
      leader_id n' = leader_id n \<and>
      next_index n' = next_index n \<and>
      match_index n' = match_index n \<and>
      config n' = config n \<and>
      votes n' = votes n \<and>
      pre_votes n' = pre_votes n \<and>
      read_acks n' = read_acks n \<and>
      read_round n' = read_round n \<and>
      read_index n' = read_index n \<and>
      snapshot_index n' = snapshot_index n \<and>
      snapshot_term n' = snapshot_term n) (loop_node (append_loop message es n effects appended))"
  proof (rule append_loop_rule, goal_cases)
    case (3 n' e n1)
    from 3(1) show ?case by (simp add: apply_config_frame[OF 3(4)])
  qed simp_all
  then show "nid (loop_node (append_loop message es n effects appended)) = nid n" "hard_state (loop_node (append_loop message es n effects appended)) = hard_state n" "base_voters (loop_node (append_loop message es n effects appended)) = base_voters n" "base_learners (loop_node (append_loop message es n effects appended)) = base_learners n" "base_joint (loop_node (append_loop message es n effects appended)) = base_joint n" "base_joint_enter_index (loop_node (append_loop message es n effects appended)) = base_joint_enter_index n" "commit_index (loop_node (append_loop message es n effects appended)) = commit_index n" "applied_index (loop_node (append_loop message es n effects appended)) = applied_index n" "leader_id (loop_node (append_loop message es n effects appended)) = leader_id n" "next_index (loop_node (append_loop message es n effects appended)) = next_index n" "match_index (loop_node (append_loop message es n effects appended)) = match_index n" "config (loop_node (append_loop message es n effects appended)) = config n" "votes (loop_node (append_loop message es n effects appended)) = votes n" "pre_votes (loop_node (append_loop message es n effects appended)) = pre_votes n" "read_acks (loop_node (append_loop message es n effects appended)) = read_acks n" "read_round (loop_node (append_loop message es n effects appended)) = read_round n" "read_index (loop_node (append_loop message es n effects appended)) = read_index n" "snapshot_index (loop_node (append_loop message es n effects appended)) = snapshot_index n" "snapshot_term (loop_node (append_loop message es n effects appended)) = snapshot_term n"
    by simp_all
qed

lemma handle_append_request_node:
  "fst (handle_append_request message request now n0) =
     (if m_term message < cur_term n0 then n0
      else
        let n = follow_leader message now n0
        in if term_at n (aq_prev_index request) \<noteq> Some (aq_prev_term request) then n
           else
             let r = append_loop message (aq_entries request) n [] []
             in if is_ok r then fst (learn_commit (aq_leader_commit request) (loop_node r))
                else loop_node r)"
  by (auto simp add: handle_append_request_def Let_def case_prod_beta split: sum.splits)

lemma handle_append_request_frame [simp]:
  "nid (fst (handle_append_request message request now n)) = nid n"
  "hard_state (fst (handle_append_request message request now n)) = hard_state n"
  "base_voters (fst (handle_append_request message request now n)) = base_voters n"
  "base_learners (fst (handle_append_request message request now n)) = base_learners n"
  "base_joint (fst (handle_append_request message request now n)) = base_joint n"
  "base_joint_enter_index (fst (handle_append_request message request now n)) = base_joint_enter_index n"
  "next_index (fst (handle_append_request message request now n)) = next_index n"
  "match_index (fst (handle_append_request message request now n)) = match_index n"
  "config (fst (handle_append_request message request now n)) = config n"
  "votes (fst (handle_append_request message request now n)) = votes n"
  "pre_votes (fst (handle_append_request message request now n)) = pre_votes n"
  "read_acks (fst (handle_append_request message request now n)) = read_acks n"
  "read_round (fst (handle_append_request message request now n)) = read_round n"
  "read_index (fst (handle_append_request message request now n)) = read_index n"
  "snapshot_index (fst (handle_append_request message request now n)) = snapshot_index n"
  "snapshot_term (fst (handle_append_request message request now n)) = snapshot_term n"
  by (simp_all add: handle_append_request_node Let_def)

lemma append_response_from_peer_node:
  "fst (append_response_from_peer peer response n) =
     (if ap_success response
      then fst (release_read (note_read_ack peer response (fst (advance_commit (record_match peer response n)))))
      else n\<lparr>next_index := bmap_insert peer (max (ap_conflict_index response) 1) (next_index n)\<rparr>)"
  by (simp add: append_response_from_peer_def Let_def case_prod_beta)

lemma append_response_from_peer_frame [simp]:
  "nid (fst (append_response_from_peer peer response n)) = nid n"
  "role (fst (append_response_from_peer peer response n)) = role n"
  "hard_state (fst (append_response_from_peer peer response n)) = hard_state n"
  "voters (fst (append_response_from_peer peer response n)) = voters n"
  "learners (fst (append_response_from_peer peer response n)) = learners n"
  "joint (fst (append_response_from_peer peer response n)) = joint n"
  "joint_enter_index (fst (append_response_from_peer peer response n)) = joint_enter_index n"
  "base_voters (fst (append_response_from_peer peer response n)) = base_voters n"
  "base_learners (fst (append_response_from_peer peer response n)) = base_learners n"
  "base_joint (fst (append_response_from_peer peer response n)) = base_joint n"
  "base_joint_enter_index (fst (append_response_from_peer peer response n)) = base_joint_enter_index n"
  "log (fst (append_response_from_peer peer response n)) = log n"
  "leader_id (fst (append_response_from_peer peer response n)) = leader_id n"
  "config (fst (append_response_from_peer peer response n)) = config n"
  "votes (fst (append_response_from_peer peer response n)) = votes n"
  "pre_votes (fst (append_response_from_peer peer response n)) = pre_votes n"
  "read_round (fst (append_response_from_peer peer response n)) = read_round n"
  "snapshot_index (fst (append_response_from_peer peer response n)) = snapshot_index n"
  "snapshot_term (fst (append_response_from_peer peer response n)) = snapshot_term n"
  "transfer (fst (append_response_from_peer peer response n)) = transfer n"
  by (simp_all add: append_response_from_peer_node Let_def case_prod_beta )

lemma handle_append_response_frame [simp]:
  "nid (fst (handle_append_response message response now n)) = nid n"
  "role (fst (handle_append_response message response now n)) = role n"
  "hard_state (fst (handle_append_response message response now n)) = hard_state n"
  "voters (fst (handle_append_response message response now n)) = voters n"
  "learners (fst (handle_append_response message response now n)) = learners n"
  "joint (fst (handle_append_response message response now n)) = joint n"
  "joint_enter_index (fst (handle_append_response message response now n)) = joint_enter_index n"
  "base_voters (fst (handle_append_response message response now n)) = base_voters n"
  "base_learners (fst (handle_append_response message response now n)) = base_learners n"
  "base_joint (fst (handle_append_response message response now n)) = base_joint n"
  "base_joint_enter_index (fst (handle_append_response message response now n)) = base_joint_enter_index n"
  "log (fst (handle_append_response message response now n)) = log n"
  "leader_id (fst (handle_append_response message response now n)) = leader_id n"
  "config (fst (handle_append_response message response now n)) = config n"
  "votes (fst (handle_append_response message response now n)) = votes n"
  "pre_votes (fst (handle_append_response message response now n)) = pre_votes n"
  "read_round (fst (handle_append_response message response now n)) = read_round n"
  "snapshot_index (fst (handle_append_response message response now n)) = snapshot_index n"
  "snapshot_term (fst (handle_append_response message response now n)) = snapshot_term n"
  "transfer (fst (handle_append_response message response now n)) = transfer n"
  by (simp_all add: handle_append_response_def Let_def case_prod_beta split: option.splits)

lemma handle_vote_resp_frame [simp]:
  "nid (fst (handle_vote_resp message granted n)) = nid n"
  "hard_state (fst (handle_vote_resp message granted n)) = hard_state n"
  "base_voters (fst (handle_vote_resp message granted n)) = base_voters n"
  "base_learners (fst (handle_vote_resp message granted n)) = base_learners n"
  "base_joint (fst (handle_vote_resp message granted n)) = base_joint n"
  "base_joint_enter_index (fst (handle_vote_resp message granted n)) = base_joint_enter_index n"
  "config (fst (handle_vote_resp message granted n)) = config n"
  "pre_votes (fst (handle_vote_resp message granted n)) = pre_votes n"
  "read_acks (fst (handle_vote_resp message granted n)) = read_acks n"
  "read_round (fst (handle_vote_resp message granted n)) = read_round n"
  "read_index (fst (handle_vote_resp message granted n)) = read_index n"
  "snapshot_index (fst (handle_vote_resp message granted n)) = snapshot_index n"
  "snapshot_term (fst (handle_vote_resp message granted n)) = snapshot_term n"
  by (simp_all add: handle_vote_resp_def Let_def case_prod_beta )

lemma handle_pre_vote_resp_frame [simp]:
  "nid (fst (handle_pre_vote_resp message granted n)) = nid n"
  "base_voters (fst (handle_pre_vote_resp message granted n)) = base_voters n"
  "base_learners (fst (handle_pre_vote_resp message granted n)) = base_learners n"
  "base_joint (fst (handle_pre_vote_resp message granted n)) = base_joint n"
  "base_joint_enter_index (fst (handle_pre_vote_resp message granted n)) = base_joint_enter_index n"
  "config (fst (handle_pre_vote_resp message granted n)) = config n"
  "read_acks (fst (handle_pre_vote_resp message granted n)) = read_acks n"
  "read_round (fst (handle_pre_vote_resp message granted n)) = read_round n"
  "read_index (fst (handle_pre_vote_resp message granted n)) = read_index n"
  "snapshot_index (fst (handle_pre_vote_resp message granted n)) = snapshot_index n"
  "snapshot_term (fst (handle_pre_vote_resp message granted n)) = snapshot_term n"
  by (simp_all add: handle_pre_vote_resp_def Let_def case_prod_beta )

lemma dispatch_frame [simp]:
  "nid (fst (dispatch message now n)) = nid n" "base_voters (fst (dispatch message now n)) = base_voters n"
  "base_learners (fst (dispatch message now n)) = base_learners n"
  "base_joint (fst (dispatch message now n)) = base_joint n"
  "base_joint_enter_index (fst (dispatch message now n)) = base_joint_enter_index n"
  "config (fst (dispatch message now n)) = config n" "read_round (fst (dispatch message now n)) = read_round n"
  "snapshot_index (fst (dispatch message now n)) = snapshot_index n"
  "snapshot_term (fst (dispatch message now n)) = snapshot_term n"
  by (simp_all add: dispatch_def Let_def case_prod_beta split: message_kind.splits)

lemma on_message_frame [simp]:
  "nid (fst (on_message_at message now n)) = nid n"
  "base_voters (fst (on_message_at message now n)) = base_voters n"
  "base_learners (fst (on_message_at message now n)) = base_learners n"
  "base_joint (fst (on_message_at message now n)) = base_joint n"
  "base_joint_enter_index (fst (on_message_at message now n)) = base_joint_enter_index n"
  "config (fst (on_message_at message now n)) = config n"
  "read_round (fst (on_message_at message now n)) = read_round n"
  "snapshot_index (fst (on_message_at message now n)) = snapshot_index n"
  "snapshot_term (fst (on_message_at message now n)) = snapshot_term n"
  by (simp_all add: on_message_at_def Let_def case_prod_beta )

lemma tick_timers_node:
  "fst (tick_timers now n0) =
     (case check_quorum now n0 of
        Inl r \<Rightarrow> fst r
      | Inr n \<Rightarrow>
          if role n = Leader \<and> heartbeat_deadline n \<le> now then n\<lparr>heartbeat_deadline := now + heartbeat (config n)\<rparr>
          else if role n \<noteq> Leader \<and> election_deadline n \<le> now then fst (start_pre_vote now n)
          else n)"
  by (simp add: tick_timers_def Let_def split: sum.splits)

lemma tick_timers_frame [simp]:
  "nid (fst (tick_timers now n)) = nid n" "base_voters (fst (tick_timers now n)) = base_voters n"
  "base_learners (fst (tick_timers now n)) = base_learners n"
  "base_joint (fst (tick_timers now n)) = base_joint n"
  "base_joint_enter_index (fst (tick_timers now n)) = base_joint_enter_index n"
  "config (fst (tick_timers now n)) = config n" "read_acks (fst (tick_timers now n)) = read_acks n"
  "read_round (fst (tick_timers now n)) = read_round n" "read_index (fst (tick_timers now n)) = read_index n"
  "snapshot_index (fst (tick_timers now n)) = snapshot_index n"
  "snapshot_term (fst (tick_timers now n)) = snapshot_term n"
  by (simp_all add: tick_timers_node check_quorum_def Let_def case_prod_beta )

lemma tick_frame [simp]:
  "nid (fst (tick now n)) = nid n" "base_voters (fst (tick now n)) = base_voters n"
  "base_learners (fst (tick now n)) = base_learners n" "base_joint (fst (tick now n)) = base_joint n"
  "base_joint_enter_index (fst (tick now n)) = base_joint_enter_index n" "config (fst (tick now n)) = config n"
  "read_acks (fst (tick now n)) = read_acks n" "read_round (fst (tick now n)) = read_round n"
  "read_index (fst (tick now n)) = read_index n" "snapshot_index (fst (tick now n)) = snapshot_index n"
  "snapshot_term (fst (tick now n)) = snapshot_term n"
  by (simp_all add: tick_def Let_def case_prod_beta split: sum.splits)

lemma on_timer_frame [simp]:
  "nid (fst (on_timer now timer n)) = nid n" "base_voters (fst (on_timer now timer n)) = base_voters n"
  "base_learners (fst (on_timer now timer n)) = base_learners n"
  "base_joint (fst (on_timer now timer n)) = base_joint n"
  "base_joint_enter_index (fst (on_timer now timer n)) = base_joint_enter_index n"
  "config (fst (on_timer now timer n)) = config n" "read_acks (fst (on_timer now timer n)) = read_acks n"
  "read_round (fst (on_timer now timer n)) = read_round n"
  "read_index (fst (on_timer now timer n)) = read_index n"
  "snapshot_index (fst (on_timer now timer n)) = snapshot_index n"
  "snapshot_term (fst (on_timer now timer n)) = snapshot_term n"
  by (simp_all add: on_timer_def Let_def case_prod_beta split: timer_kind.splits)

end
