(* ===== verification/RaftInv.thy ===== *)
theory RaftInv
  imports RaftFrame
begin

text \<open>
  The node's own invariant: the log is contiguous above the snapshot base and
  \<open>snapshot_index \<le> applied_index \<le> commit_index \<le> last_index\<close>.  Every public operation keeps it,
  so \<open>RaftNode::invariants\<close> never reports a violation.
\<close>

section \<open>Contiguous logs\<close>

definition indexed :: "nat \<Rightarrow> entry list \<Rightarrow> bool" where
  "indexed s l \<longleftrightarrow> map e_index l = [s + 1 ..< s + 1 + length l]"

definition node_wf :: "node \<Rightarrow> bool" where
  "node_wf n \<longleftrightarrow>
     indexed (snapshot_index n) (log n) \<and> snapshot_index n \<le> applied_index n \<and>
     applied_index n \<le> commit_index n \<and> commit_index n \<le> last_index n \<and> snapshot_index n < u64_max"

lemma indexed_Nil [simp]: "indexed s []"
  by (simp add: indexed_def)

lemma indexed_nth: "indexed s l \<Longrightarrow> k < length l \<Longrightarrow> e_index (l ! k) = s + 1 + k"
  unfolding indexed_def by (metis length_map nth_map nth_upt nat_add_left_cancel_less)

lemma indexed_iff: "indexed s l \<longleftrightarrow> (\<forall>k < length l. e_index (l ! k) = s + 1 + k)"
proof
  assume "\<forall>k < length l. e_index (l ! k) = s + 1 + k"
  then show "indexed s l"
    unfolding indexed_def by (intro nth_equalityI) (simp_all del: upt_Suc)
qed (simp add: indexed_nth)

lemma indexed_snoc: "indexed s (l @ [e]) \<longleftrightarrow> indexed s l \<and> e_index e = s + length l + 1"
  by (auto simp: indexed_def)

lemma indexed_take: "indexed s l \<Longrightarrow> indexed s (take k l)"
  by (simp add: indexed_iff)

lemma indexed_drop: "indexed s l \<Longrightarrow> indexed (s + k) (drop k l)"
  by (simp add: indexed_iff)

lemma indexed_last: "indexed s l \<Longrightarrow> l \<noteq> [] \<Longrightarrow> e_index (last l) = s + length l"
  by (simp add: last_conv_nth indexed_nth)

lemma indexed_Cons: "indexed s (e # l) \<longleftrightarrow> e_index e = s + 1 \<and> indexed (s + 1) l"
  by (simp add: indexed_def upt_conv_Cons del: upt_Suc)

lemma indexed_bounds: "indexed s l \<Longrightarrow> e \<in> set l \<Longrightarrow> s < e_index e \<and> e_index e \<le> s + length l"
  by (auto simp: in_set_conv_nth indexed_nth)

lemma find_indexed:
  "indexed s l \<Longrightarrow>
   find_index i l = (if s < i \<and> i \<le> s + length l then Some (l ! (i - s - 1)) else None)"
proof (induction l arbitrary: s)
  case (Cons e l)
  then show ?case
    using Cons.IH[of "s + 1"] by (auto simp: find_index_def indexed_Cons nth_Cons')
qed (simp add: find_index_def)

lemma filter_less_indexed: "indexed s l \<Longrightarrow> filter (\<lambda>e. e_index e < i) l = take (i - s - 1) l"
proof (induction l arbitrary: s)
  case (Cons e l)
  then show ?case
    using Cons.IH[of "s + 1"] by (auto simp: indexed_Cons take_Cons')
qed simp

lemma filter_le_indexed: "indexed s l \<Longrightarrow> filter (\<lambda>e. i \<le> e_index e) l = drop (i - s - 1) l"
proof (induction l arbitrary: s)
  case (Cons e l)
  then show ?case
    using Cons.IH[of "s + 1"] by (auto simp: indexed_Cons drop_Cons')
qed simp

lemma filter_greater_indexed: "indexed s l \<Longrightarrow> filter (\<lambda>e. i < e_index e) l = drop (i - s) l"
  using filter_le_indexed[of s l "Suc i"] by (simp add: Suc_le_eq)

lemma last_index_indexed: "indexed (snapshot_index n) (log n) \<Longrightarrow> last_index n = snapshot_index n + length (log n)"
  by (simp add: last_index_def indexed_last)

lemma last_index_cong: "log n' = log n \<Longrightarrow> snapshot_index n' = snapshot_index n \<Longrightarrow> last_index n' = last_index n"
  by (simp add: last_index_def)

lemma last_index_push [simp]: "last_index (push_entry e n) = e_index e"
  by (simp add: last_index_def)

lemma node_wf_last: "node_wf n \<Longrightarrow> last_index n = snapshot_index n + length (log n)"
  by (simp add: node_wf_def last_index_indexed)

lemma node_wf_cong:
  assumes "log n' = log n" "snapshot_index n' = snapshot_index n" "applied_index n' = applied_index n"
    "commit_index n' = commit_index n"
  shows "node_wf n' = node_wf n"
  using assms last_index_cong[of n' n] by (simp add: node_wf_def)

text \<open>The invariant report is empty on a well-formed node.\<close>

lemma windows_indexed: "indexed s l \<Longrightarrow> (a, b) \<in> set (log_windows l) \<Longrightarrow> e_index b = e_index a + 1"
  by (auto simp: log_windows_def in_set_zip indexed_nth nth_tl)

lemma node_wf_invariants: "node_wf n \<Longrightarrow> node_invariants n = []"
  by (auto simp: node_invariants_def node_wf_def filter_empty_conv dest: windows_indexed)

section \<open>Commit and apply\<close>

lemma apply_scan_indexed:
  assumes "indexed s l" "s \<le> applied" "applied \<le> commit" "commit \<le> s + length l"
  shows "apply_scan l commit applied = (take (commit - applied) (drop (applied - s) l), commit)"
  using assms
proof (induction "commit - applied" arbitrary: applied)
  case 0
  then show ?case by (subst apply_scan.simps) simp
next
  case (Suc d)
  then have f: "find_index (applied + 1) l = Some (l ! (applied - s))"
    by (simp add: find_indexed)
  have "drop (applied - s) l = l ! (applied - s) # drop (applied + 1 - s) l"
    using Suc.prems Suc.hyps(2) by (simp add: Cons_nth_drop_Suc Suc_diff_le)
  moreover have "commit - applied = Suc (commit - (applied + 1))" using Suc.hyps(2) by simp
  moreover have "apply_scan l commit (applied + 1) =
      (take (commit - (applied + 1)) (drop (applied + 1 - s) l), commit)"
    using Suc by (intro Suc.hyps(1)) auto
  ultimately show ?case
    using Suc.hyps(2) f by (subst apply_scan.simps) simp
qed

lemma apply_committed_indexed:
  assumes "indexed (snapshot_index n) (log n)" "snapshot_index n \<le> applied_index n"
    "applied_index n \<le> commit_index n" "commit_index n \<le> last_index n"
  shows "apply_committed n =
     (n\<lparr>applied_index := commit_index n\<rparr>,
      if applied_index n = commit_index n then []
      else [Apply (take (commit_index n - applied_index n) (drop (applied_index n - snapshot_index n) (log n)))])"
  using assms apply_scan_indexed[of "snapshot_index n" "log n" "applied_index n" "commit_index n"]
  by (auto simp: apply_committed_def last_index_indexed)

lemma foldl_commit_bounds:
  "foldl (\<lambda>c k. if P k then k else c) c0 ks = c0 \<or>
   (foldl (\<lambda>c k. if P k then k else c) c0 ks \<in> set ks \<and> P (foldl (\<lambda>c k. if P k then k else c) c0 ks))"
  by (induction ks rule: rev_induct) auto

lemma commit_scan_cases:
  "commit_scan n = commit_index n \<or>
   (commit_index n < commit_scan n \<and> commit_scan n \<le> last_index n \<and>
    commit_quorum n (commit_scan n) \<and> term_at n (commit_scan n) = Some (cur_term n))"
  unfolding commit_scan_def
  using foldl_commit_bounds[of
      "\<lambda>k. commit_quorum n k \<and> term_at n k = Some (cur_term n)" "commit_index n"
      "[commit_index n + 1 ..< last_index n + 1]"]
  by (auto simp del: upt_Suc)

lemma advance_commit_wf:
  assumes "node_wf n"
  shows "advance_commit n =
     (n\<lparr>commit_index := commit_scan n,
        applied_index := (if commit_scan n = commit_index n then applied_index n else commit_scan n)\<rparr>,
      if commit_scan n = commit_index n then []
      else [Apply (take (commit_scan n - applied_index n) (drop (applied_index n - snapshot_index n) (log n)))])"
proof (cases "commit_scan n = commit_index n")
  case False
  let ?n = "n\<lparr>commit_index := commit_scan n\<rparr>"
  have "commit_index n < commit_scan n" "commit_scan n \<le> last_index n"
    using False commit_scan_cases[of n] by auto
  then have "apply_committed ?n = (?n\<lparr>applied_index := commit_index ?n\<rparr>,
      if applied_index ?n = commit_index ?n then []
      else [Apply (take (commit_index ?n - applied_index ?n) (drop (applied_index ?n - snapshot_index ?n) (log ?n)))])"
    using assms last_index_cong[of ?n n] by (intro apply_committed_indexed) (auto simp: node_wf_def)
  moreover have "applied_index n \<noteq> commit_scan n"
    using assms \<open>commit_index n < commit_scan n\<close> by (simp add: node_wf_def)
  ultimately show ?thesis
    using False \<open>commit_index n < commit_scan n\<close> by (simp add: advance_commit_def Let_def)
qed (simp add: advance_commit_def Let_def)

lemma learn_commit_wf:
  assumes "node_wf n"
  shows "learn_commit c n =
     (if commit_index n < c \<and> commit_index n < last_index n
      then (n\<lparr>commit_index := min c (last_index n), applied_index := min c (last_index n)\<rparr>,
            [Apply (take (min c (last_index n) - applied_index n) (drop (applied_index n - snapshot_index n) (log n)))])
      else if commit_index n < c
      then (n\<lparr>applied_index := commit_index n\<rparr>,
            if applied_index n = commit_index n then []
            else [Apply (take (commit_index n - applied_index n) (drop (applied_index n - snapshot_index n) (log n)))])
      else (n, []))"
proof (cases "commit_index n < c")
  case True
  let ?n = "n\<lparr>commit_index := min c (last_index n)\<rparr>"
  have "apply_committed ?n = (?n\<lparr>applied_index := commit_index ?n\<rparr>,
      if applied_index ?n = commit_index ?n then []
      else [Apply (take (commit_index ?n - applied_index ?n) (drop (applied_index ?n - snapshot_index ?n) (log ?n)))])"
    using assms True last_index_cong[of ?n n] by (intro apply_committed_indexed) (auto simp: node_wf_def)
  then show ?thesis
    using assms True by (auto simp: learn_commit_def node_wf_def min_def)
qed (simp add: learn_commit_def)

section \<open>Every operation keeps the node well formed\<close>

lemma wf_reset_election [simp]: "node_wf (reset_election now n) = node_wf n"
  by (rule node_wf_cong) simp_all

lemma wf_push: "node_wf n \<Longrightarrow> e_index e = last_index n + 1 \<Longrightarrow> node_wf (push_entry e n)"
  using last_index_push[of e n] by (auto simp: node_wf_def indexed_snoc last_index_indexed)

lemma wf_advance_commit:
  assumes "node_wf n"
  shows "node_wf (fst (advance_commit n))"
  using assms commit_scan_cases[of n]
  by (auto simp: advance_commit_wf node_wf_def last_index_def)

lemma last_index_advance [simp]: "last_index (fst (advance_commit n)) = last_index n"
  by (simp add: last_index_def)

lemma wf_learn_commit: "node_wf n \<Longrightarrow> node_wf (fst (learn_commit c n))"
  by (auto simp: learn_commit_wf node_wf_def last_index_def)

lemma wf_resync [simp]: "node_wf (resync_transfer_finishing n) = node_wf n"
  by (rule node_wf_cong) simp_all

lemma wf_rebuild [simp]: "node_wf (rebuild_membership_from_log n) = node_wf n"
  by (rule node_wf_cong) simp_all

lemma wf_apply_config: "apply_config_on_append e n = Inr n1 \<Longrightarrow> node_wf n1 = node_wf n"
  by (rule node_wf_cong) (simp_all add: apply_config_frame)

lemma last_index_apply_config: "apply_config_on_append e n = Inr n1 \<Longrightarrow> last_index n1 = last_index n"
  by (rule last_index_cong) (simp_all add: apply_config_frame)

lemma wf_truncate:
  assumes "node_wf n" "commit_index n < i"
  shows "node_wf (truncate_from i n)"
proof -
  have idx: "indexed (snapshot_index n) (log n)" using assms by (simp add: node_wf_def)
  have log: "log (truncate_from i n) = take (i - snapshot_index n - 1) (log n)"
    using idx by (simp add: filter_less_indexed)
  then have "indexed (snapshot_index (truncate_from i n)) (log (truncate_from i n))"
    using idx by (simp add: indexed_take)
  moreover have "last_index (truncate_from i n) = snapshot_index n + min (length (log n)) (i - snapshot_index n - 1)"
    using calculation log by (simp add: last_index_indexed)
  ultimately show ?thesis
    using assms by (auto simp: node_wf_def last_index_indexed min_def)
qed

text \<open>The two outcomes of \<open>append_config\<close>.\<close>

lemma append_config_cases:
  obtains (refused) err where "apply_config_on_append (config_entry envelope n) n = Inl err"
      "append_config envelope n = (n, Inl err)"
    | (appended) n1 r sends where "apply_config_on_append (config_entry envelope n) n = Inr n1"
        "append_config envelope n =
          ((push_entry (config_entry envelope n) n1)\<lparr>retiring_peers := r\<rparr>,
           Inr (PersistEntries [config_entry envelope n] # sends))"
proof (cases "apply_config_on_append (config_entry envelope n) n")
  case (Inl err)
  then show thesis by (rule refused) (simp add: append_config_def Let_def Inl)
next
  case (Inr n1)
  have "\<exists>r sends. append_config envelope n =
          ((push_entry (config_entry envelope n) n1)\<lparr>retiring_peers := r\<rparr>,
           Inr (PersistEntries [config_entry envelope n] # sends))"
    unfolding append_config_def Let_def Inr sum.case by blast
  then show thesis using appended[OF Inr] by blast
qed

lemma wf_update_retiring [simp]: "node_wf (n\<lparr>retiring_peers := r\<rparr>) = node_wf n"
  by (rule node_wf_cong) simp_all

lemma wf_append_config:
  assumes "node_wf n" "last_index n < u64_max"
  shows "node_wf (fst (append_config envelope n))"
proof (cases rule: append_config_cases[of envelope n])
  case (appended n1 r sends)
  have "node_wf (push_entry (config_entry envelope n) n1)"
    using assms wf_apply_config[OF appended(1)] last_index_apply_config[OF appended(1)]
    by (intro wf_push) (simp_all add: config_entry_def)
  then show ?thesis by (simp add: appended(2))
qed (simp add: assms)

lemma wf_update_transfer [simp]: "node_wf (n\<lparr>transfer := t\<rparr>) = node_wf n"
  by (rule node_wf_cong) simp_all

lemma last_index_update_transfer [simp]: "last_index (n\<lparr>transfer := t\<rparr>) = last_index n"
  by (simp add: last_index_def)

lemma last_index_resync [simp]: "last_index (resync_transfer_finishing n) = last_index n"
  by (simp add: last_index_def)

lemma wf_finish_transfer:
  "node_wf n \<Longrightarrow> last_index n < u64_max \<Longrightarrow> node_wf (fst (finish_leadership_transfer result t n))"
  by (simp add: finish_leadership_transfer_def case_prod_beta wf_append_config split: option.splits sum.splits)

lemma wf_resume_leave:
  "node_wf n \<Longrightarrow> last_index n < u64_max \<Longrightarrow> node_wf (fst (resume_leave_joint n))"
  by (simp add: resume_leave_joint_def case_prod_beta wf_append_config
      split: option.splits sum.splits config_operation.splits)

lemma resume_leave_None:
  "snd (resume_leave_joint n) = None \<Longrightarrow> fst (resume_leave_joint n) = n"
  by (auto simp: resume_leave_joint_def append_config_def Let_def case_prod_beta
      split: option.splits sum.splits config_operation.splits if_splits)

lemma wf_finish_inherited:
  "node_wf n \<Longrightarrow> last_index n < u64_max \<Longrightarrow> node_wf (fst (finish_inherited_transfer n))"
  by (simp add: finish_inherited_transfer_def Let_def case_prod_beta wf_finish_transfer
      split: option.splits sum.splits)

lemma wf_publish:
  "node_wf n \<Longrightarrow> e_index e = last_index n + 1 \<Longrightarrow> node_wf (fst (publish_entry e n))"
  by (simp add: publish_entry_def case_prod_beta wf_advance_commit wf_push)

lemma assume_leadership_log [simp]: "log (assume_leadership e n) = log n @ [e]"
  by (simp add: assume_leadership_def Let_def)

lemma wf_assume_leadership:
  assumes "node_wf n" "e_index e = last_index n + 1"
  shows "node_wf (assume_leadership e n)"
  using wf_push[OF assms] node_wf_cong[of "assume_leadership e n" "push_entry e n"] by simp

lemma last_index_assume [simp]: "last_index (assume_leadership e n) = e_index e"
  by (simp add: last_index_def)

lemma wf_become_leader:
  assumes "node_wf n" "last_index n + 2 \<le> u64_max"
  shows "node_wf (fst (become_leader n))"
proof -
  let ?n2 = "fst (advance_commit (assume_leadership (next_entry n Noop []) n))"
  have n2: "node_wf ?n2" "last_index ?n2 < u64_max"
    using assms by (simp_all add: wf_advance_commit wf_assume_leadership next_entry_def)
  show ?thesis
    using wf_resume_leave[OF n2] wf_finish_inherited[OF n2] resume_leave_None[of ?n2]
    by (simp add: become_leader_def Let_def case_prod_beta split: option.splits)
qed

lemma wf_fields [simp]:
  "node_wf (n\<lparr>role := a\<rparr>) = node_wf n" "node_wf (n\<lparr>hard_state := b\<rparr>) = node_wf n"
  "node_wf (n\<lparr>votes := c\<rparr>) = node_wf n" "node_wf (n\<lparr>pre_votes := c\<rparr>) = node_wf n"
  "node_wf (n\<lparr>leader_id := d\<rparr>) = node_wf n" "node_wf (n\<lparr>next_index := e\<rparr>) = node_wf n"
  "node_wf (n\<lparr>last_contact := e\<rparr>) = node_wf n" "node_wf (n\<lparr>heartbeat_deadline := f\<rparr>) = node_wf n"
  "node_wf (n\<lparr>read_round := f\<rparr>) = node_wf n" "node_wf (n\<lparr>read_acks := c\<rparr>) = node_wf n"
  "node_wf (n\<lparr>read_index := d\<rparr>) = node_wf n" "node_wf (n\<lparr>active_features := g\<rparr>) = node_wf n"
  "node_wf (n\<lparr>next_snapshot_transfer_id := f\<rparr>) = node_wf n"
  by (simp_all add: node_wf_def last_index_def)

lemma last_index_fields [simp]:
  "last_index (n\<lparr>role := a\<rparr>) = last_index n" "last_index (n\<lparr>hard_state := b\<rparr>) = last_index n"
  "last_index (n\<lparr>votes := c\<rparr>) = last_index n" "last_index (n\<lparr>pre_votes := c\<rparr>) = last_index n"
  "last_index (n\<lparr>leader_id := d\<rparr>) = last_index n" "last_index (reset_election now n) = last_index n"
  by (simp_all add: last_index_def)

lemma wf_start_election:
  "node_wf n \<Longrightarrow> last_index n + 2 \<le> u64_max \<Longrightarrow> node_wf (fst (start_election n))"
  by (simp add: start_election_def Let_def wf_become_leader)

lemma wf_start_pre_vote:
  "node_wf n \<Longrightarrow> last_index n + 2 \<le> u64_max \<Longrightarrow> node_wf (fst (start_pre_vote now n))"
  by (simp add: start_pre_vote_def Let_def wf_start_election)

lemma wf_follow_leader [simp]: "node_wf (follow_leader message now n) = node_wf n"
  by (rule node_wf_cong) simp_all

text \<open>A pushed index is exact: at the top of the index space the log already holds it.\<close>

lemma append_index_exact:
  assumes "node_wf n" "i = sat_add (last_index n) 1" "find_index i (log n) = None"
  shows "i = last_index n + 1"
proof (rule ccontr)
  assume "i \<noteq> last_index n + 1"
  then have "u64_max \<le> last_index n" "i = u64_max"
    using assms(2) by (auto simp: sat_add_def min_def split: if_splits)
  then show False
    using assms find_indexed[of "snapshot_index n" "log n" i]
    by (auto simp: node_wf_def last_index_indexed split: if_splits)
qed

lemma wf_append_loop:
  assumes "node_wf n"
  shows "node_wf (loop_node (append_loop message es n effects appended))"
proof (rule append_loop_rule, goal_cases)
  case (3 n e n1)
  have "e_index e = last_index n + 1" by (rule append_index_exact[OF 3(1,5,6)])
  then show ?case
    using 3(1) wf_apply_config[OF 3(4)] last_index_apply_config[OF 3(4)] by (intro wf_push) simp_all
next
  case (4 n e)
  then show ?case using append_index_exact[OF 4(1,4,5)] by (intro wf_push) simp_all
qed (simp_all add: assms wf_truncate)

lemma wf_handle_append_request: "node_wf n \<Longrightarrow> node_wf (fst (handle_append_request message request now n))"
  by (simp add: handle_append_request_node Let_def wf_append_loop wf_learn_commit)

lemma wf_record_match [simp]: "node_wf (record_match peer response n) = node_wf n"
  by (rule node_wf_cong) simp_all

lemma wf_note_read_ack [simp]: "node_wf (note_read_ack peer response n) = node_wf n"
  by (rule node_wf_cong) simp_all

lemma wf_release_read [simp]: "node_wf (fst (release_read n)) = node_wf n"
  by (rule node_wf_cong) simp_all

lemma wf_append_response_from_peer:
  "node_wf n \<Longrightarrow> node_wf (fst (append_response_from_peer peer response n))"
  by (simp add: append_response_from_peer_node wf_advance_commit)

lemma wf_forget_peer [simp]: "node_wf (forget_peer peer n) = node_wf n"
  by (rule node_wf_cong) simp_all

lemma wf_handle_append_response: "node_wf n \<Longrightarrow> node_wf (fst (handle_append_response message response now n))"
  by (simp add: handle_append_response_def Let_def wf_append_response_from_peer split: option.splits)

lemma wf_observe_term [simp]: "node_wf (fst (observe_term message n)) = node_wf n"
  by (rule node_wf_cong) simp_all

lemma last_index_observe_term [simp]: "last_index (fst (observe_term message n)) = last_index n"
  by (simp add: last_index_def)

lemma wf_vote_request [simp]: "node_wf (fst (vote_request message i t now n)) = node_wf n"
  by (rule node_wf_cong) simp_all

lemma wf_dispatch:
  "node_wf n \<Longrightarrow> last_index n + 2 \<le> u64_max \<Longrightarrow> node_wf (fst (dispatch message now n))"
  by (simp add: dispatch_def handle_pre_vote_resp_def handle_vote_resp_def Let_def wf_start_election
      wf_become_leader wf_handle_append_request wf_handle_append_response split: message_kind.splits)

lemma wf_on_message:
  "node_wf n \<Longrightarrow> last_index n + 2 \<le> u64_max \<Longrightarrow> node_wf (fst (on_message_at message now n))"
  by (simp add: on_message_at_def wf_dispatch)

lemma wf_reset_quorum [simp]: "node_wf (reset_quorum now n) = node_wf n"
  by (rule node_wf_cong) simp_all

lemma last_index_reset_quorum [simp]: "last_index (reset_quorum now n) = last_index n"
  by (simp add: last_index_def)

lemma wf_tick_timers:
  "node_wf n \<Longrightarrow> last_index n + 2 \<le> u64_max \<Longrightarrow> node_wf (fst (tick_timers now n))"
  by (simp add: tick_timers_node check_quorum_def Let_def wf_start_pre_vote)

lemma finish_transfer_error:
  "snd (finish_leadership_transfer result t n) = Inl err \<Longrightarrow>
   last_index (fst (finish_leadership_transfer result t n)) = last_index n"
  by (auto simp: finish_leadership_transfer_def append_config_def Let_def case_prod_beta
      split: option.splits sum.splits if_splits)

lemma wf_tick: "node_wf n \<Longrightarrow> last_index n + 2 \<le> u64_max \<Longrightarrow> node_wf (fst (tick now n))"
  by (auto simp: tick_def Let_def case_prod_beta wf_tick_timers wf_finish_transfer
      finish_transfer_error split: sum.splits)

lemma wf_on_timer: "node_wf n \<Longrightarrow> last_index n + 2 \<le> u64_max \<Longrightarrow> node_wf (fst (on_timer now timer n))"
  by (simp add: on_timer_def wf_start_pre_vote split: timer_kind.splits)

end
