(* ===== verification/RaftApi.thy ===== *)
theory RaftApi
  imports RaftInv "HOL-Library.Sublist"
begin

text \<open>
  The public operations of a node as one input type, and what every one of them guarantees: the node
  stays well formed, the hard state only moves forward, committed entries are never lost, entries are
  applied once and in order, and the durable effects reproduce the in-memory state.
\<close>

section \<open>Inputs\<close>

datatype node_input =
    In_message message nat
  | In_tick nat
  | In_timer nat timer_kind
  | In_propose bytes
  | In_batch bytes
  | In_read
  | In_add_learner nat
  | In_promote nat
  | In_enter_joint "nat bset"
  | In_leave_joint
  | In_begin_transfer nat nat
  | In_admin config_envelope
  | In_feature u64w nat
  | In_apply_config entry
  | In_install nat nat
  | In_restore_transfer "leadership_transfer option"
  | In_restore_membership membership_state
  | In_replay
  | In_chunks nat nat nat bytes
  | In_rearm nat

definition ok_effects :: "raft_effect list attempt \<Rightarrow> node \<times> raft_effect list" where
  "ok_effects r = (fst r, case snd r of Inl _ \<Rightarrow> [] | Inr es \<Rightarrow> es)"

fun node_step :: "node_input \<Rightarrow> step" where
  "node_step (In_message m now) n = on_message_at m now n"
| "node_step (In_tick now) n = tick now n"
| "node_step (In_timer now k) n = on_timer now k n"
| "node_step (In_propose payload) n = ok_effects (propose payload n)"
| "node_step (In_batch payload) n = ok_effects (propose_v3_batch payload n)"
| "node_step In_read n = ok_effects (request_read n)"
| "node_step (In_add_learner peer) n = ok_effects (add_learner peer n)"
| "node_step (In_promote peer) n = ok_effects (promote_learner peer n)"
| "node_step (In_enter_joint vs) n = ok_effects (enter_joint vs n)"
| "node_step In_leave_joint n = ok_effects (leave_joint n)"
| "node_step (In_begin_transfer target t) n = ok_effects (begin_leadership_transfer target t n)"
| "node_step (In_admin envelope) n = ok_effects (propose_admin_config envelope n)"
| "node_step (In_feature f t) n = ok_effects (activate_feature f t n)"
| "node_step (In_apply_config e) n = ok_effects (apply_committed_config e n)"
| "node_step (In_install i t) n = (install_snapshot_state i t n, [])"
| "node_step (In_restore_transfer t) n = (fst (restore_leadership_transfer t n), [])"
| "node_step (In_restore_membership ms) n = (fst (restore_membership_state ms n), [])"
| "node_step In_replay n = (replay_retained_membership_suffix n, [])"
| "node_step (In_chunks peer i t bs) n =
     (fst (snapshot_chunks peer i t bs n), map Send (snd (snapshot_chunks peer i t bs n)))"
| "node_step (In_rearm now) n = (rearm_election now n, [])"

lemma ok_effects_fst [simp]: "fst (ok_effects r) = fst r"
  by (simp add: ok_effects_def)

text \<open>Inputs that stay inside the index space.\<close>

fun input_bounded :: "node_input \<Rightarrow> bool" where
  "input_bounded (In_install i t) \<longleftrightarrow> i < u64_max"
| "input_bounded _ \<longleftrightarrow> True"

section \<open>Well-formedness\<close>

lemma wf_propose_with_kind: "node_wf n \<Longrightarrow> node_wf (fst (propose_with_kind payload kind n))"
  by (simp add: propose_with_kind_def case_prod_beta wf_publish next_entry_def)

lemma wf_enter_joint:
  assumes "node_wf n"
  shows "node_wf (fst (enter_joint vs n))"
proof -
  have "node_wf (fst (publish_entry (next_entry n k p) n1))"
    if "apply_config_on_append (next_entry n k p) n = Inr n1" for n1 k p
    using assms wf_apply_config[OF that] last_index_apply_config[OF that]
    by (intro wf_publish) (simp_all add: next_entry_def)
  then show ?thesis
    using assms by (simp add: enter_joint_def Let_def case_prod_beta split: sum.splits)
qed

lemma wf_install:
  assumes "node_wf n" "i < u64_max"
  shows "node_wf (install_snapshot_state i t n)"
proof (cases "i < snapshot_index n \<or> (i = snapshot_index n \<and> t \<noteq> snapshot_term n)")
  case False
  then have le: "snapshot_index n \<le> i" by simp
  have idx: "indexed (snapshot_index n) (log n)" using assms by (simp add: node_wf_def)
  let ?m = "install_snapshot_state i t n"
  have log: "log ?m = drop (i - snapshot_index n) (log n)" and s: "snapshot_index ?m = i"
      and c: "commit_index ?m = max (commit_index n) i" and a: "applied_index ?m = max (applied_index n) i"
    using False idx by (auto simp: install_snapshot_state_def filter_greater_indexed)
  have "indexed (snapshot_index ?m) (log ?m)"
    using indexed_drop[OF idx, of "i - snapshot_index n"] le log s by simp
  then show ?thesis
    using assms le log s c a by (auto simp: node_wf_def last_index_indexed max_def)
qed (simp add: install_snapshot_state_def assms)

lemma wf_restore_membership [simp]: "node_wf (fst (restore_membership_state ms n)) = node_wf n"
  by (rule node_wf_cong) (simp_all add: restore_membership_state_def Let_def split: sum.splits)

lemma wf_request_read [simp]: "node_wf (fst (request_read n)) = node_wf n"
  by (simp add: request_read_def Let_def)

lemma wf_promote: "node_wf n \<Longrightarrow> node_wf (fst (promote_learner peer n))"
  by (simp add: promote_learner_def wf_enter_joint)

lemma wf_apply_committed_config:
  "node_wf n \<Longrightarrow> last_index n < u64_max \<Longrightarrow> node_wf (fst (apply_committed_config e n))"
  by (simp add: apply_committed_config_def Let_def wf_finish_transfer
      split: sum.splits config_operation.splits option.splits)

lemma wf_step:
  assumes "node_wf n" "last_index n + 2 \<le> u64_max" "input_bounded inp"
  shows "node_wf (fst (node_step inp n))"
  using assms
  by (cases inp)
    (simp_all add: wf_on_message wf_tick wf_on_timer propose_def propose_v3_batch_def wf_propose_with_kind
      add_learner_def wf_promote wf_enter_joint leave_joint_def begin_leadership_transfer_def
      propose_admin_config_def activate_feature_def wf_append_config wf_apply_committed_config wf_install
      restore_leadership_transfer_def replay_retained_membership_suffix_def snapshot_chunks_def
      allocate_snapshot_transfer_id_def rearm_election_def split: option.splits prod.splits)

lemma wf_new: "node_wf (RaftNode_new i vs seed cfg)"
  by (simp add: RaftNode_new_def node_wf_def last_index_def u64_max_def)

section \<open>The hard state only moves forward\<close>

definition hard_le :: "hard_state \<Rightarrow> hard_state \<Rightarrow> bool" where
  "hard_le h h' \<longleftrightarrow>
     hs_term h < hs_term h' \<or>
     (hs_term h = hs_term h' \<and> (hs_voted_for h = None \<or> hs_voted_for h' = hs_voted_for h))"

lemma hard_le_refl [simp]: "hard_le h h"
  by (simp add: hard_le_def)

lemma hard_le_trans: "hard_le a b \<Longrightarrow> hard_le b c \<Longrightarrow> hard_le a c"
  by (auto simp: hard_le_def)

lemma start_election_hard:
  "hard_state (fst (start_election n)) =
     (if nid n \<in> set (voters n) then \<lparr>hs_term = cur_term n + 1, hs_voted_for = Some (nid n)\<rparr> else hard_state n)"
  by (simp add: start_election_def Let_def)

lemma hard_start_election: "hard_le (hard_state n) (hard_state (fst (start_election n)))"
  by (simp add: start_election_hard hard_le_def)

lemma hard_start_pre_vote: "hard_le (hard_state n) (hard_state (fst (start_pre_vote now n)))"
  using hard_start_election[of "reset_election now (n\<lparr>role := Candidate, pre_votes := [nid n], votes := []\<rparr>)"]
  by (simp add: start_pre_vote_def Let_def)

lemma hard_observe_term: "hard_le (hard_state n) (hard_state (fst (observe_term message n)))"
  by (simp add: observe_term_def Let_def hard_le_def)

lemma hard_vote_request: "hard_le (hard_state n) (hard_state (fst (vote_request message i t now n)))"
  by (auto simp: vote_request_def vote_granted_def Let_def hard_le_def split: option.splits)

lemma hard_dispatch: "hard_le (hard_state n) (hard_state (fst (dispatch message now n)))"
  using hard_start_election[of "n\<lparr>pre_votes := bset_insert (m_from message) (pre_votes n)\<rparr>"]
  by (simp add: dispatch_def handle_pre_vote_resp_def Let_def hard_vote_request hard_start_election
      split: message_kind.splits)

lemma hard_on_message: "hard_le (hard_state n) (hard_state (fst (on_message_at message now n)))"
  using hard_le_trans[OF hard_observe_term hard_dispatch] by (simp add: on_message_at_def)

lemma hard_tick_timers: "hard_le (hard_state n) (hard_state (fst (tick_timers now n)))"
  using hard_start_pre_vote[of "reset_quorum now n" now] hard_start_pre_vote[of n now]
  by (simp add: tick_timers_node check_quorum_def Let_def)

lemma hard_tick: "hard_le (hard_state n) (hard_state (fst (tick now n)))"
  using hard_tick_timers[of "resync_transfer_finishing n" now]
    hard_tick_timers[of "fst (finish_leadership_transfer TR_Timeout now (resync_transfer_finishing n))" now]
  by (simp add: tick_def Let_def case_prod_beta split: sum.splits)

lemma hard_on_timer: "hard_le (hard_state n) (hard_state (fst (on_timer now timer n)))"
  by (simp add: on_timer_def hard_start_pre_vote split: timer_kind.splits)

lemma enter_joint_hard [simp]: "hard_state (fst (enter_joint vs n)) = hard_state n"
  by (simp add: enter_joint_def Let_def case_prod_beta apply_config_frame split: sum.splits)

lemma apply_committed_config_hard [simp]: "hard_state (fst (apply_committed_config e n)) = hard_state n"
  by (simp add: apply_committed_config_def Let_def split: sum.splits config_operation.splits option.splits)

lemma hard_step: "hard_le (hard_state n) (hard_state (fst (node_step inp n)))"
  by (cases inp)
    (simp_all add: hard_on_message hard_tick hard_on_timer propose_def propose_v3_batch_def request_read_def
      add_learner_def promote_learner_def leave_joint_def begin_leadership_transfer_def
      propose_admin_config_def activate_feature_def install_snapshot_state_def
      restore_leadership_transfer_def restore_membership_state_def replay_retained_membership_suffix_def
      snapshot_chunks_def allocate_snapshot_transfer_id_def rearm_election_def Let_def
      split: option.splits prod.splits sum.splits)

section \<open>The hard state is persisted before anything is sent\<close>

fun is_hard :: "raft_effect \<Rightarrow> bool" where
  "is_hard (PersistHard _) = True"
| "is_hard _ = False"

fun is_send :: "raft_effect \<Rightarrow> bool" where
  "is_send (Send _) = True"
| "is_send _ = False"

definition no_hard :: "raft_effect list \<Rightarrow> bool" where
  "no_hard es \<longleftrightarrow> (\<forall>e \<in> set es. \<not> is_hard e)"

fun hard_before_send :: "raft_effect list \<Rightarrow> bool" where
  "hard_before_send [] = True"
| "hard_before_send (e # es) \<longleftrightarrow> (is_send e \<longrightarrow> no_hard es) \<and> hard_before_send es"

fun hard_after :: "hard_state \<Rightarrow> raft_effect list \<Rightarrow> hard_state" where
  "hard_after h [] = h"
| "hard_after h (PersistHard h' # es) = hard_after h' es"
| "hard_after h (_ # es) = hard_after h es"

definition hard_durable :: "hard_state \<Rightarrow> node \<times> raft_effect list \<Rightarrow> bool" where
  "hard_durable h r \<longleftrightarrow> hard_after h (snd r) = hard_state (fst r) \<and> hard_before_send (snd r)"

lemma no_hard_simps [simp]:
  "no_hard []" "no_hard (e # es) \<longleftrightarrow> \<not> is_hard e \<and> no_hard es" "no_hard (es @ fs) \<longleftrightarrow> no_hard es \<and> no_hard fs"
  "no_hard (concat ess) \<longleftrightarrow> (\<forall>es \<in> set ess. no_hard es)"
  by (auto simp: no_hard_def)

lemma no_hard_map_send [simp]: "no_hard (map (\<lambda>x. Send (f x)) xs)" "no_hard (map Send ms)"
  by (auto simp: no_hard_def)

lemma no_hard_after: "no_hard es \<Longrightarrow> hard_after h es = h \<and> hard_before_send es"
  by (induction h es rule: hard_after.induct) auto

lemma hard_durable_same: "no_hard (snd r) \<Longrightarrow> hard_state (fst r) = h \<Longrightarrow> hard_durable h r"
  by (simp add: hard_durable_def no_hard_after)

lemma no_hard_send_append [simp]: "no_hard (send_append n peer)"
  by (simp add: send_append_def Let_def)

lemma no_hard_broadcast [simp]: "no_hard (broadcast_append n)"
  by (simp add: broadcast_append_def)

lemma no_hard_nudge [simp]: "no_hard (nudge_effects n)"
  by (simp add: nudge_effects_def transfer_nudge_def timeout_now_def split: option.splits)

lemma no_hard_apply_committed [simp]: "no_hard (snd (apply_committed n))"
  by (simp add: apply_committed_def Let_def split: prod.splits)

lemma no_hard_advance [simp]: "no_hard (snd (advance_commit n))"
  by (simp add: advance_commit_def Let_def)

lemma no_hard_publish [simp]: "no_hard (snd (publish_entry e n))"
  by (simp add: publish_entry_def case_prod_beta)

lemma no_hard_append_config: "snd (append_config envelope n) = Inr es \<Longrightarrow> no_hard es"
  by (auto simp: append_config_def Let_def split: sum.splits)

lemma no_hard_finish_transfer: "snd (finish_leadership_transfer result t n) = Inr es \<Longrightarrow> no_hard es"
  by (auto simp: finish_leadership_transfer_def case_prod_beta split: option.splits sum.splits if_splits
      dest: no_hard_append_config)

lemma no_hard_resume: "snd (resume_leave_joint n) = Some es \<Longrightarrow> no_hard es"
  by (auto simp: resume_leave_joint_def case_prod_beta dest: no_hard_append_config
      split: option.splits sum.splits if_splits config_operation.splits)

lemma no_hard_inherited: "snd (finish_inherited_transfer n) = Some es \<Longrightarrow> no_hard es"
  by (auto simp: finish_inherited_transfer_def Let_def case_prod_beta dest: no_hard_finish_transfer
      split: option.splits sum.splits if_splits)

lemma no_hard_become_leader [simp]: "no_hard (snd (become_leader n))"
  by (auto simp: become_leader_def Let_def case_prod_beta dest: no_hard_resume no_hard_inherited
      split: option.splits)

lemma no_hard_peer_messages [simp]: "no_hard (peer_messages n t k)"
  by (simp add: peer_messages_def)

lemma durable_start_election: "hard_durable (hard_state n) (start_election n)"
  by (simp add: start_election_def Let_def hard_durable_def no_hard_after)

lemma durable_start_pre_vote: "hard_durable (hard_state n) (start_pre_vote now n)"
  using durable_start_election[of "reset_election now (n\<lparr>role := Candidate, pre_votes := [nid n], votes := []\<rparr>)"]
  by (simp add: start_pre_vote_def Let_def hard_durable_same)

lemma no_hard_make_response [simp]: "\<not> is_hard (make_append_response n m b i t c)"
  by (simp add: make_append_response_def Let_def)

text \<open>The full rule for the follower's loop: \<open>P\<close> relates the node, the effects and the appended
  entries; \<open>Q\<close> is what the early returns give.\<close>

definition loop_post ::
  "(node \<Rightarrow> raft_effect list \<Rightarrow> entry list \<Rightarrow> bool) \<Rightarrow> (node \<Rightarrow> raft_effect list \<Rightarrow> bool) \<Rightarrow>
   node \<times> raft_effect list + node \<times> raft_effect list \<times> entry list \<Rightarrow> bool" where
  "loop_post P Q r = (case r of Inl (n, es) \<Rightarrow> Q n es | Inr (n, es, xs) \<Rightarrow> P n es xs)"

lemma append_loop_effects_rule:
  assumes start: "P n effects appended"
    and conflict: "\<And>n eff app e existing. P n eff app \<Longrightarrow> e \<in> set es \<Longrightarrow>
          find_index (e_index e) (log n) = Some existing \<Longrightarrow> e_term existing \<noteq> e_term e \<Longrightarrow>
          e_index e \<le> commit_index n \<Longrightarrow> Q n (eff @ [Trace ''committed_conflict_rejected'' (e_index e)])"
    and trunc: "\<And>n eff app e existing. P n eff app \<Longrightarrow> e \<in> set es \<Longrightarrow>
          find_index (e_index e) (log n) = Some existing \<Longrightarrow> e_term existing \<noteq> e_term e \<Longrightarrow>
          commit_index n < e_index e \<Longrightarrow> P (truncate_from (e_index e) n) (eff @ [TruncateSuffix (e_index e)]) app"
    and gap: "\<And>n eff app e. P n eff app \<Longrightarrow> e \<in> set es \<Longrightarrow> e_index e \<noteq> sat_add (last_index n) 1 \<Longrightarrow>
          Q n (eff @ [Trace ''append_gap_rejected'' (e_index e),
                 make_append_response n message False (last_index n) None (sat_add (last_index n) 1)])"
    and bad: "\<And>n eff app e. P n eff app \<Longrightarrow> e \<in> set es \<Longrightarrow> is_config (e_kind e) \<Longrightarrow>
          Q n [Trace ''invalid_config_rejected'' (e_index e)]"
    and conf: "\<And>n eff app e n1. P n eff app \<Longrightarrow> e \<in> set es \<Longrightarrow> is_config (e_kind e) \<Longrightarrow>
          apply_config_on_append e n = Inr n1 \<Longrightarrow> e_index e = sat_add (last_index n) 1 \<Longrightarrow>
          find_index (e_index e) (log n) = None \<Longrightarrow> P (push_entry e n1) eff (app @ [e])"
    and plain: "\<And>n eff app e. P n eff app \<Longrightarrow> e \<in> set es \<Longrightarrow> \<not> is_config (e_kind e) \<Longrightarrow>
          e_index e = sat_add (last_index n) 1 \<Longrightarrow> find_index (e_index e) (log n) = None \<Longrightarrow>
          P (push_entry e n) eff (app @ [e])"
  shows "loop_post P Q (append_loop message es n effects appended)"
  using assms
proof (induction es arbitrary: n effects appended)
  case (Cons e es)
  have IH: "P n' eff app \<Longrightarrow> loop_post P Q (append_loop message es n' eff app)" for n' eff app
    by (rule Cons.IH) (blast intro: Cons.prems(2-) list.set_intros)+
  have accept: "loop_post P Q (case accept_entry message e n' eff of Inl r \<Rightarrow> Inl r
        | Inr (n1, eff1) \<Rightarrow> append_loop message es n1 eff1 (appended @ [e]))"
    if "P n' eff appended" "find_index (e_index e) (log n') = None" for n' eff
  proof (cases rule: accept_entry_cases[of message e n' eff])
    case gap
    then show ?thesis using that Cons.prems(4) by (auto simp: loop_post_def)
  next
    case bad
    then show ?thesis using that Cons.prems(5) by (auto simp: loop_post_def)
  next
    case (conf n1)
    then have "P (push_entry e n1) eff (appended @ [e])"
      using that Cons.prems(6) by (metis list.set_intros(1))
    then show ?thesis using conf IH by simp
  next
    case plain
    then have "P (push_entry e n') eff (appended @ [e])"
      using that Cons.prems(7) by (metis list.set_intros(1))
    then show ?thesis using plain IH by simp
  qed
  show ?case
  proof (cases "find_index (e_index e) (log n)")
    case None
    then show ?thesis using accept[OF Cons.prems(1)] by simp
  next
    case (Some existing)
    consider "e_term existing = e_term e" | "e_term existing \<noteq> e_term e" "e_index e \<le> commit_index n"
      | "e_term existing \<noteq> e_term e" "commit_index n < e_index e" by linarith
    then show ?thesis
    proof cases
      case 1
      then show ?thesis using Some IH[OF Cons.prems(1)] by simp
    next
      case 2
      then show ?thesis
        using Some Cons.prems(2)[OF Cons.prems(1) _ Some] by (simp add: loop_post_def)
    next
      case 3
      then show ?thesis
        using Some accept[OF Cons.prems(3)[OF Cons.prems(1) _ Some 3]] by (simp add: find_index_truncated)
    qed
  qed
qed (simp add: loop_post_def)

lemma no_hard_append_loop:
  "no_hard effects \<Longrightarrow>
   loop_post (\<lambda>_ eff _. no_hard eff) (\<lambda>_ eff. no_hard eff) (append_loop message es n effects appended)"
  by (rule append_loop_effects_rule) simp_all

lemma no_hard_learn_commit [simp]: "no_hard (snd (learn_commit c n))"
  by (simp add: learn_commit_def)

lemma no_hard_handle_append_request [simp]: "no_hard (snd (handle_append_request message request now n))"
  using no_hard_append_loop[of "[]" message "aq_entries request" "follow_leader message now n" "[]"]
  by (auto simp: handle_append_request_def loop_post_def Let_def case_prod_beta split: sum.splits)

lemma no_hard_release [simp]: "no_hard (snd (release_read n))"
  by (simp add: release_read_def split: option.splits)

lemma no_hard_append_response_from_peer [simp]: "no_hard (snd (append_response_from_peer peer response n))"
  by (simp add: append_response_from_peer_def transfer_trigger_def timeout_now_def Let_def case_prod_beta
      split: option.splits)

lemma no_hard_handle_append_response [simp]: "no_hard (snd (handle_append_response message response now n))"
  by (simp add: handle_append_response_def Let_def split: option.splits)

lemma no_hard_snapshot_chunk [simp]: "no_hard (handle_snapshot_chunk n message c)"
  by (simp add: handle_snapshot_chunk_def snapshot_ack_def split: option.splits)

lemma durable_vote_request: "hard_durable (hard_state n) (vote_request message i t now n)"
  by (simp add: vote_request_def Let_def hard_durable_def)

lemma durable_dispatch: "hard_durable (hard_state n) (dispatch message now n)"
  using durable_start_election[of "n\<lparr>pre_votes := bset_insert (m_from message) (pre_votes n)\<rparr>"]
  by (simp add: dispatch_def handle_pre_vote_resp_def handle_vote_resp_def Let_def durable_vote_request
      durable_start_election hard_durable_same pre_vote_response_def split: message_kind.splits)

lemma observe_term_effects:
  "observe_term message n = (n, []) \<or>
   snd (observe_term message n) = [PersistHard (hard_state (fst (observe_term message n)))]"
  by (simp add: observe_term_def Let_def)

lemma durable_on_message: "hard_durable (hard_state n) (on_message_at message now n)"
proof (cases "supports_protocol_version (m_proto_version message)")
  case True
  then have "on_message_at message now n =
      (let d = dispatch message now (fst (observe_term message n)) in (fst d, snd (observe_term message n) @ snd d))"
    by (simp add: on_message_at_def extend_with_def Let_def case_prod_beta)
  then show ?thesis
    using observe_term_effects[of message n] durable_dispatch[of "fst (observe_term message n)" message now]
    by (auto simp: hard_durable_def Let_def)
qed (simp add: on_message_at_def hard_durable_same)

lemma durable_tick_timers: "hard_durable (hard_state n) (tick_timers now n)"
  using durable_start_pre_vote[of "reset_quorum now n" now] durable_start_pre_vote[of n now]
  by (simp add: tick_timers_def check_quorum_def Let_def hard_durable_same)

lemma durable_tick: "hard_durable (hard_state n) (tick now n)"
  using durable_tick_timers[of "resync_transfer_finishing n" now]
    durable_tick_timers[of "fst (finish_leadership_transfer TR_Timeout now (resync_transfer_finishing n))" now]
  by (auto simp: tick_def Let_def case_prod_beta intro!: hard_durable_same dest: no_hard_finish_transfer
      split: sum.splits)

lemma durable_on_timer: "hard_durable (hard_state n) (on_timer now timer n)"
  by (simp add: on_timer_def durable_start_pre_vote hard_durable_same split: timer_kind.splits)

lemma no_hard_enter_joint: "snd (enter_joint vs n) = Inr es \<Longrightarrow> no_hard es"
  by (auto simp: enter_joint_def Let_def case_prod_beta split: sum.splits if_splits)

lemma no_hard_apply_committed_config: "snd (apply_committed_config e n) = Inr es \<Longrightarrow> no_hard es"
  by (auto simp: apply_committed_config_def timeout_now_def Let_def dest: no_hard_finish_transfer
      split: sum.splits config_operation.splits option.splits if_splits)

lemma no_hard_proposals:
  "snd (propose_with_kind p k n) = Inr es \<Longrightarrow> no_hard es"
  "snd (request_read n) = Inr es \<Longrightarrow> no_hard es"
  "snd (promote_learner peer n) = Inr es \<Longrightarrow> no_hard es"
  "snd (propose_admin_config envelope n) = Inr es \<Longrightarrow> no_hard es"
  "snd (add_learner peer n) = Inr es \<Longrightarrow> no_hard es"
  "snd (leave_joint n) = Inr es \<Longrightarrow> no_hard es"
  "snd (begin_leadership_transfer peer t n) = Inr es \<Longrightarrow> no_hard es"
  "snd (activate_feature f t n) = Inr es \<Longrightarrow> no_hard es"
  by (auto simp: propose_with_kind_def request_read_def promote_learner_def propose_admin_config_def
      add_learner_def leave_joint_def begin_leadership_transfer_def activate_feature_def case_prod_beta Let_def
      dest: no_hard_enter_joint no_hard_append_config split: if_splits option.splits)

lemma durable_attempt:
  assumes "hard_state (fst r) = h" "\<And>es. snd r = Inr es \<Longrightarrow> no_hard es"
  shows "hard_durable h (ok_effects r)"
  using assms by (intro hard_durable_same) (auto simp: ok_effects_def split: sum.splits)

lemma proposals_hard [simp]:
  "hard_state (fst (request_read n)) = hard_state n" "hard_state (fst (promote_learner peer n)) = hard_state n"
  "hard_state (fst (propose_admin_config envelope n)) = hard_state n"
  "hard_state (fst (add_learner peer n)) = hard_state n" "hard_state (fst (leave_joint n)) = hard_state n"
  "hard_state (fst (begin_leadership_transfer peer t n)) = hard_state n"
  "hard_state (fst (activate_feature f t n)) = hard_state n"
  by (simp_all add: request_read_def promote_learner_def propose_admin_config_def add_learner_def leave_joint_def
      begin_leadership_transfer_def activate_feature_def Let_def case_prod_beta split: option.splits)

lemma durable_step: "hard_durable (hard_state n) (node_step inp n)"
proof (cases inp)
  case (In_batch p)
  have "hard_durable (hard_state n) (ok_effects (propose_with_kind p AppV3 n))"
    by (rule durable_attempt) (simp_all add: no_hard_proposals)
  then show ?thesis
    by (simp add: In_batch propose_v3_batch_def) (simp add: ok_effects_def hard_durable_same)
qed (simp_all add: durable_on_message durable_tick durable_on_timer propose_def durable_attempt no_hard_proposals
      no_hard_apply_committed_config no_hard_enter_joint hard_durable_same install_snapshot_state_def
      restore_leadership_transfer_def restore_membership_state_def replay_retained_membership_suffix_def
      rearm_election_def snapshot_chunks_def allocate_snapshot_transfer_id_def Let_def
      split: option.splits sum.splits)

section \<open>Committed entries stay, and are applied once and in order\<close>

definition committed_log :: "node \<Rightarrow> entry list" where
  "committed_log n = take (commit_index n - snapshot_index n) (log n)"

definition applied_log :: "node \<Rightarrow> entry list" where
  "applied_log n = take (applied_index n - snapshot_index n) (log n)"

fun applied_entries :: "raft_effect list \<Rightarrow> entry list" where
  "applied_entries [] = []"
| "applied_entries (Apply xs # es) = xs @ applied_entries es"
| "applied_entries (_ # es) = applied_entries es"

definition progress :: "node \<Rightarrow> node \<times> raft_effect list \<Rightarrow> bool" where
  "progress n r \<longleftrightarrow>
     snapshot_index (fst r) = snapshot_index n \<and>
     prefix (committed_log n) (committed_log (fst r)) \<and>
     applied_log (fst r) = applied_log n @ applied_entries (snd r)"

lemma applied_entries_append [simp]: "applied_entries (es @ fs) = applied_entries es @ applied_entries fs"
  by (induction es rule: applied_entries.induct) auto

lemma applied_entries_none: "(\<And>xs. Apply xs \<notin> set es) \<Longrightarrow> applied_entries es = []"
  by (induction es rule: applied_entries.induct) auto

lemma progress_same:
  assumes "log n' = log n" "snapshot_index n' = snapshot_index n" "commit_index n' = commit_index n"
    "applied_index n' = applied_index n" "applied_entries es = []"
  shows "progress n (n', es)"
  using assms by (simp add: progress_def committed_log_def applied_log_def)

lemma progress_trans:
  "progress n (n1, es) \<Longrightarrow> progress n1 (n2, fs) \<Longrightarrow> progress n (n2, es @ fs)"
  by (auto simp: progress_def intro: prefix_order.trans)

lemma progress_log:
  assumes "node_wf n" "log n' = log n @ xs" "snapshot_index n' = snapshot_index n"
    "commit_index n' = commit_index n" "applied_index n' = applied_index n" "applied_entries es = []"
  shows "progress n (n', es)"
proof -
  have "commit_index n - snapshot_index n \<le> length (log n)" "applied_index n - snapshot_index n \<le> length (log n)"
    using assms(1) node_wf_last[OF assms(1)] by (auto simp: node_wf_def)
  then show ?thesis using assms(2-) by (simp add: progress_def committed_log_def applied_log_def)
qed

lemma progress_truncate:
  assumes "node_wf n" "commit_index n < i" "applied_entries es = []"
  shows "progress n (truncate_from i n, es)"
proof -
  have "log (truncate_from i n) = take (i - snapshot_index n - 1) (log n)"
    using assms(1) filter_less_indexed[of "snapshot_index n" "log n" i] by (simp add: node_wf_def)
  moreover have "applied_index n \<le> commit_index n" using assms(1) by (simp add: node_wf_def)
  ultimately show ?thesis
    using assms(2,3) by (simp add: progress_def committed_log_def applied_log_def min_def)
qed

lemma take_extend: "a \<le> b \<Longrightarrow> take b l = take a l @ take (b - a) (drop a l)"
  by (metis le_add_diff_inverse take_add)

lemma progress_advance:
  assumes "node_wf n"
  shows "progress n (advance_commit n)"
proof -
  have *: "snapshot_index n \<le> applied_index n" "applied_index n \<le> commit_index n"
    using assms by (auto simp: node_wf_def)
  have "commit_index n \<le> commit_scan n" using commit_scan_cases[of n] by auto
  then have "prefix (committed_log n) (take (commit_scan n - snapshot_index n) (log n))"
    unfolding committed_log_def by (metis diff_le_mono prefixI take_extend)
  moreover have "take (commit_scan n - snapshot_index n) (log n) = applied_log n @
      take (commit_scan n - applied_index n) (drop (applied_index n - snapshot_index n) (log n))"
    using take_extend[of "applied_index n - snapshot_index n" "commit_scan n - snapshot_index n" "log n"]
      * \<open>commit_index n \<le> commit_scan n\<close> by (simp add: applied_log_def)
  ultimately show ?thesis
    using assms by (auto simp: progress_def advance_commit_wf committed_log_def applied_log_def)
qed

lemma progress_learn_commit:
  assumes "node_wf n"
  shows "progress n (learn_commit c n)"
proof -
  have *: "snapshot_index n \<le> applied_index n" "applied_index n \<le> commit_index n" "commit_index n \<le> last_index n"
    using assms by (auto simp: node_wf_def)
  have pre: "prefix (committed_log n) (take (k - snapshot_index n) (log n))" if "commit_index n \<le> k" for k
    using that unfolding committed_log_def by (metis diff_le_mono prefixI take_extend)
  have app: "take (k - snapshot_index n) (log n) = applied_log n @
      take (k - applied_index n) (drop (applied_index n - snapshot_index n) (log n))"
    if "applied_index n \<le> k" for k
    using take_extend[of "applied_index n - snapshot_index n" "k - snapshot_index n" "log n"] that *
    by (simp add: applied_log_def)
  show ?thesis
    using assms * pre[of "min c (last_index n)"] app[of "min c (last_index n)"] app[of "commit_index n"]
    by (auto simp: progress_def learn_commit_wf committed_log_def applied_log_def min_def)
qed

lemma no_apply [simp]:
  "applied_entries (send_append n peer) = []" "applied_entries (broadcast_append n) = []"
  "applied_entries (nudge_effects n) = []" "applied_entries (peer_messages n t k) = []"
  "applied_entries (concat (map (send_append n) ps)) = []"
  "applied_entries (transfer_trigger peer response n) = []"
  "applied_entries (handle_snapshot_chunk n message c) = []"
  "applied_entries (make_append_response n message b i ct ci # es) = applied_entries es"
  "applied_entries (map Send ms) = []"
  by (auto simp: send_append_def broadcast_append_def nudge_effects_def transfer_nudge_def peer_messages_def
      transfer_trigger_def timeout_now_def handle_snapshot_chunk_def snapshot_ack_def make_append_response_def
      Let_def intro!: applied_entries_none split: option.splits if_splits)

lemma progress_append_config:
  assumes "node_wf n"
  shows "progress n (ok_effects (append_config envelope n))"
proof (cases "apply_config_on_append (config_entry envelope n) n")
  case (Inr n1)
  then show ?thesis
    using assms
    by (auto simp: append_config_def ok_effects_def Let_def apply_config_frame[OF Inr] intro!: progress_log)
qed (simp add: append_config_def ok_effects_def Let_def progress_same)

lemma progress_update:
  "progress n r \<Longrightarrow> log m = log n \<Longrightarrow> snapshot_index m = snapshot_index n \<Longrightarrow>
   commit_index m = commit_index n \<Longrightarrow> applied_index m = applied_index n \<Longrightarrow> progress m r"
  by (auto simp: progress_def committed_log_def applied_log_def)

lemma progress_update':
  "progress n (n', es) \<Longrightarrow> log m = log n' \<Longrightarrow> snapshot_index m = snapshot_index n' \<Longrightarrow>
   commit_index m = commit_index n' \<Longrightarrow> applied_index m = applied_index n' \<Longrightarrow>
   applied_entries fs = applied_entries es \<Longrightarrow> progress n (m, fs)"
  by (auto simp: progress_def committed_log_def applied_log_def)

lemma progress_ok:
  assumes "progress n (ok_effects r)"
  shows "snd r = Inr es \<Longrightarrow> progress n (fst r, es)" "snd r = Inl err \<Longrightarrow> progress n (fst r, [])"
  using assms by (simp_all add: ok_effects_def)

lemma progress_finish_transfer:
  assumes "node_wf n"
  shows "progress n (ok_effects (finish_leadership_transfer result t n))"
proof (cases "transfer n")
  case (Some tr)
  let ?e = "\<lparr>ce_admin_session = lt_admin_session tr, ce_leader_time = t,
             ce_operation = FinishLeaderTransfer (lt_intent_index tr) result\<rparr>"
  let ?m = "n\<lparr>transfer := Some (tr\<lparr>lt_finishing := True\<rparr>)\<rparr>"
  let ?r = "append_config ?e ?m"
  have "progress n (ok_effects ?r)"
    by (rule progress_update[of ?m]) (simp_all add: assms progress_append_config)
  note ok = progress_ok[OF this]
  have f: "finish_leadership_transfer result t n =
     (if lt_finishing tr then (n, Inl TransferInProgress)
      else case snd ?r of Inr es \<Rightarrow> (fst ?r, Inr es)
           | Inl err \<Rightarrow> ((fst ?r)\<lparr>transfer := Some (tr\<lparr>lt_finishing := False\<rparr>)\<rparr>, Inl err))"
    using Some by (simp add: finish_leadership_transfer_def case_prod_beta)
  show ?thesis
  proof (cases "snd ?r")
    case (Inl err)
    then show ?thesis
      unfolding f by (auto simp: ok_effects_def progress_same intro: progress_update'[OF ok(2)[OF Inl]])
  next
    case (Inr es)
    then show ?thesis
      unfolding f by (auto simp: ok_effects_def progress_same intro: ok(1))
  qed
qed (simp add: finish_leadership_transfer_def ok_effects_def progress_same)

definition some_effects :: "node \<times> raft_effect list option \<Rightarrow> node \<times> raft_effect list" where
  "some_effects r = (fst r, case snd r of Some es \<Rightarrow> es | None \<Rightarrow> [])"

lemma progress_resume:
  assumes "node_wf n"
  shows "progress n (some_effects (resume_leave_joint n))"
  by (auto simp: resume_leave_joint_def some_effects_def case_prod_beta progress_same
      intro: progress_ok[OF progress_append_config[OF assms]]
      split: option.splits sum.splits config_operation.splits)

lemma progress_inherited:
  assumes "node_wf n"
  shows "progress n (some_effects (finish_inherited_transfer n))"
proof -
  let ?m = "resync_transfer_finishing n"
  have "progress n (ok_effects (finish_leadership_transfer result t ?m))" for result t
    by (rule progress_update[of ?m]) (simp_all add: assms progress_finish_transfer)
  note ok = progress_ok[OF this]
  show ?thesis
    by (auto simp: finish_inherited_transfer_def some_effects_def case_prod_beta Let_def progress_same
        intro: ok split: option.splits sum.splits)
qed

lemma progress_become_leader:
  assumes "node_wf n" "last_index n + 2 \<le> u64_max"
  shows "progress n (become_leader n)"
proof -
  let ?e = "next_entry n Noop []"
  let ?n1 = "assume_leadership ?e n"
  let ?n2 = "fst (advance_commit ?n1)"
  have n1: "node_wf ?n1" using assms by (simp add: wf_assume_leadership next_entry_def)
  have n2: "node_wf ?n2" "last_index ?n2 < u64_max" using n1 assms by (simp_all add: wf_advance_commit next_entry_def)
  have "progress n (?n1, [PersistEntries [?e]])" using assms by (intro progress_log) simp_all
  moreover have "progress ?n1 (?n2, snd (advance_commit ?n1))" using progress_advance[OF n1] by simp
  ultimately have 2: "progress n (?n2, PersistEntries [?e] # snd (advance_commit ?n1))"
    using progress_trans[of n ?n1 "[PersistEntries [?e]]"] by simp
  let ?r = "resume_leave_joint ?n2" and ?f = "finish_inherited_transfer ?n2"
  have r: "progress ?n2 (fst ?r, snd (some_effects ?r))" and f: "progress ?n2 (fst ?f, snd (some_effects ?f))"
    using progress_resume[OF n2(1)] progress_inherited[OF n2(1)] by (simp_all add: some_effects_def)
  have "progress n (fst ?r, (PersistEntries [?e] # snd (advance_commit ?n1)) @ snd (some_effects ?r))"
    and "progress n (fst ?f, (PersistEntries [?e] # snd (advance_commit ?n1)) @ snd (some_effects ?f))"
    using progress_trans[OF 2 r] progress_trans[OF 2 f] by simp_all
  then show ?thesis
    using resume_leave_None[of ?n2]
    by (auto simp: become_leader_def Let_def case_prod_beta some_effects_def intro: progress_update'
        split: option.splits)
qed

lemma progress_PersistHard [simp]: "progress n (m, PersistHard h # es) = progress n (m, es)"
  by (simp add: progress_def)

lemma progress_start_election:
  assumes "node_wf n" "last_index n + 2 \<le> u64_max"
  shows "progress n (start_election n)"
proof -
  let ?m = "n\<lparr>role := Candidate, hard_state := \<lparr>hs_term = cur_term n + 1, hs_voted_for = Some (nid n)\<rparr>,
              votes := [nid n]\<rparr>"
  have "progress n (fst (become_leader ?m), snd (become_leader ?m))"
    by (rule progress_update[of ?m]) (use assms progress_become_leader[of ?m] in simp_all)
  then show ?thesis
    by (simp add: start_election_def Let_def after_effects_def progress_same)
qed

lemma progress_start_pre_vote:
  assumes "node_wf n" "last_index n + 2 \<le> u64_max"
  shows "progress n (start_pre_vote now n)"
proof -
  let ?m = "reset_election now (n\<lparr>role := Candidate, pre_votes := [nid n], votes := []\<rparr>)"
  have "progress n (fst (start_election ?m), snd (start_election ?m))"
    by (rule progress_update[of ?m]) (use assms progress_start_election[of ?m] in simp_all)
  then show ?thesis by (simp add: start_pre_vote_def Let_def progress_same)
qed

lemma progress_append_loop:
  assumes "node_wf n"
  shows "loop_post (\<lambda>n' eff _. node_wf n' \<and> progress n (n', eff) \<and> applied_entries eff = []) (\<lambda>n' eff. progress n (n', eff))
      (append_loop message es n [] [])"
proof (rule append_loop_effects_rule, goal_cases)
  case (2 n' eff app e existing)
  then show ?case by (auto intro: progress_update')
next
  case (3 n' eff app e existing)
  then show ?case
    using progress_trans[of n n' eff "truncate_from (e_index e) n'" "[TruncateSuffix (e_index e)]"]
      progress_truncate[of n' "e_index e" "[TruncateSuffix (e_index e)]"] by (simp add: wf_truncate)
next
  case (4 n' eff app e)
  then show ?case by (auto intro: progress_update')
next
  case (5 n' eff app e)
  then show ?case by (auto intro: progress_update')
next
  case (6 n' eff app e n1)
  have i: "e_index e = last_index n' + 1" using 6 by (intro append_index_exact[of n']) auto
  have "progress n' (push_entry e n1, [])"
    using 6 by (intro progress_log[of n']) (simp_all add: apply_config_frame[OF 6(4)])
  then show ?case
    using 6 i progress_trans[of n n' eff "push_entry e n1" "[]"] wf_apply_config[OF 6(4)] last_index_apply_config[OF 6(4)]
    by (simp add: wf_push)
next
  case (7 n' eff app e)
  have i: "e_index e = last_index n' + 1" using 7 by (intro append_index_exact[of n']) auto
  have "progress n' (push_entry e n', [])" using 7 by (intro progress_log[of n']) simp_all
  then show ?case using 7 i progress_trans[of n n' eff "push_entry e n'" "[]"] by (simp add: wf_push)
qed (simp add: assms progress_same)

lemma progress_follow: "progress (follow_leader message now n) r = progress n r"
  by (simp add: progress_def committed_log_def applied_log_def)

lemma progress_handle_append_request:
  assumes "node_wf n"
  shows "progress n (handle_append_request message request now n)"
proof -
  let ?m = "follow_leader message now n"
  have L: "loop_post (\<lambda>n' eff _. node_wf n' \<and> progress n (n', eff) \<and> applied_entries eff = [])
      (\<lambda>n' eff. progress n (n', eff)) (append_loop message (aq_entries request) ?m [] [])"
    using progress_append_loop[of ?m message "aq_entries request"] assms by (simp add: progress_follow)
  show ?thesis
  proof (cases "append_loop message (aq_entries request) ?m [] []")
    case (Inl r)
    then show ?thesis
      using L assms
      by (auto simp: handle_append_request_def Let_def loop_post_def progress_same split: prod.splits)
  next
    case (Inr r)
    obtain n1 eff app where r: "r = (n1, eff, app)" by (cases r)
    have n1: "node_wf n1" "progress n (n1, eff)" using L Inr r by (simp_all add: loop_post_def)
    let ?l = "learn_commit (aq_leader_commit request) n1"
    have "progress n (fst ?l, eff @ snd ?l)"
      using progress_trans[OF n1(2), of "fst ?l" "snd ?l"] progress_learn_commit[OF n1(1)] by simp
    then show ?thesis
      using Inr r assms
      by (auto simp: handle_append_request_def Let_def case_prod_beta progress_same intro: progress_update')
  qed
qed

lemma progress_release: "progress n (release_read n)"
  by (auto simp: release_read_def progress_same split: option.splits)

lemma progress_append_response_from_peer:
  assumes "node_wf n"
  shows "progress n (append_response_from_peer peer response n)"
proof (cases "ap_success response")
  case True
  let ?m = "record_match peer response n"
  let ?a = "advance_commit ?m"
  let ?k = "note_read_ack peer response (fst ?a)"
  have 1: "progress n (fst ?a, snd ?a)"
    by (rule progress_update[of ?m]) (simp_all add: assms progress_advance)
  have "progress (fst ?a) (fst (release_read ?k), snd (release_read ?k))"
    by (rule progress_update[of ?k]) (simp_all add: progress_release)
  from progress_trans[OF 1 this]
  have p: "progress n (fst (release_read ?k), snd ?a @ snd (release_read ?k))" .
  define T where "T = transfer_trigger peer response (fst (release_read ?k)) @
      (case bmap_get (next_index (fst (release_read ?k))) peer of
         Some next \<Rightarrow> if next \<le> last_index (fst (release_read ?k)) then send_append (fst (release_read ?k)) peer else []
       | None \<Rightarrow> [])"
  have "applied_entries T = []" by (simp add: T_def split: option.splits)
  moreover have "append_response_from_peer peer response n =
      (fst (release_read ?k), (snd ?a @ snd (release_read ?k)) @ T)"
    using True by (simp add: append_response_from_peer_def Let_def case_prod_beta T_def)
  ultimately show ?thesis by (simp add: progress_update'[OF p])
qed (simp add: append_response_from_peer_def Let_def progress_same)

text \<open>The branch of \<open>append_response\<close> that drops the effects is the acknowledgement of a retiring peer.\<close>

lemma progress_handle_append_response:
  assumes "node_wf n" "bmap_get (retiring_peers n) (m_from message) = None"
  shows "progress n (handle_append_response message response now n)"
proof -
  let ?m = "n\<lparr>last_contact := bmap_insert (m_from message) now (last_contact n)\<rparr>"
  have "progress n (append_response_from_peer (m_from message) response ?m)"
    by (rule progress_update[of ?m]) (simp_all add: assms progress_append_response_from_peer)
  then show ?thesis
    using assms
    by (simp add: handle_append_response_def Let_def progress_same progress_append_response_from_peer)
qed

fun retiring_ack :: "node \<Rightarrow> node_input \<Rightarrow> bool" where
  "retiring_ack n (In_message m now) \<longleftrightarrow>
     bmap_get (retiring_peers n) (m_from m) \<noteq> None \<and> (case m_kind m of AppendResp _ \<Rightarrow> True | _ \<Rightarrow> False)"
| "retiring_ack n _ \<longleftrightarrow> False"

lemma retiring_observe [simp]: "retiring_peers (fst (observe_term message n)) = retiring_peers n"
  by (simp add: observe_term_def Let_def)

lemma progress_vote_request: "progress n (vote_request message i t now n)"
  by (auto simp: vote_request_def Let_def progress_same)

lemma progress_dispatch:
  assumes "node_wf n" "last_index n + 2 \<le> u64_max" "\<not> retiring_ack n (In_message message now)"
  shows "progress n (dispatch message now n)"
proof -
  let ?p = "n\<lparr>pre_votes := bset_insert (m_from message) (pre_votes n)\<rparr>"
    and ?v = "n\<lparr>votes := bset_insert (m_from message) (votes n)\<rparr>"
  have "progress n (start_election ?p)"
    by (rule progress_update[of ?p]) (use assms progress_start_election[of ?p] in simp_all)
  moreover have "progress n (become_leader ?v)"
    by (rule progress_update[of ?v]) (use assms progress_become_leader[of ?v] in simp_all)
  ultimately show ?thesis
    using assms
    by (auto simp: dispatch_def handle_pre_vote_resp_def handle_vote_resp_def Let_def progress_same
        progress_start_election progress_handle_append_request progress_handle_append_response
        progress_vote_request pre_vote_response_def split: message_kind.splits)
qed

lemma progress_on_message:
  assumes "node_wf n" "last_index n + 2 \<le> u64_max" "\<not> retiring_ack n (In_message message now)"
  shows "progress n (on_message_at message now n)"
proof -
  let ?o = "fst (observe_term message n)"
  have "progress n (?o, snd (observe_term message n))"
    by (rule progress_same) (use observe_term_effects[of message n] in auto)
  moreover have "progress ?o (dispatch message now ?o)"
    using assms by (intro progress_dispatch) simp_all
  ultimately show ?thesis
    using progress_trans[of n ?o _ "fst (dispatch message now ?o)" "snd (dispatch message now ?o)"]
    by (auto simp: on_message_at_def extend_with_def Let_def case_prod_beta progress_same)
qed

lemma progress_tick_timers:
  assumes "node_wf n" "last_index n + 2 \<le> u64_max"
  shows "progress n (tick_timers now n)"
proof -
  have "progress n (start_pre_vote now (reset_quorum now n))"
    by (rule progress_update[of "reset_quorum now n"])
      (use assms progress_start_pre_vote[of "reset_quorum now n"] in simp_all)
  then show ?thesis
    using assms
    by (simp add: tick_timers_def check_quorum_def Let_def progress_same progress_start_pre_vote)
qed

lemma progress_tick:
  assumes "node_wf n" "last_index n + 2 \<le> u64_max"
  shows "progress n (tick now n)"
proof -
  let ?m = "resync_transfer_finishing n"
  let ?r = "finish_leadership_transfer TR_Timeout now ?m"
  have "progress n (ok_effects ?r)"
    by (rule progress_update[of ?m]) (simp_all add: assms progress_finish_transfer)
  note ok = progress_ok[OF this]
  have t: "progress n (tick_timers now ?m)"
    by (rule progress_update[of ?m]) (use assms progress_tick_timers[of ?m] in simp_all)
  have e: "progress n (tick_timers now (fst ?r))" if err: "snd ?r = Inl err" for err
  proof -
    have "progress (fst ?r) (fst (tick_timers now (fst ?r)), snd (tick_timers now (fst ?r)))"
      using assms err by (simp add: progress_tick_timers wf_finish_transfer finish_transfer_error)
    from progress_trans[OF ok(2)[OF err] this] show ?thesis by simp
  qed
  show ?thesis
    using t e ok(1) by (auto simp: tick_def Let_def case_prod_beta split: sum.splits)
qed

lemma progress_on_timer:
  "node_wf n \<Longrightarrow> last_index n + 2 \<le> u64_max \<Longrightarrow> progress n (on_timer now timer n)"
  by (simp add: on_timer_def progress_start_pre_vote progress_same split: timer_kind.splits)

lemma progress_publish:
  assumes "node_wf n" "e_index e = last_index n + 1"
  shows "progress n (publish_entry e n)"
proof -
  let ?m = "push_entry e n"
  have "progress n (?m, [PersistEntries [e]])" using assms by (intro progress_log) simp_all
  moreover have "progress ?m (fst (advance_commit ?m), snd (advance_commit ?m))"
    using progress_advance[OF wf_push[OF assms]] by simp
  ultimately have "progress n (fst (advance_commit ?m), [PersistEntries [e]] @ snd (advance_commit ?m))"
    by (rule progress_trans)
  then show ?thesis
    by (auto simp: publish_entry_def case_prod_beta intro: progress_update')
qed

lemma progress_none [simp]: "progress n (n, [])"
  by (simp add: progress_same)

lemma progress_propose:
  assumes "node_wf n"
  shows "progress n (ok_effects (propose_with_kind payload kind n))"
  using progress_publish[OF assms, of "next_entry n kind payload"]
  by (simp add: propose_with_kind_def ok_effects_def case_prod_beta next_entry_def)

lemma progress_enter_joint:
  assumes "node_wf n"
  shows "progress n (ok_effects (enter_joint vs n))"
proof -
  have "progress n (publish_entry (next_entry n k p) n1)"
    if a: "apply_config_on_append (next_entry n k p) n = Inr n1" for n1 k p
  proof (rule progress_update[of n1])
    show "progress n1 (publish_entry (next_entry n k p) n1)"
      using assms wf_apply_config[OF a] last_index_apply_config[OF a]
      by (intro progress_publish) (simp_all add: next_entry_def)
  qed (simp_all add: apply_config_frame[OF a])
  then show ?thesis
    by (simp add: enter_joint_def ok_effects_def Let_def case_prod_beta split: sum.splits)
qed

lemma progress_request_read: "progress n (ok_effects (request_read n))"
  by (simp add: request_read_def ok_effects_def Let_def progress_same)

lemma progress_apply_committed_config:
  assumes "node_wf n"
  shows "progress n (ok_effects (apply_committed_config e n))"
proof -
  have "progress n (ok_effects (finish_leadership_transfer r t (n\<lparr>transfer := x\<rparr>)))" for r t x
    by (rule progress_update[of "n\<lparr>transfer := x\<rparr>"]) (simp_all add: assms progress_finish_transfer)
  then show ?thesis
    by (simp add: apply_committed_config_def Let_def timeout_now_def
        split: sum.splits config_operation.splits option.splits)
      (simp_all add: ok_effects_def progress_same)
qed

fun is_install :: "node_input \<Rightarrow> bool" where
  "is_install (In_install _ _) = True"
| "is_install _ = False"

lemma progress_step:
  assumes "node_wf n" "last_index n + 2 \<le> u64_max" "\<not> retiring_ack n inp" "\<not> is_install inp"
  shows "progress n (node_step inp n)"
proof (cases inp)
  case (In_batch p)
  show ?thesis
    using assms by (simp add: In_batch propose_v3_batch_def progress_propose) (simp add: ok_effects_def)
next
  case (In_add_learner peer)
  show ?thesis
    using assms by (simp add: In_add_learner add_learner_def progress_append_config) (simp add: ok_effects_def)
next
  case (In_promote peer)
  show ?thesis
    using assms by (simp add: In_promote promote_learner_def progress_enter_joint) (simp add: ok_effects_def)
next
  case In_leave_joint
  show ?thesis
    using assms by (simp add: In_leave_joint leave_joint_def progress_append_config split: option.splits)
      (simp add: ok_effects_def)
next
  case (In_begin_transfer peer t)
  show ?thesis
    using assms by (simp add: In_begin_transfer begin_leadership_transfer_def progress_append_config)
      (simp add: ok_effects_def)
next
  case (In_admin envelope)
  show ?thesis
    using assms by (simp add: In_admin propose_admin_config_def progress_append_config split: option.splits)
      (simp add: ok_effects_def)
next
  case (In_feature f t)
  show ?thesis
    using assms by (simp add: In_feature activate_feature_def progress_append_config) (simp add: ok_effects_def)
qed (use assms in \<open>simp_all add: progress_on_message progress_tick progress_on_timer propose_def progress_propose
      progress_request_read progress_enter_joint progress_apply_committed_config progress_same
      restore_leadership_transfer_def restore_membership_state_def replay_retained_membership_suffix_def
      rearm_election_def snapshot_chunks_def allocate_snapshot_transfer_id_def Let_def
      split: option.splits sum.splits\<close>)

end
