(* ===== verification/RaftReplication.thy ===== *)
theory RaftReplication
  imports RaftApi
begin

text \<open>
  What replication does to a log: the follower's append loop computes the merge of its suffix with
  the leader's entries, its effects replay to the same log, the leader's requests are slices of its
  log, and the leader commits exactly the largest quorum-acknowledged index of its own term.
\<close>

section \<open>Reference definitions\<close>

text \<open>Keep entries while index and term agree; from the first difference on, take the leader's.\<close>

fun merge_entries :: "entry list \<Rightarrow> entry list \<Rightarrow> entry list" where
  "merge_entries [] es = es"
| "merge_entries xs [] = xs"
| "merge_entries (x # xs) (e # es) = (if e_term x = e_term e then x # merge_entries xs es else e # es)"

definition merge_log :: "nat \<Rightarrow> entry list \<Rightarrow> entry list \<Rightarrow> entry list" where
  "merge_log k l es = take k l @ merge_entries (drop k l) es"

text \<open>The log a replay of the durable effects rebuilds.\<close>

fun log_after :: "entry list \<Rightarrow> raft_effect list \<Rightarrow> entry list" where
  "log_after l [] = l"
| "log_after l (PersistEntries xs # es) = log_after (l @ xs) es"
| "log_after l (TruncateSuffix i # es) = log_after (filter (\<lambda>e. e_index e < i) l) es"
| "log_after l (_ # es) = log_after l es"

definition persist_all :: "entry list \<Rightarrow> raft_effect list" where
  "persist_all xs = (if xs = [] then [] else [PersistEntries xs])"

section \<open>The append loop\<close>

lemma log_after_append [simp]: "log_after l (es @ fs) = log_after (log_after l es) fs"
  by (induction l es rule: log_after.induct) auto

lemma log_after_persist_all [simp]: "log_after l (persist_all xs) = l @ xs"
  by (simp add: persist_all_def)

lemma merge_entries_Nil2 [simp]: "merge_entries xs [] = xs"
  by (cases xs) simp_all

lemma find_wf:
  "node_wf n \<Longrightarrow> find_index i (log n) =
     (if snapshot_index n < i \<and> i \<le> last_index n then Some (log n ! (i - snapshot_index n - 1)) else None)"
  using find_indexed[of "snapshot_index n" "log n" i] node_wf_last[of n] by (simp add: node_wf_def)

lemma append_loop_fresh:
  assumes "append_loop message es n eff app = Inr (n', eff', app')" "node_wf n"
    "indexed (last_index n) es"
  shows "log n' = log n @ es \<and> eff' = eff \<and> app' = app @ es"
  using assms
proof (induction es arbitrary: n app)
  case (Cons e es)
  have i: "e_index e = last_index n + 1" and rest: "indexed (e_index e) es"
    using Cons.prems(3) by (auto simp: indexed_Cons)
  have none: "find_index (e_index e) (log n) = None"
    using Cons.prems(2) i by (simp add: find_wf)
  then obtain n1 where acc: "accept_entry message e n eff = Inr (n1, eff)"
      and loop: "append_loop message es n1 eff (app @ [e]) = Inr (n', eff', app')"
      and n1: "node_wf n1" "last_index n1 = e_index e" "log n1 = log n @ [e]"
  proof (cases rule: accept_entry_cases[of message e n eff])
    case (conf m)
    then show thesis
      using that Cons.prems none i wf_apply_config[OF conf(3)] last_index_apply_config[OF conf(3)]
      by (simp add: wf_push apply_config_frame[OF conf(3)])
  next
    case plain
    then show thesis using that Cons.prems none i by (simp add: wf_push)
  qed (use Cons.prems(1) none in simp_all)
  show ?case using Cons.IH[OF loop n1(1)] rest n1 by simp
qed simp

text \<open>The log the loop leaves is the merge, and replaying its effects gives the same log.\<close>

lemma append_loop_merge:
  assumes "append_loop message es n eff app = Inr (n', eff', app')" "node_wf n" "indexed p es"
    "snapshot_index n \<le> p" "p \<le> last_index n"
  shows "log n' = merge_log (p - snapshot_index n) (log n) es \<and>
    (\<exists>t xs. eff' = eff @ t \<and> app' = app @ xs \<and> log n' = log_after (log n) (t @ persist_all xs))"
  using assms
proof (induction es arbitrary: n p)
  case Nil
  then show ?case by (auto simp: merge_log_def persist_all_def intro!: exI[of _ "[]"])
next
  case (Cons e es)
  let ?s = "snapshot_index n"
  have i: "e_index e = p + 1" and rest: "indexed (p + 1) es"
    using Cons.prems(3) by (auto simp: indexed_Cons)
  have idx: "indexed ?s (log n)" and last: "last_index n = ?s + length (log n)"
    using Cons.prems(2) node_wf_last by (auto simp: node_wf_def)
  show ?case
  proof (cases "p = last_index n")
    case True
    then have "log n' = log n @ (e # es) \<and> eff' = eff \<and> app' = app @ (e # es)"
      using append_loop_fresh[OF Cons.prems(1,2)] Cons.prems(3) by simp
    then show ?thesis
      using True last
      by (auto simp: merge_log_def intro!: exI[of _ "[]"] exI[of _ "e # es"])
  next
    case False
    then have lt: "p - ?s < length (log n)" using Cons.prems(4,5) last by simp
    let ?x = "log n ! (p - ?s)"
    have found: "find_index (e_index e) (log n) = Some ?x"
      using idx i Cons.prems(4) lt by (simp add: find_indexed)
    have drop: "drop (p - ?s) (log n) = ?x # drop (p + 1 - ?s) (log n)"
      using lt Cons.prems(4) by (simp add: Cons_nth_drop_Suc Suc_diff_le)
    show ?thesis
    proof (cases "e_term ?x = e_term e")
      case True
      then have "append_loop message es n eff app = Inr (n', eff', app')"
        using Cons.prems(1) found by simp
      then have IH: "log n' = merge_log (p + 1 - ?s) (log n) es" "\<exists>t xs. eff' = eff @ t \<and> app' = app @ xs \<and>
          log n' = log_after (log n) (t @ persist_all xs)"
        using Cons.IH[of n "p + 1"] Cons.prems(2,4,5) rest False by auto
      have "merge_log (p + 1 - ?s) (log n) es = merge_log (p - ?s) (log n) (e # es)"
        using True Cons.prems(4) drop lt by (simp add: merge_log_def take_Suc_conv_app_nth Suc_diff_le)
      then show ?thesis using IH by simp
    next
      case conflict: False
      let ?t = "truncate_from (p + 1) n"
      have commit: "commit_index n < p + 1"
        using Cons.prems(1) found conflict i by (auto split: if_splits)
      have t: "node_wf ?t" using wf_truncate[OF Cons.prems(2) commit] .
      have tlog: "log ?t = take (p - ?s) (log n)" using filter_less_indexed[OF idx, of "p + 1"] by simp
      then have tl: "last_index ?t = p" using node_wf_last[OF t] lt Cons.prems(4) by simp
      have "append_loop message (e # es) ?t (eff @ [TruncateSuffix (p + 1)]) app = Inr (n', eff', app')"
        using Cons.prems(1) found conflict commit i find_index_truncated[of "p + 1" "log n"]
        by (simp add: find_index_truncated)
      from append_loop_fresh[OF this t]
      have "log n' = take (p - ?s) (log n) @ e # es \<and> eff' = eff @ [TruncateSuffix (p + 1)] \<and>
          app' = app @ e # es"
        using Cons.prems(3) tl tlog by simp
      then show ?thesis
        using conflict drop filter_less_indexed[OF idx, of "p + 1"]
        by (auto simp: merge_log_def intro!: exI[of _ "[TruncateSuffix (p + 1)]"] exI[of _ "e # es"])
    qed
  qed
qed

text \<open>Without configuration entries, and with no conflict below the commit index, the loop ends
  normally.\<close>

lemma append_loop_returns:
  assumes "node_wf n" "indexed p es" "snapshot_index n \<le> p" "p \<le> last_index n"
    "\<forall>e \<in> set es. \<not> is_config (e_kind e)" "p + length es \<le> u64_max"
    "\<forall>e \<in> set es. \<forall>x. find_index (e_index e) (log n) = Some x \<longrightarrow> e_index e \<le> commit_index n \<longrightarrow>
        e_term x = e_term e"
  shows "is_ok (append_loop message es n eff app)"
  using assms
proof (induction es arbitrary: n p eff app)
  case (Cons e es)
  have i: "e_index e = p + 1" and rest: "indexed (p + 1) es" and e: "\<not> is_config (e_kind e)"
    using Cons.prems(2,5) by (auto simp: indexed_Cons)
  have idx: "indexed (snapshot_index n) (log n)" and last: "last_index n = snapshot_index n + length (log n)"
    using Cons.prems(1) node_wf_last by (auto simp: node_wf_def)
  have push: "is_ok (append_loop message es (push_entry e m) eff' app')"
    if m: "node_wf m" "last_index m = p" "snapshot_index m = snapshot_index n" for m eff' app'
  proof (rule Cons.IH)
    show wf: "node_wf (push_entry e m)" using m i by (simp add: wf_push)
    show "indexed (p + 1) es" by (rule rest)
    show "\<forall>a \<in> set es. \<forall>x. find_index (e_index a) (log (push_entry e m)) = Some x \<longrightarrow>
        e_index a \<le> commit_index (push_entry e m) \<longrightarrow> e_term x = e_term a"
    proof (intro ballI allI impI)
      fix a x
      assume "a \<in> set es" "find_index (e_index a) (log (push_entry e m)) = Some x"
      moreover have "p + 1 < e_index a" using indexed_bounds[OF rest \<open>a \<in> set es\<close>] by simp
      moreover have "last_index (push_entry e m) = p + 1" using i by simp
      ultimately show "e_term x = e_term a" using find_wf[OF wf] by simp
    qed
  qed (use Cons.prems(3-6) m i in simp_all)
  have accept: "accept_entry message e m eff' = Inr (push_entry e m, eff')" if "last_index m = p" for m eff'
    using that i e Cons.prems(6) by (simp add: accept_entry_def)
  show ?case
  proof (cases "p = last_index n")
    case True
    then have "find_index (e_index e) (log n) = None" using Cons.prems(1) i by (simp add: find_wf)
    then show ?thesis using accept[of n] push[of n] True Cons.prems(1) by simp
  next
    case False
    then have found: "find_index (e_index e) (log n) = Some (log n ! (p - snapshot_index n))"
      using Cons.prems(1,3,4) i by (simp add: find_wf)
    show ?thesis
    proof (cases "e_term (log n ! (p - snapshot_index n)) = e_term e")
      case True
      have "is_ok (append_loop message es n eff app)"
      proof (rule Cons.IH[of n "p + 1"])
        show "\<forall>a \<in> set es. \<forall>x. find_index (e_index a) (log n) = Some x \<longrightarrow> e_index a \<le> commit_index n \<longrightarrow>
            e_term x = e_term a"
          using Cons.prems(7) by (meson list.set_intros(2))
      qed (use Cons.prems(1,3-6) False rest in simp_all)
      then show ?thesis using True found by simp
    next
      case conflict: False
      have commit: "commit_index n < p + 1"
      proof (rule ccontr)
        assume "\<not> commit_index n < p + 1"
        then have "e_index e \<le> commit_index n" using i by linarith
        then have "e_term (log n ! (p - snapshot_index n)) = e_term e"
          using bspec[OF Cons.prems(7), of e] found by auto
        then show False using conflict by contradiction
      qed
      let ?t = "truncate_from (p + 1) n"
      have t: "node_wf ?t" using wf_truncate[OF Cons.prems(1) commit] .
      have "log ?t = take (p - snapshot_index n) (log n)" using filter_less_indexed[OF idx, of "p + 1"] by simp
      then have "last_index ?t = p" using node_wf_last[OF t] Cons.prems(3,4) last by simp
      then show ?thesis using found conflict commit i accept[of ?t] push[of ?t] t by simp
    qed
  qed
qed simp

section \<open>Handling an append request\<close>

definition request_ok :: "append_request \<Rightarrow> bool" where
  "request_ok request \<longleftrightarrow>
     indexed (aq_prev_index request) (aq_entries request) \<and>
     (\<forall>e \<in> set (aq_entries request). \<not> is_config (e_kind e)) \<and>
     aq_prev_index request + length (aq_entries request) \<le> u64_max"

definition below_commit_agrees :: "node \<Rightarrow> append_request \<Rightarrow> bool" where
  "below_commit_agrees n request \<longleftrightarrow>
     (\<forall>e \<in> set (aq_entries request). \<forall>x. find_index (e_index e) (log n) = Some x \<longrightarrow>
        e_index e \<le> commit_index n \<longrightarrow> e_term x = e_term e)"

lemma term_at_bounds:
  assumes "node_wf n" "term_at n i = Some t" "snapshot_index n \<le> i"
  shows "i \<le> last_index n"
  using assms node_wf_last[OF assms(1)] by (auto simp: term_at_def find_wf split: if_splits)

lemma term_at_follow [simp]: "term_at (follow_leader message now n) i = term_at n i"
  by (simp add: term_at_def)

lemma handle_append_merge:
  assumes wf: "node_wf n" and ok: "request_ok request" and agree: "below_commit_agrees n request"
    and cur: "cur_term n \<le> m_term message" and prev: "snapshot_index n \<le> aq_prev_index request"
    and match: "term_at n (aq_prev_index request) = Some (aq_prev_term request)"
  obtains n1 t xs where
    "log n1 = merge_log (aq_prev_index request - snapshot_index n) (log n) (aq_entries request)"
    "log n1 = log_after (log n) (t @ persist_all xs)"
    "node_wf n1" "snapshot_index n1 = snapshot_index n" "commit_index n1 = commit_index n"
    "applied_index n1 = applied_index n" "hard_state n1 = hard_state n" "nid n1 = nid n"
    "handle_append_request message request now n =
       (fst (learn_commit (aq_leader_commit request) n1),
        t @ persist_all xs @ snd (learn_commit (aq_leader_commit request) n1) @
        [make_append_response (fst (learn_commit (aq_leader_commit request) n1)) message True (last_index n1) None 0])"
proof -
  let ?m = "follow_leader message now n"
  let ?r = "append_loop message (aq_entries request) ?m [] []"
  have m: "node_wf ?m" "last_index ?m = last_index n" using wf by (simp_all add: last_index_def)
  have le: "aq_prev_index request \<le> last_index n" using term_at_bounds[OF wf match prev] .
  have "is_ok ?r"
  proof (rule append_loop_returns[of ?m "aq_prev_index request"])
    show "\<forall>e \<in> set (aq_entries request). \<forall>x. find_index (e_index e) (log ?m) = Some x \<longrightarrow>
        e_index e \<le> commit_index ?m \<longrightarrow> e_term x = e_term e"
      using agree unfolding below_commit_agrees_def follow_leader_frame .
  qed (use m ok prev le in \<open>simp_all add: request_ok_def\<close>)
  then obtain n1 t xs where r: "?r = Inr (n1, t, xs)" by (auto simp: is_ok_iff)
  have "log n1 = merge_log (aq_prev_index request - snapshot_index ?m) (log ?m) (aq_entries request) \<and>
    (\<exists>t' xs'. t = [] @ t' \<and> xs = [] @ xs' \<and> log n1 = log_after (log ?m) (t' @ persist_all xs'))"
    by (rule append_loop_merge[OF r m(1)]) (use ok prev le m(2) in \<open>simp_all add: request_ok_def\<close>)
  then have log: "log n1 = merge_log (aq_prev_index request - snapshot_index n) (log n) (aq_entries request)"
      "log n1 = log_after (log n) (t @ persist_all xs)"
    by auto
  have wf1: "node_wf n1"
    using wf_append_loop[OF m(1), of message "aq_entries request" "[]" "[]"] by (simp add: r)
  note frame = append_loop_frame[of message "aq_entries request" ?m "[]" "[]", unfolded r loop_node.simps]
  have last: "last_index (fst (learn_commit c n1)) = last_index n1" for c by (simp add: last_index_def)
  have "handle_append_request message request now n =
       (fst (learn_commit (aq_leader_commit request) n1),
        t @ persist_all xs @ snd (learn_commit (aq_leader_commit request) n1) @
        [make_append_response (fst (learn_commit (aq_leader_commit request) n1)) message True (last_index n1) None 0])"
    using cur match r
    by (simp add: handle_append_request_def Let_def case_prod_beta persist_all_def last)
  then show thesis
    by (rule that[OF log wf1, rotated -1]) (simp_all add: frame)
qed

section \<open>Requests the leader sends\<close>

lemma send_append_slice:
  assumes "node_wf n" "snapshot_index n < next" "next \<le> last_index n + 1"
    "bmap_get (next_index n) peer = Some next"
  shows "send_append n peer =
     [Send \<lparr>m_proto_version = append_semantic_version
              (take (max_entries_per_append (config n)) (drop (next - 1 - snapshot_index n) (log n))),
            m_from = nid n, m_to = peer, m_term = cur_term n,
            m_kind = AppendReq \<lparr>aq_prev_index = next - 1, aq_prev_term = the (term_at n (next - 1)),
                       aq_entries = take (max_entries_per_append (config n)) (drop (next - 1 - snapshot_index n) (log n)),
                       aq_leader_commit = commit_index n, aq_read_round = read_round n\<rparr>\<rparr>]
   \<and> term_at n (next - 1) \<noteq> None
   \<and> indexed (next - 1) (take (max_entries_per_append (config n)) (drop (next - 1 - snapshot_index n) (log n)))"
proof -
  have idx: "indexed (snapshot_index n) (log n)" using assms(1) by (simp add: node_wf_def)
  have "filter (\<lambda>e. next \<le> e_index e) (log n) = drop (next - 1 - snapshot_index n) (log n)"
    using filter_le_indexed[OF idx, of "next"] assms(2) by (simp add: diff_diff_eq)
  moreover have t: "term_at n (next - 1) \<noteq> None"
    using assms(1-3) by (auto simp: term_at_def find_wf)
  moreover have "indexed (next - 1) (take k (drop (next - 1 - snapshot_index n) (log n)))" for k
    using indexed_take[OF indexed_drop[OF idx, of "next - 1 - snapshot_index n"]] assms(2) by simp
  ultimately show ?thesis
    using assms(4) by (auto simp: send_append_def Let_def)
qed

section \<open>The commit rule\<close>

lemma foldl_pick_last:
  assumes "sorted_wrt (<) ks" "\<forall>k \<in> set ks. c0 < k"
  shows "foldl (\<lambda>c k. if P k then k else c) c0 ks = Max (insert c0 {k \<in> set ks. P k})"
  using assms
proof (induction ks rule: rev_induct)
  case (snoc k ks)
  have IH: "foldl (\<lambda>c k. if P k then k else c) c0 ks = Max (insert c0 {k \<in> set ks. P k})"
    using snoc by (simp add: sorted_wrt_append)
  show ?case
  proof (cases "P k")
    case True
    have "Max (insert c0 {x \<in> set (ks @ [k]). P x}) = k"
      using snoc.prems True by (intro Max_eqI) (auto simp: sorted_wrt_append intro: less_imp_le)
    then show ?thesis using True by simp
  next
    case False
    then have "{x \<in> set (ks @ [k]). P x} = {x \<in> set ks. P x}" by auto
    then show ?thesis using False IH by simp
  qed
qed simp

lemma commit_scan_Max:
  "commit_scan n = Max (insert (commit_index n)
     {i. commit_index n < i \<and> i \<le> last_index n \<and> commit_quorum n i \<and> term_at n i = Some (cur_term n)})"
proof -
  have "{k \<in> set [commit_index n + 1 ..< last_index n + 1]. commit_quorum n k \<and> term_at n k = Some (cur_term n)}
      = {i. commit_index n < i \<and> i \<le> last_index n \<and> commit_quorum n i \<and> term_at n i = Some (cur_term n)}"
    by auto
  then show ?thesis
    unfolding commit_scan_def by (subst foldl_pick_last) (auto simp del: upt_Suc)
qed

end
