(* ===== verification/Quorum.thy ===== *)
theory Quorum
  imports RaftTypes
begin

text \<open>
  Quorum systems.  The interface is the one law elections and commits rest on: two quorums meet.
  Majorities of a finite voter set satisfy it, and so do the joint quorums of a membership change,
  which moreover meet every majority of the old and of the new voters.  The counting in
  \<open>RaftNode::has_majority\<close> and \<open>RaftNode::commit_quorum\<close> is shown to be exactly that.
\<close>

definition majority_of :: "nat set \<Rightarrow> nat set \<Rightarrow> bool" where
  "majority_of V Q \<longleftrightarrow> finite V \<and> card V div 2 < card (Q \<inter> V)"

definition joint_quorum :: "nat set \<Rightarrow> nat set \<Rightarrow> nat set \<Rightarrow> bool" where
  "joint_quorum old new Q \<longleftrightarrow> majority_of old Q \<and> majority_of new Q"

text \<open>The quorum predicate a node uses: its voters, or both halves of its joint configuration.\<close>

definition node_quorum :: "node \<Rightarrow> nat set \<Rightarrow> bool" where
  "node_quorum n Q =
     (case joint n of None \<Rightarrow> majority_of (set (voters n)) Q
      | Some (old, new) \<Rightarrow> joint_quorum (set old) (set new) Q)"

locale quorum_system =
  fixes quorum :: "nat set \<Rightarrow> bool"
  assumes intersect: "quorum Q \<Longrightarrow> quorum Q' \<Longrightarrow> Q \<inter> Q' \<noteq> {}"
begin

lemma quorum_nonempty: "quorum Q \<Longrightarrow> Q \<noteq> {}"
  using intersect[of Q Q] by auto

lemma common_member:
  assumes "quorum Q" "quorum Q'"
  obtains v where "v \<in> Q" "v \<in> Q'"
  using intersect[OF assms] by auto

text \<open>If every member of a quorum supports at most one value, two quorums agree.\<close>

lemma unique_choice:
  assumes "quorum Q" "quorum Q'" "\<forall>v \<in> Q. (v, a) \<in> R" "\<forall>v \<in> Q'. (v, b) \<in> R"
    "\<And>v x y. (v, x) \<in> R \<Longrightarrow> (v, y) \<in> R \<Longrightarrow> x = y"
  shows "a = b"
  using assms common_member[OF assms(1,2)] by metis

end

lemma majorities_meet:
  assumes "majority_of V Q" "majority_of V Q'"
  shows "Q \<inter> Q' \<noteq> {}"
proof
  assume "Q \<inter> Q' = {}"
  then have "card (Q \<inter> V) + card (Q' \<inter> V) = card ((Q \<inter> V) \<union> (Q' \<inter> V))"
    using assms by (subst card_Un_disjoint) (auto simp: majority_of_def)
  also have "\<dots> \<le> card V"
    using assms by (intro card_mono) (auto simp: majority_of_def)
  finally show False using assms by (auto simp: majority_of_def)
qed

interpretation majority_quorums: quorum_system "majority_of V" for V
  by unfold_locales (rule majorities_meet)

interpretation joint_quorums: quorum_system "joint_quorum old new" for old new
  by unfold_locales (auto simp: joint_quorum_def dest: majorities_meet)

interpretation node_quorums: quorum_system "node_quorum n" for n
  by unfold_locales
    (auto simp: node_quorum_def split: option.splits prod.splits
      dest: majority_quorums.intersect joint_quorums.intersect)

text \<open>A joint quorum meets every majority of either configuration.\<close>

lemma joint_meets_old: "joint_quorum old new Q \<Longrightarrow> majority_of old Q' \<Longrightarrow> Q \<inter> Q' \<noteq> {}"
  and joint_meets_new: "joint_quorum old new Q \<Longrightarrow> majority_of new Q' \<Longrightarrow> Q \<inter> Q' \<noteq> {}"
  by (auto simp: joint_quorum_def dest: majorities_meet)

lemma majority_mono: "majority_of V Q \<Longrightarrow> Q \<subseteq> Q' \<Longrightarrow> majority_of V Q'"
  unfolding majority_of_def
  by (meson Int_mono card_mono finite_Int order_less_le_trans subset_refl)

section \<open>The node's counting\<close>

definition membership_sorted :: "node \<Rightarrow> bool" where
  "membership_sorted n \<longleftrightarrow>
     bset_ok (voters n) \<and> (case joint n of None \<Rightarrow> True | Some (old, new) \<Rightarrow> bset_ok old \<and> bset_ok new)"

lemma count_in_card: "bset_ok vs \<Longrightarrow> count_in vs members = card (set vs \<inter> set members)"
proof -
  assume "bset_ok vs"
  then have "count_in vs members = card {v \<in> set vs. v \<in> set members}"
    by (simp add: count_in_def length_filter_bset bset_ok_distinct)
  also have "{v \<in> set vs. v \<in> set members} = set vs \<inter> set members" by auto
  finally show ?thesis .
qed

lemma Collect_Int_eq: "Collect P \<inter> S = {x \<in> S. P x}"
  by auto

lemma has_majority_quorum:
  assumes "membership_sorted n" "bset_ok vs"
  shows "has_majority n vs \<longleftrightarrow> node_quorum n (set vs)"
  using assms
  by (auto simp: has_majority_def node_quorum_def joint_quorum_def majority_of_def majority_def membership_sorted_def
      count_in_card length_bset split: option.splits)

lemma commit_quorum_quorum:
  assumes "membership_sorted n"
  shows "commit_quorum n i \<longleftrightarrow> node_quorum n {v. acked n i v}"
  using assms
  by (auto simp: commit_quorum_def node_quorum_def joint_quorum_def majority_of_def majority_def membership_sorted_def
      Collect_Int_eq length_bset split: option.splits)

end
