(* ===== verification/RaftExec.thy ===== *)
theory RaftExec
  imports RaftReplication Quorum
begin

text \<open>
  Executions of one node: any sequence of inputs, with the effects it emits in order.  The guarantees
  of a single input lift to whole executions by rule induction: the node stays well formed, its hard
  state is what a replay of the persisted records rebuilds, and the entries handed to the state
  machine are the applied prefix of the log, each exactly once.
\<close>

section \<open>Executions\<close>

inductive node_exec :: "(node \<Rightarrow> node_input \<Rightarrow> bool) \<Rightarrow> node \<Rightarrow> node \<Rightarrow> raft_effect list \<Rightarrow> bool"
  for allowed where
  exec_start: "node_exec allowed n n []"
| exec_step: "node_exec allowed n0 n es \<Longrightarrow> last_index n + 2 \<le> u64_max \<Longrightarrow> allowed n inp \<Longrightarrow>
    node_exec allowed n0 (fst (node_step inp n)) (es @ snd (node_step inp n))"

definition bounded_input :: "node \<Rightarrow> node_input \<Rightarrow> bool" where
  "bounded_input n inp \<longleftrightarrow> input_bounded inp"

definition log_input :: "node \<Rightarrow> node_input \<Rightarrow> bool" where
  "log_input n inp \<longleftrightarrow> \<not> is_install inp \<and> \<not> retiring_ack n inp"

lemma exec_one:
  assumes "last_index n + 2 \<le> u64_max" "allowed n inp"
  shows "node_exec allowed n (fst (node_step inp n)) (snd (node_step inp n))"
  using exec_step[OF exec_start[of allowed n] assms] by simp

lemma exec_trans:
  assumes "node_exec allowed n1 n2 fs" "node_exec allowed n0 n1 es"
  shows "node_exec allowed n0 n2 (es @ fs)"
  using assms
proof (induction rule: node_exec.induct)
  case (exec_step n0' n fs inp)
  from node_exec.exec_step[OF exec_step.IH[OF exec_step.prems] exec_step.hyps(2,3)] show ?case by simp
qed simp

section \<open>Lifting the guarantees of one input\<close>

lemma log_input_bounded: "log_input n inp \<Longrightarrow> input_bounded inp"
  by (cases inp) (simp_all add: log_input_def)

lemma exec_wf:
  assumes "node_exec allowed n0 n es" "node_wf n0" "\<And>m inp. allowed m inp \<Longrightarrow> input_bounded inp"
  shows "node_wf n"
  using assms by (induction rule: node_exec.induct) (auto intro: wf_step)

lemma hard_after_append [simp]: "hard_after h (es @ fs) = hard_after (hard_after h es) fs"
  by (induction h es rule: hard_after.induct) auto

lemma exec_hard:
  assumes "node_exec allowed n0 n es"
  shows "hard_le (hard_state n0) (hard_state n)" "hard_after (hard_state n0) es = hard_state n"
  using assms
proof (induction rule: node_exec.induct)
  case (exec_step n0 n es inp)
  {
    case 1
    show ?case using exec_step.IH(1) hard_step[of n inp] by (rule hard_le_trans)
  next
    case 2
    show ?case using exec_step.IH(2) durable_step[of n inp] by (simp add: hard_durable_def)
  }
qed simp_all

lemma exec_progress:
  assumes "node_exec log_input n0 n es" "node_wf n0"
  shows "progress n0 (n, es)"
  using assms
proof (induction rule: node_exec.induct)
  case (exec_start n)
  then show ?case by (simp add: progress_def)
next
  case (exec_step n0 n es inp)
  have "node_wf n" by (rule exec_wf[OF exec_step.hyps(1) exec_step.prems]) (rule log_input_bounded)
  then have "progress n (node_step inp n)"
    using exec_step.hyps by (intro progress_step) (simp_all add: log_input_def)
  with exec_step.IH[OF exec_step.prems] show ?case
    by (auto simp: progress_def intro: prefix_order.trans)
qed

end
