(* ===== verification/RaftProtocol.thy ===== *)
theory RaftProtocol
  imports RaftExec
begin

text \<open>
  The protocol the node code promises to follow, as an abstract transition system over a fixed
  quorum system: what each server may do to its term, vote, log, commit index and replication
  progress, and which messages it may send.  Messages are never removed, so loss, duplication and
  reordering are all covered.  The \<open>g_\<close> fields are history variables: they record the votes cast, the
  log of every campaign, the log of the leader of each term and the acknowledgements given, and
  never influence a step.
\<close>

section \<open>State\<close>

record protocol =
  p_term :: "nat \<Rightarrow> nat"
  p_vote :: "nat \<Rightarrow> nat option"
  p_role :: "nat \<Rightarrow> role"
  p_log :: "nat \<Rightarrow> entry list"
  p_commit :: "nat \<Rightarrow> nat"
  p_votes :: "nat \<Rightarrow> nat set"
  p_next :: "nat \<Rightarrow> nat \<Rightarrow> nat"
  p_match :: "nat \<Rightarrow> nat \<Rightarrow> nat"
  p_msgs :: "message set"
  g_votes :: "(nat \<times> nat \<times> nat) set"
  g_early :: "(nat \<times> nat \<times> nat) set"
  g_clog :: "nat \<Rightarrow> nat \<Rightarrow> entry list option"
  g_lead :: "nat \<Rightarrow> nat option"
  g_log :: "nat \<Rightarrow> entry list"
  g_noop :: "nat \<Rightarrow> nat"
  g_acks :: "(nat \<times> nat \<times> nat) set"

definition log_term :: "entry list \<Rightarrow> nat" where
  "log_term l = (if l = [] then 0 else e_term (last l))"

definition term_of :: "entry list \<Rightarrow> nat \<Rightarrow> nat" where
  "term_of l k = (if k = 0 then 0 else e_term (l ! (k - 1)))"

definition up_to_date :: "entry list \<Rightarrow> nat \<Rightarrow> nat \<Rightarrow> bool" where
  "up_to_date l li lt \<longleftrightarrow> log_term l < lt \<or> (lt = log_term l \<and> length l \<le> li)"

definition prev_matches :: "entry list \<Rightarrow> append_request \<Rightarrow> bool" where
  "prev_matches l rq \<longleftrightarrow> aq_prev_index rq \<le> length l \<and> term_of l (aq_prev_index rq) = aq_prev_term rq"

definition merged :: "entry list \<Rightarrow> append_request \<Rightarrow> entry list" where
  "merged l rq = merge_log (aq_prev_index rq) l (aq_entries rq)"

definition conflict_hint :: "entry list \<Rightarrow> append_request \<Rightarrow> nat" where
  "conflict_hint l rq = (if length l < aq_prev_index rq then length l + 1 else max (aq_prev_index rq) 1)"

text \<open>Messages whose content the protocol does not constrain.\<close>

fun inert :: "message_kind \<Rightarrow> bool" where
  "inert (VoteReq _ _) = False"
| "inert (VoteResp granted) = (\<not> granted)"
| "inert (AppendReq _) = False"
| "inert (AppendResp _) = False"
| "inert _ = True"

section \<open>Steps\<close>

definition do_bump :: "nat \<Rightarrow> nat \<Rightarrow> role \<Rightarrow> protocol \<Rightarrow> protocol" where
  "do_bump i t r s = s\<lparr>p_term := (p_term s)(i := t), p_vote := (p_vote s)(i := None),
     p_role := (p_role s)(i := r), p_votes := (p_votes s)(i := {})\<rparr>"

definition do_campaign :: "nat \<Rightarrow> protocol \<Rightarrow> protocol" where
  "do_campaign i s =
     (let t = p_term s i + 1 in
      s\<lparr>p_term := (p_term s)(i := t), p_vote := (p_vote s)(i := Some i),
        p_role := (p_role s)(i := Candidate), p_votes := (p_votes s)(i := {i}),
        g_votes := insert (i, t, i) (g_votes s),
        g_early := (if g_lead s t = None then insert (i, t, i) (g_early s) else g_early s),
        g_clog := (g_clog s)(t := (g_clog s t)(i := Some (p_log s i))),
        p_msgs := p_msgs s \<union>
          {m. m_from m = i \<and> m_term m = t \<and>
              m_kind m = VoteReq (length (p_log s i)) (log_term (p_log s i))}\<rparr>)"

definition do_vote :: "nat \<Rightarrow> nat \<Rightarrow> protocol \<Rightarrow> protocol" where
  "do_vote v c s =
     (let t = p_term s v in
      s\<lparr>p_vote := (p_vote s)(v := Some c),
        g_votes := insert (v, t, c) (g_votes s),
        g_early := (if g_lead s t = None then insert (v, t, c) (g_early s) else g_early s),
        p_msgs := p_msgs s \<union> {m. m_from m = v \<and> m_to m = c \<and> m_term m = t \<and> m_kind m = VoteResp True}\<rparr>)"

definition do_lead :: "nat \<Rightarrow> entry \<Rightarrow> protocol \<Rightarrow> protocol" where
  "do_lead i e s =
     (let t = p_term s i; l = p_log s i @ [e] in
      s\<lparr>p_role := (p_role s)(i := Leader), p_log := (p_log s)(i := l),
        p_next := (p_next s)(i := (\<lambda>_. length l + 1)), p_match := (p_match s)(i := (\<lambda>_. 0)),
        g_lead := (g_lead s)(t := Some i), g_log := (g_log s)(t := l),
        g_noop := (if g_lead s t = None then (g_noop s)(t := length l) else g_noop s),
        g_acks := insert (i, t, length l) (g_acks s)\<rparr>)"

definition do_extend :: "nat \<Rightarrow> entry \<Rightarrow> protocol \<Rightarrow> protocol" where
  "do_extend i e s =
     (let t = p_term s i; l = p_log s i @ [e] in
      s\<lparr>p_log := (p_log s)(i := l), g_log := (g_log s)(t := l),
        g_acks := insert (i, t, length l) (g_acks s)\<rparr>)"

text \<open>The slice of its log a leader sends to a peer, \<open>k\<close> entries at most.\<close>

definition slice_request :: "entry list \<Rightarrow> nat \<Rightarrow> nat \<Rightarrow> append_request \<Rightarrow> bool" where
  "slice_request l next k rq \<longleftrightarrow>
     aq_prev_index rq = next - 1 \<and>
     aq_prev_term rq = (if next - 1 \<le> length l then term_of l (next - 1) else 0) \<and>
     aq_entries rq = take k (drop (next - 1) l)"

definition do_accept :: "nat \<Rightarrow> message \<Rightarrow> append_request \<Rightarrow> protocol \<Rightarrow> protocol" where
  "do_accept f m rq s =
     (let t = p_term s f; l = merged (p_log s f) rq in
      s\<lparr>p_log := (p_log s)(f := l),
        p_commit := (p_commit s)(f :=
          if p_commit s f < aq_leader_commit rq then min (aq_leader_commit rq) (length l) else p_commit s f),
        g_acks := insert (f, t, length l) (g_acks s),
        p_msgs := p_msgs s \<union>
          {r. m_from r = f \<and> m_term r = t \<and>
              (\<exists>a. m_kind r = AppendResp a \<and> ap_success a \<and> ap_match_index a = length l)}\<rparr>)"

definition failure_from :: "nat \<Rightarrow> nat \<Rightarrow> nat \<Rightarrow> message set" where
  "failure_from f t c =
     {r. m_from r = f \<and> m_term r = t \<and>
         (\<exists>a. m_kind r = AppendResp a \<and> \<not> ap_success a \<and> ap_conflict_index a = c)}"

inductive protocol_step :: "(nat set \<Rightarrow> bool) \<Rightarrow> protocol \<Rightarrow> protocol \<Rightarrow> bool" for quorum where
  bump: "p_term s i < t \<Longrightarrow> r = Follower \<or> r = Learner \<Longrightarrow> protocol_step quorum s (do_bump i t r s)"
| demote: "r = Follower \<or> r = Learner \<Longrightarrow> protocol_step quorum s (s\<lparr>p_role := (p_role s)(i := r)\<rparr>)"
| stand: "protocol_step quorum s (s\<lparr>p_role := (p_role s)(i := Candidate), p_votes := (p_votes s)(i := {})\<rparr>)"
| campaign: "protocol_step quorum s (do_campaign i s)"
| vote: "m \<in> p_msgs s \<Longrightarrow> m_kind m = VoteReq li lt \<Longrightarrow> m_term m = p_term s v \<Longrightarrow>
    p_vote s v = None \<or> p_vote s v = Some (m_from m) \<Longrightarrow> up_to_date (p_log s v) li lt \<Longrightarrow>
    protocol_step quorum s (do_vote v (m_from m) s)"
| count: "m \<in> p_msgs s \<Longrightarrow> m_kind m = VoteResp True \<Longrightarrow> m_to m = i \<Longrightarrow> m_term m = p_term s i \<Longrightarrow>
    protocol_step quorum s (s\<lparr>p_votes := (p_votes s)(i := insert (m_from m) (p_votes s i))\<rparr>)"
| lead: "p_role s i = Candidate \<Longrightarrow> quorum (p_votes s i) \<Longrightarrow> e_term e = p_term s i \<Longrightarrow>
    e_index e = length (p_log s i) + 1 \<Longrightarrow> protocol_step quorum s (do_lead i e s)"
| extend: "p_role s i = Leader \<Longrightarrow> e_term e = p_term s i \<Longrightarrow> e_index e = length (p_log s i) + 1 \<Longrightarrow>
    protocol_step quorum s (do_extend i e s)"
| send: "p_role s i = Leader \<Longrightarrow> m_from m = i \<Longrightarrow> m_term m = p_term s i \<Longrightarrow> m_to m \<noteq> i \<Longrightarrow>
    m_kind m = AppendReq rq \<Longrightarrow> slice_request (p_log s i) (p_next s i (m_to m)) k rq \<Longrightarrow> 0 < k \<Longrightarrow>
    aq_leader_commit rq = p_commit s i \<Longrightarrow>
    protocol_step quorum s (s\<lparr>p_msgs := insert m (p_msgs s)\<rparr>)"
| accept: "m \<in> p_msgs s \<Longrightarrow> m_kind m = AppendReq rq \<Longrightarrow> m_to m = f \<Longrightarrow> m_term m = p_term s f \<Longrightarrow>
    prev_matches (p_log s f) rq \<Longrightarrow>
    protocol_step quorum s (do_accept f m rq s)"
| reject: "m \<in> p_msgs s \<Longrightarrow> m_kind m = AppendReq rq \<Longrightarrow> m_to m = f \<Longrightarrow> m_term m = p_term s f \<Longrightarrow>
    \<not> prev_matches (p_log s f) rq \<Longrightarrow>
    protocol_step quorum s
      (s\<lparr>p_msgs := p_msgs s \<union> failure_from f (p_term s f) (conflict_hint (p_log s f) rq)\<rparr>)"
| refuse: "protocol_step quorum s
      (s\<lparr>p_msgs := p_msgs s \<union> failure_from f (p_term s f) (length (p_log s f))\<rparr>)"
| learn_match: "m \<in> p_msgs s \<Longrightarrow> m_kind m = AppendResp a \<Longrightarrow> ap_success a \<Longrightarrow> m_term m = p_term s i \<Longrightarrow>
    p_role s i = Leader \<Longrightarrow>
    protocol_step quorum s
      (s\<lparr>p_match := (p_match s)(i := (p_match s i)(m_from m := ap_match_index a)),
         p_next := (p_next s)(i := (p_next s i)(m_from m := ap_match_index a + 1))\<rparr>)"
| learn_conflict: "m \<in> p_msgs s \<Longrightarrow> m_kind m = AppendResp a \<Longrightarrow> \<not> ap_success a \<Longrightarrow>
    m_term m = p_term s i \<Longrightarrow> p_role s i = Leader \<Longrightarrow>
    protocol_step quorum s
      (s\<lparr>p_next := (p_next s)(i := (p_next s i)(m_from m := max (ap_conflict_index a) 1))\<rparr>)"
| commit: "p_role s i = Leader \<Longrightarrow> p_commit s i < c \<Longrightarrow> c \<le> length (p_log s i) \<Longrightarrow>
    term_of (p_log s i) c = p_term s i \<Longrightarrow> quorum {f. f = i \<or> c \<le> p_match s i f} \<Longrightarrow>
    protocol_step quorum s (s\<lparr>p_commit := (p_commit s)(i := c)\<rparr>)"
| noise: "inert (m_kind m) \<Longrightarrow> protocol_step quorum s (s\<lparr>p_msgs := insert m (p_msgs s)\<rparr>)"
| restart: "c \<le> p_commit s i \<Longrightarrow>
    protocol_step quorum s (s\<lparr>p_role := (p_role s)(i := Follower), p_votes := (p_votes s)(i := {}),
        p_commit := (p_commit s)(i := c)\<rparr>)"

definition protocol_init :: "protocol \<Rightarrow> bool" where
  "protocol_init s \<longleftrightarrow>
     (\<forall>i. p_term s i = 0 \<and> p_vote s i = None \<and> p_role s i \<noteq> Leader \<and> p_log s i = [] \<and> p_commit s i = 0 \<and>
          p_votes s i = {}) \<and>
     p_msgs s = {} \<and> g_votes s = {} \<and> g_early s = {} \<and> g_clog s = (\<lambda>_ _. None) \<and> g_lead s = (\<lambda>_. None) \<and>
     g_acks s = {}"

inductive reachable :: "(nat set \<Rightarrow> bool) \<Rightarrow> protocol \<Rightarrow> bool" for quorum where
  reach_init: "protocol_init s \<Longrightarrow> reachable quorum s"
| reach_step: "reachable quorum s \<Longrightarrow> protocol_step quorum s s' \<Longrightarrow> reachable quorum s'"

end
