(* ===== verification/RaftVotes.thy ===== *)
theory RaftVotes
  imports RaftProtocol
begin

text \<open>
  Invariants of the abstract protocol about terms, votes and campaigns, and election safety: a term
  has at most one leader, because the votes that elected it form a quorum and no server votes twice
  in a term.
\<close>

section \<open>Invariants\<close>

definition votes_recorded :: "protocol \<Rightarrow> bool" where
  "votes_recorded s \<longleftrightarrow>
     (\<forall>v t c. (v, t, c) \<in> g_votes s \<longrightarrow>
        1 \<le> t \<and> t \<le> p_term s v \<and> (t = p_term s v \<longrightarrow> p_vote s v = Some c) \<and> g_clog s t c \<noteq> None)"

definition votes_unique :: "protocol \<Rightarrow> bool" where
  "votes_unique s \<longleftrightarrow> (\<forall>v t c c'. (v, t, c) \<in> g_votes s \<longrightarrow> (v, t, c') \<in> g_votes s \<longrightarrow> c = c')"

definition votes_early :: "protocol \<Rightarrow> bool" where
  "votes_early s \<longleftrightarrow>
     g_early s \<subseteq> g_votes s \<and>
     (\<forall>v t c. g_lead s t = None \<longrightarrow> (v, t, c) \<in> g_votes s \<longrightarrow> (v, t, c) \<in> g_early s)"

definition campaigns_past :: "protocol \<Rightarrow> bool" where
  "campaigns_past s \<longleftrightarrow> (\<forall>t c. g_clog s t c \<noteq> None \<longrightarrow> 1 \<le> t \<and> t \<le> p_term s c)"

definition votes_counted :: "protocol \<Rightarrow> bool" where
  "votes_counted s \<longleftrightarrow> (\<forall>i. \<forall>v \<in> p_votes s i. (v, p_term s i, i) \<in> g_votes s)"

definition leaders_elected :: "(nat set \<Rightarrow> bool) \<Rightarrow> protocol \<Rightarrow> bool" where
  "leaders_elected quorum s \<longleftrightarrow>
     (\<forall>t i. g_lead s t = Some i \<longrightarrow> (\<exists>Q. quorum Q \<and> (\<forall>v \<in> Q. (v, t, i) \<in> g_early s)))"

definition vote_messages :: "protocol \<Rightarrow> bool" where
  "vote_messages s \<longleftrightarrow>
     (\<forall>m \<in> p_msgs s.
        (\<forall>li lt. m_kind m = VoteReq li lt \<longrightarrow>
           (\<exists>l. g_clog s (m_term m) (m_from m) = Some l \<and> li = length l \<and> lt = log_term l)) \<and>
        (m_kind m = VoteResp True \<longrightarrow> (m_from m, m_term m, m_to m) \<in> g_votes s))"

definition roles_led :: "protocol \<Rightarrow> bool" where
  "roles_led s \<longleftrightarrow> (\<forall>i. p_role s i = Leader \<longrightarrow> g_lead s (p_term s i) = Some i)"

definition leads_past :: "protocol \<Rightarrow> bool" where
  "leads_past s \<longleftrightarrow> (\<forall>t i. g_lead s t = Some i \<longrightarrow> t \<le> p_term s i)"

definition votes_inv :: "(nat set \<Rightarrow> bool) \<Rightarrow> protocol \<Rightarrow> bool" where
  "votes_inv quorum s \<longleftrightarrow>
     votes_recorded s \<and> votes_unique s \<and> votes_early s \<and> campaigns_past s \<and> votes_counted s \<and>
     leaders_elected quorum s \<and> vote_messages s \<and> roles_led s \<and> leads_past s"

lemmas do_defs = do_bump_def do_campaign_def do_vote_def do_lead_def do_extend_def do_accept_def Let_def

lemma votes_invD:
  assumes "votes_inv quorum s"
  shows "votes_recorded s" "votes_unique s" "votes_early s" "campaigns_past s" "votes_counted s"
    "leaders_elected quorum s" "vote_messages s" "roles_led s" "leads_past s"
  using assms by (simp_all add: votes_inv_def)

lemma votes_inv_init: "protocol_init s \<Longrightarrow> votes_inv quorum s"
  by (auto simp: protocol_init_def votes_inv_def votes_recorded_def votes_unique_def votes_early_def
      campaigns_past_def votes_counted_def leaders_elected_def vote_messages_def roles_led_def leads_past_def)

section \<open>Preservation\<close>

lemma request_campaign:
  assumes "vote_messages s" "m \<in> p_msgs s" "m_kind m = VoteReq li lt"
  obtains l where "g_clog s (m_term m) (m_from m) = Some l" "li = length l" "lt = log_term l"
  using assms unfolding vote_messages_def by blast

lemma recorded_step:
  assumes "protocol_step quorum s s'" "votes_recorded s" "vote_messages s" "campaigns_past s"
  shows "votes_recorded s'"
  using assms(1)
proof (cases rule: protocol_step.cases)
  case (vote m li lt v)
  obtain l where "g_clog s (p_term s v) (m_from m) = Some l"
    using request_campaign[OF assms(3) vote(2,3)] vote(4) by metis
  moreover from this have "1 \<le> p_term s v" using assms(4) by (auto simp: campaigns_past_def)
  ultimately show ?thesis
    using assms(2) vote unfolding votes_recorded_def by (auto simp: do_defs)
qed (use assms(2) in \<open>(fastforce simp: votes_recorded_def do_defs)+\<close>)

lemma unique_step:
  assumes "protocol_step quorum s s'" "votes_recorded s" "votes_unique s"
  shows "votes_unique s'"
  using assms(1)
proof (cases rule: protocol_step.cases)
  case (campaign i)
  have "(i, Suc (p_term s i), c) \<notin> g_votes s" for c
    using assms(2) unfolding votes_recorded_def by (meson Suc_n_not_le_n)
  with assms(3) campaign show ?thesis by (auto simp: votes_unique_def do_defs)
next
  case (vote m li lt v)
  have "(v, p_term s v, c) \<in> g_votes s \<Longrightarrow> c = m_from m" for c
    using assms(2) vote(5) by (auto simp: votes_recorded_def)
  with assms(3) vote show ?thesis by (auto simp: votes_unique_def do_defs)
qed (use assms(3) in \<open>simp_all add: votes_unique_def do_defs\<close>)

lemma early_step:
  assumes "protocol_step quorum s s'" "votes_early s"
  shows "votes_early s'"
  using assms by (cases rule: protocol_step.cases) (auto simp: votes_early_def do_defs)

lemma campaigns_step:
  assumes "protocol_step quorum s s'" "campaigns_past s"
  shows "campaigns_past s'"
  using assms by (cases rule: protocol_step.cases) (fastforce simp: campaigns_past_def do_defs)+

lemma counted_step:
  assumes "protocol_step quorum s s'" "votes_counted s" "vote_messages s"
  shows "votes_counted s'"
  using assms(1)
proof (cases rule: protocol_step.cases)
  case (count m i)
  then have "(m_from m, p_term s i, i) \<in> g_votes s" using assms(3) by (auto simp: vote_messages_def)
  with assms(2) count show ?thesis by (auto simp: votes_counted_def)
qed (use assms(2) in \<open>auto simp: votes_counted_def do_defs\<close>)

lemma vote_messages_step:
  assumes "protocol_step quorum s s'" "vote_messages s" "campaigns_past s"
  shows "vote_messages s'"
  using assms(1)
proof (cases rule: protocol_step.cases)
  case (campaign i)
  have "g_clog s (Suc (p_term s i)) i = None"
    using assms(3) by (force simp: campaigns_past_def)
  with assms(2) campaign show ?thesis
    by (fastforce simp: vote_messages_def do_defs)
next
  case (noise m)
  with assms(2) show ?thesis by (cases "m_kind m") (auto simp: vote_messages_def)
qed (use assms(2) in \<open>auto simp: vote_messages_def do_defs failure_from_def\<close>)

section \<open>Election safety\<close>

context quorum_system
begin

lemma elected_candidate:
  assumes "votes_inv quorum s" "quorum (p_votes s i)"
  shows "g_lead s (p_term s i) = None \<or> g_lead s (p_term s i) = Some i"
    and "g_clog s (p_term s i) i \<noteq> None"
proof -
  note inv = votes_invD[OF assms(1)]
  have counted: "(v, p_term s i, i) \<in> g_votes s" if "v \<in> p_votes s i" for v
    using inv(5) that by (simp add: votes_counted_def)
  obtain v where v: "v \<in> p_votes s i" using quorum_nonempty[OF assms(2)] by blast
  with counted inv(1) show "g_clog s (p_term s i) i \<noteq> None" by (fastforce simp: votes_recorded_def)
  have "j = i" if j: "g_lead s (p_term s i) = Some j" for j
  proof -
    obtain Q where Q: "quorum Q" "\<forall>v \<in> Q. (v, p_term s i, j) \<in> g_early s"
      using inv(6) j unfolding leaders_elected_def by blast
    obtain v where "v \<in> Q" "v \<in> p_votes s i" using common_member[OF Q(1) assms(2)] .
    then have "(v, p_term s i, j) \<in> g_votes s" "(v, p_term s i, i) \<in> g_votes s"
      using Q(2) inv(3) counted by (auto simp: votes_early_def)
    with inv(2) show "j = i" by (auto simp: votes_unique_def)
  qed
  then show "g_lead s (p_term s i) = None \<or> g_lead s (p_term s i) = Some i" by (cases "g_lead s (p_term s i)") auto
qed

lemma elected_step:
  assumes "protocol_step quorum s s'" "votes_inv quorum s"
  shows "leaders_elected quorum s'"
  using assms(1)
proof (cases rule: protocol_step.cases)
  case (lead i e)
  note inv = votes_invD[OF assms(2)]
  have "\<exists>Q. quorum Q \<and> (\<forall>v \<in> Q. (v, p_term s i, i) \<in> g_early s)"
  proof (cases "g_lead s (p_term s i)")
    case None
    with inv(3,5) have "\<forall>v \<in> p_votes s i. (v, p_term s i, i) \<in> g_early s"
      by (auto simp: votes_early_def votes_counted_def)
    with lead show ?thesis by blast
  next
    case (Some j)
    with elected_candidate(1)[OF assms(2) lead(3)] have "g_lead s (p_term s i) = Some i" by auto
    with inv(6) show ?thesis by (simp add: leaders_elected_def)
  qed
  with inv(6) lead show ?thesis by (auto simp: leaders_elected_def do_defs)
qed (use votes_invD(6)[OF assms(2)] in \<open>fastforce simp: leaders_elected_def do_defs\<close>)+

lemma roles_step:
  assumes "protocol_step quorum s s'" "votes_inv quorum s"
  shows "roles_led s'"
  using assms(1)
proof (cases rule: protocol_step.cases)
  case (lead i e)
  have "j = i" if "p_role s j = Leader" "p_term s j = p_term s i" for j
    using votes_invD(8)[OF assms(2)] that elected_candidate(1)[OF assms(2) lead(3)] by (fastforce simp: roles_led_def)
  with votes_invD(8)[OF assms(2)] lead show ?thesis by (auto simp: roles_led_def do_defs)
qed (use votes_invD(8)[OF assms(2)] in \<open>auto simp: roles_led_def do_defs\<close>)

lemma leads_step:
  assumes "protocol_step quorum s s'" "votes_inv quorum s"
  shows "leads_past s'"
  using assms(1) votes_invD(9)[OF assms(2)]
  by (cases rule: protocol_step.cases) (fastforce simp: leads_past_def do_defs)+

lemma votes_inv_step:
  assumes "protocol_step quorum s s'" "votes_inv quorum s"
  shows "votes_inv quorum s'"
  unfolding votes_inv_def
  using recorded_step[OF assms(1)] unique_step[OF assms(1)] early_step[OF assms(1)] campaigns_step[OF assms(1)]
    counted_step[OF assms(1)] vote_messages_step[OF assms(1)] elected_step[OF assms] roles_step[OF assms]
    leads_step[OF assms] votes_invD[OF assms(2)]
  by blast

lemma votes_inv_reachable: "reachable quorum s \<Longrightarrow> votes_inv quorum s"
  by (induction rule: reachable.induct) (auto intro: votes_inv_init votes_inv_step)

lemma election_safety:
  assumes "reachable quorum s" "p_role s i = Leader" "p_role s j = Leader" "p_term s i = p_term s j"
  shows "i = j"
  using votes_invD(8)[OF votes_inv_reachable[OF assms(1)]] assms(2-) unfolding roles_led_def
  by (metis option.inject)

end

end
