(* ===== verification/RaftLogs.thy ===== *)
theory RaftLogs
  imports RaftVotes
begin

text \<open>
  Invariants of the abstract protocol about logs and replication, and log matching: every entry sits
  at the position, and after the prefix, that the leader of its term gave it.  The delicate part is
  that a follower acknowledges its whole log, not just the part the request covered.  \<open>near\<close> says why
  that is right: a request never starts beyond the first point where the receiver's log leaves the
  leader's, so an accepted request always leaves a prefix of the leader's log.
\<close>

section \<open>Logs built by leaders\<close>

definition sound :: "protocol \<Rightarrow> entry list \<Rightarrow> bool" where
  "sound s l \<longleftrightarrow>
     (\<forall>k < length l. g_lead s (e_term (l ! k)) \<noteq> None \<and>
        take (k + 1) l = take (k + 1) (g_log s (e_term (l ! k))))"

definition log_ok :: "protocol \<Rightarrow> nat \<Rightarrow> entry list \<Rightarrow> bool" where
  "log_ok s T l \<longleftrightarrow>
     indexed 0 l \<and> sorted (map e_term l) \<and> (\<forall>e \<in> set l. 1 \<le> e_term e \<and> e_term e \<le> T) \<and> sound s l"

definition near :: "protocol \<Rightarrow> nat \<Rightarrow> nat \<Rightarrow> nat \<Rightarrow> bool" where
  "near s f t c \<longleftrightarrow>
     t < p_term s f \<or>
     (p_term s f = t \<and>
      (if g_lead s t = None then length (p_log s f) \<le> c
       else prefix (take c (p_log s f)) (g_log s t) \<longrightarrow> prefix (p_log s f) (g_log s t)))"

lemma sound_nth:
  assumes "sound s l" "k < length l"
  shows "g_lead s (e_term (l ! k)) \<noteq> None" "take (k + 1) l = take (k + 1) (g_log s (e_term (l ! k)))"
    "k < length (g_log s (e_term (l ! k)))"
proof -
  show "g_lead s (e_term (l ! k)) \<noteq> None" and t: "take (k + 1) l = take (k + 1) (g_log s (e_term (l ! k)))"
    using assms unfolding sound_def by blast+
  show "k < length (g_log s (e_term (l ! k)))"
    using arg_cong[OF t, of length] assms(2) by simp
qed

lemma sound_match:
  assumes "sound s l" "sound s l'" "k < length l" "k < length l'" "e_term (l ! k) = e_term (l' ! k)"
  shows "take (k + 1) l = take (k + 1) l'"
  using sound_nth(2)[OF assms(1,3)] sound_nth(2)[OF assms(2,4)] assms(5) by simp

lemma sound_take: "sound s l \<Longrightarrow> sound s (take n l)"
  unfolding sound_def by (simp add: min_def)

lemma log_ok_prefix:
  assumes "log_ok s T l" "prefix p l"
  shows "log_ok s T p"
proof -
  obtain r where r: "l = p @ r" using assms(2) by (auto simp: prefix_def)
  then have p: "p = take (length p) l" by simp
  then have "sound s p" using assms(1) sound_take[of s l "length p"] by (simp add: log_ok_def)
  moreover have "indexed 0 p" using assms(1) indexed_take[of 0 l "length p"] p by (simp add: log_ok_def)
  ultimately show ?thesis using assms(1) r by (auto simp: log_ok_def sorted_append)
qed

lemma log_ok_mono: "log_ok s T l \<Longrightarrow> T \<le> T' \<Longrightarrow> log_ok s T' l"
  by (fastforce simp: log_ok_def)

lemma own_term_prefix:
  assumes "log_ok s T l" "e \<in> set l" "e_term e = T"
  shows "prefix l (g_log s T)"
proof -
  have ne: "l \<noteq> []" using assms(2) by auto
  obtain k where k: "k < length l" "l ! k = e" using assms(2) by (auto simp: in_set_conv_nth)
  have "e_term (l ! k) \<le> e_term (l ! (length l - 1))"
    using assms(1) k(1) sorted_nth_mono[of "map e_term l" k "length l - 1"] ne by (simp add: log_ok_def)
  moreover have "e_term (l ! (length l - 1)) \<le> T"
    using assms(1) ne nth_mem[of "length l - 1" l] by (auto simp: log_ok_def)
  ultimately have "e_term (l ! (length l - 1)) = T" using k assms(3) by simp
  then have "take (length l) l = take (length l) (g_log s T)"
    using sound_nth(2)[of s l "length l - 1"] assms(1) ne by (simp add: log_ok_def)
  then show ?thesis by (metis take_all order_refl take_is_prefix)
qed

lemma own_term_nth_prefix:
  "log_ok s T l \<Longrightarrow> k < length l \<Longrightarrow> e_term (l ! k) = T \<Longrightarrow> prefix l (g_log s T)"
  by (rule own_term_prefix[of s T l "l ! k"]) auto

section \<open>Merging\<close>

lemma merge_entries_cases:
  assumes "\<And>j. j < length xs \<Longrightarrow> j < length es \<Longrightarrow> e_term (xs ! j) = e_term (es ! j) \<Longrightarrow>
    take (j + 1) xs = take (j + 1) es"
  shows "merge_entries xs es = (if prefix es xs then xs else es)"
  using assms
proof (induction xs es rule: merge_entries.induct)
  case (3 x xs e es)
  show ?case
  proof (cases "e_term x = e_term e")
    case True
    then have "x = e" using "3.prems"[of 0] by simp
    have "merge_entries xs es = (if prefix es xs then xs else es)"
    proof (rule "3.IH"[OF True])
      fix j assume "j < length xs" "j < length es" "e_term (xs ! j) = e_term (es ! j)"
      then show "take (j + 1) xs = take (j + 1) es" using "3.prems"[of "j + 1"] by simp
    qed
    with True \<open>x = e\<close> show ?thesis by simp
  next
    case False
    then show ?thesis by auto
  qed
qed simp_all

lemma merge_log_cases:
  assumes "sound s l" "sound s L" "p \<le> length l" "p \<le> length L" "take p l = take p L" "prefix es (drop p L)"
  shows "merge_log p l es =
    (if prefix (take (p + length es) L) l then l else take (p + length es) L)"
proof -
  have es: "es = take (length es) (drop p L)" using assms(6) by (metis prefix_def append_eq_conv_conj)
  have len: "length es \<le> length L - p" using assms(6) prefix_length_le by fastforce
  have "merge_entries (drop p l) es = (if prefix es (drop p l) then drop p l else es)"
  proof (rule merge_entries_cases)
    fix j assume j: "j < length (drop p l)" "j < length es" "e_term (drop p l ! j) = e_term (es ! j)"
    have "es ! j = L ! (p + j)" using j(2) len assms(4) by (subst es) simp
    then have "take (p + j + 1) l = take (p + j + 1) L"
      using j len assms(3,4) by (intro sound_match[OF assms(1,2)]) (simp_all add: less_diff_conv add.commute)
    then have "take (j + 1) (drop p l) = take (j + 1) (drop p L)"
      by (metis add.assoc add.commute take_drop)
    also have "\<dots> = take (j + 1) es" using j(2) by (subst es) (simp add: min_def)
    finally show "take (j + 1) (drop p l) = take (j + 1) es" .
  qed
  moreover have "take (p + length es) L = take p l @ es" using es assms(5) by (metis take_add)
  moreover have "prefix (take p l @ es) l \<longleftrightarrow> prefix es (drop p l)"
    by (metis append_take_drop_id same_prefix_prefix)
  ultimately show ?thesis by (simp add: merge_log_def)
qed

section \<open>Invariants\<close>

definition logs_ok :: "protocol \<Rightarrow> bool" where
  "logs_ok s \<longleftrightarrow> (\<forall>i. log_ok s (p_term s i) (p_log s i))"

definition leader_logs_ok :: "protocol \<Rightarrow> bool" where
  "leader_logs_ok s \<longleftrightarrow>
     (\<forall>t i. g_lead s t = Some i \<longrightarrow> log_ok s t (g_log s t) \<and> (p_term s i = t \<longrightarrow> p_log s i = g_log s t))"

definition noops_ok :: "protocol \<Rightarrow> bool" where
  "noops_ok s \<longleftrightarrow>
     (\<forall>t i. g_lead s t = Some i \<longrightarrow>
        1 \<le> g_noop s t \<and> g_noop s t \<le> length (g_log s t) \<and>
        (\<forall>k < length (g_log s t). e_term (g_log s t ! k) = t \<longleftrightarrow> g_noop s t \<le> k + 1) \<and>
        g_clog s t i = Some (take (g_noop s t - 1) (g_log s t)))"

definition campaign_logs_ok :: "protocol \<Rightarrow> bool" where
  "campaign_logs_ok s \<longleftrightarrow>
     (\<forall>t c l. g_clog s t c = Some l \<longrightarrow>
        log_ok s (t - 1) l \<and> (p_term s c = t \<and> g_lead s t = None \<longrightarrow> p_log s c = l))"

definition request_valid :: "protocol \<Rightarrow> message \<Rightarrow> append_request \<Rightarrow> bool" where
  "request_valid s m rq \<longleftrightarrow>
     (let t = m_term m; L = g_log s t; p = aq_prev_index rq
      in g_lead s t \<noteq> None \<and> g_lead s t \<noteq> Some (m_to m) \<and>
         ((1 \<le> p \<and> g_noop s t \<le> p \<and> aq_prev_term rq = 0 \<and> aq_entries rq = []) \<or>
          (p \<le> length L \<and> aq_prev_term rq = term_of L p \<and> prefix (aq_entries rq) (drop p L) \<and>
           (g_noop s t \<le> p \<or> (aq_entries rq \<noteq> [] \<and> near s (m_to m) t (p + 1))))))"

definition requests_ok :: "protocol \<Rightarrow> bool" where
  "requests_ok s \<longleftrightarrow> (\<forall>m \<in> p_msgs s. \<forall>rq. m_kind m = AppendReq rq \<longrightarrow> request_valid s m rq)"

definition responses_ok :: "protocol \<Rightarrow> bool" where
  "responses_ok s \<longleftrightarrow>
     (\<forall>m \<in> p_msgs s. \<forall>a. m_kind m = AppendResp a \<longrightarrow>
        (if ap_success a then (m_from m, m_term m, ap_match_index a) \<in> g_acks s
         else near s (m_from m) (m_term m) (max (ap_conflict_index a) 1)))"

definition next_ok :: "protocol \<Rightarrow> bool" where
  "next_ok s \<longleftrightarrow>
     (\<forall>i f. p_role s i = Leader \<longrightarrow> f \<noteq> i \<longrightarrow>
        1 \<le> p_next s i f \<and> (g_noop s (p_term s i) < p_next s i f \<or> near s f (p_term s i) (p_next s i f)))"

definition match_ok :: "protocol \<Rightarrow> bool" where
  "match_ok s \<longleftrightarrow>
     (\<forall>i f. p_role s i = Leader \<longrightarrow> p_match s i f = 0 \<or> (f, p_term s i, p_match s i f) \<in> g_acks s)"

definition acks_ok :: "protocol \<Rightarrow> bool" where
  "acks_ok s \<longleftrightarrow>
     (\<forall>f t m. (f, t, m) \<in> g_acks s \<longrightarrow>
        g_lead s t \<noteq> None \<and> t \<le> p_term s f \<and> m \<le> length (g_log s t) \<and>
        (p_term s f = t \<longrightarrow> prefix (p_log s f) (g_log s t)))"

definition logs_inv :: "protocol \<Rightarrow> bool" where
  "logs_inv s \<longleftrightarrow>
     logs_ok s \<and> leader_logs_ok s \<and> noops_ok s \<and> campaign_logs_ok s \<and> requests_ok s \<and> responses_ok s \<and>
     next_ok s \<and> match_ok s \<and> acks_ok s"

lemmas logs_inv_defs = logs_ok_def leader_logs_ok_def noops_ok_def campaign_logs_ok_def requests_ok_def
  responses_ok_def next_ok_def match_ok_def acks_ok_def

lemma logs_invD:
  assumes "logs_inv s"
  shows "logs_ok s" "leader_logs_ok s" "noops_ok s" "campaign_logs_ok s" "requests_ok s" "responses_ok s"
    "next_ok s" "match_ok s" "acks_ok s"
  using assms by (simp_all add: logs_inv_def)

lemma logs_inv_init: "protocol_init s \<Longrightarrow> logs_inv s"
  by (simp add: protocol_init_def logs_inv_def logs_inv_defs log_ok_def sound_def)

section \<open>History only grows\<close>

definition grows :: "protocol \<Rightarrow> protocol \<Rightarrow> bool" where
  "grows s s' \<longleftrightarrow>
     (\<forall>i. p_term s i \<le> p_term s' i) \<and> g_votes s \<subseteq> g_votes s' \<and> g_early s \<subseteq> g_early s' \<and>
     g_acks s \<subseteq> g_acks s' \<and> (\<forall>t c l. g_clog s t c = Some l \<longrightarrow> g_clog s' t c = Some l) \<and>
     (\<forall>t i. g_lead s t = Some i \<longrightarrow>
        g_lead s' t = Some i \<and> prefix (g_log s t) (g_log s' t) \<and> g_noop s' t = g_noop s t)"

lemma growsD:
  assumes "grows s s'" "g_lead s t \<noteq> None"
  shows "g_lead s' t = g_lead s t" "prefix (g_log s t) (g_log s' t)" "g_noop s' t = g_noop s t"
  using assms unfolding grows_def by fastforce+

lemma take_prefix_eq: "prefix L L' \<Longrightarrow> n \<le> length L \<Longrightarrow> take n L' = take n L"
  by (auto simp: prefix_def)

lemma sound_grows:
  assumes "grows s s'" "sound s l"
  shows "sound s' l"
  unfolding sound_def
proof (intro allI impI)
  fix k assume k: "k < length l"
  note n = sound_nth[OF assms(2) k]
  show "g_lead s' (e_term (l ! k)) \<noteq> None \<and> take (k + 1) l = take (k + 1) (g_log s' (e_term (l ! k)))"
    using n growsD[OF assms(1) n(1)] take_prefix_eq[OF growsD(2)[OF assms(1) n(1)], of "k + 1"] by simp
qed

lemma log_ok_grows: "grows s s' \<Longrightarrow> log_ok s T l \<Longrightarrow> log_ok s' T l"
  by (simp add: log_ok_def sound_grows)

lemma campaign_fresh:
  assumes "campaigns_past s"
  shows "g_clog s (Suc (p_term s i)) i = None"
proof (rule ccontr)
  assume "g_clog s (Suc (p_term s i)) i \<noteq> None"
  then have "Suc (p_term s i) \<le> p_term s i" using assms unfolding campaigns_past_def by blast
  then show False by simp
qed

context quorum_system
begin

lemma step_grows:
  assumes "protocol_step quorum s s'" "votes_inv quorum s" "logs_inv s"
  shows "grows s s'"
  using assms(1)
proof (cases rule: protocol_step.cases)
  case (campaign i)
  then show ?thesis
    using campaign_fresh[OF votes_invD(4)[OF assms(2)], of i] by (auto simp: grows_def do_defs)
next
  case (lead i e)
  have "p_log s i = g_log s (p_term s i)" if "g_lead s (p_term s i) = Some j" for j
    using that elected_candidate(1)[OF assms(2) lead(3)] logs_invD(2)[OF assms(3)]
    by (auto simp: leader_logs_ok_def)
  with lead elected_candidate(1)[OF assms(2) lead(3)] show ?thesis
    by (auto simp: grows_def do_defs)
next
  case (extend i e)
  then have "p_log s i = g_log s (p_term s i)"
    using votes_invD(8)[OF assms(2)] logs_invD(2)[OF assms(3)] by (auto simp: roles_led_def leader_logs_ok_def)
  with extend show ?thesis by (auto simp: grows_def do_defs)
qed (auto simp: grows_def do_defs)

end

section \<open>Accepting a request\<close>

lemma term_of_nth: "1 \<le> p \<Longrightarrow> term_of l p = e_term (l ! (p - 1))"
  by (simp add: term_of_def)

lemma log_ok_term_of: "log_ok s T l \<Longrightarrow> 1 \<le> p \<Longrightarrow> p \<le> length l \<Longrightarrow> 1 \<le> term_of l p"
  by (auto simp: term_of_nth log_ok_def)

lemma accept_merge:
  assumes ok: "log_ok s T (p_log s f)" "log_ok s T (g_log s T)"
    and valid: "request_valid s m rq" "m_term m = T" and match: "prev_matches (p_log s f) rq"
  shows "merged (p_log s f) rq =
      (let K = take (aq_prev_index rq + length (aq_entries rq)) (g_log s T)
       in if prefix K (p_log s f) then p_log s f else K)"
    and "aq_prev_index rq \<le> length (g_log s T)" "prefix (aq_entries rq) (drop (aq_prev_index rq) (g_log s T))"
    and "take (aq_prev_index rq) (p_log s f) = take (aq_prev_index rq) (g_log s T)"
    and "g_noop s T \<le> aq_prev_index rq \<or> (aq_entries rq \<noteq> [] \<and> near s (m_to m) T (aq_prev_index rq + 1))"
proof -
  let ?p = "aq_prev_index rq" and ?L = "g_log s T" and ?l = "p_log s f"
  have p: "?p \<le> length ?l" "term_of ?l ?p = aq_prev_term rq" using match by (simp_all add: prev_matches_def)
  have "\<not> (1 \<le> ?p \<and> aq_prev_term rq = 0)" using log_ok_term_of[OF ok(1)] p by fastforce
  with valid show pL: "?p \<le> length ?L" and pre: "prefix (aq_entries rq) (drop ?p ?L)"
    and "g_noop s T \<le> aq_prev_index rq \<or> (aq_entries rq \<noteq> [] \<and> near s (m_to m) T (aq_prev_index rq + 1))"
    by (auto simp: request_valid_def Let_def)
  have t: "term_of ?l ?p = term_of ?L ?p"
    using valid p \<open>\<not> (1 \<le> ?p \<and> aq_prev_term rq = 0)\<close> by (auto simp: request_valid_def Let_def)
  show take_eq: "take ?p ?l = take ?p ?L"
  proof (cases "?p = 0")
    case False
    then have "take (?p - 1 + 1) ?l = take (?p - 1 + 1) ?L"
      using t p pL ok by (intro sound_match[of s]) (simp_all add: log_ok_def term_of_def)
    then show ?thesis using False by simp
  qed simp
  show "merged ?l rq = (let K = take (?p + length (aq_entries rq)) ?L in if prefix K ?l then ?l else K)"
    using merge_log_cases[OF _ _ p(1) pL take_eq pre, of s] ok by (simp add: merged_def log_ok_def Let_def)
qed

lemma noopsD:
  assumes "noops_ok s" "g_lead s t = Some i"
  shows "1 \<le> g_noop s t" "g_noop s t \<le> length (g_log s t)"
    "k < length (g_log s t) \<Longrightarrow> e_term (g_log s t ! k) = t \<longleftrightarrow> g_noop s t \<le> k + 1"
    "g_clog s t i = Some (take (g_noop s t - 1) (g_log s t))"
  using assms unfolding noops_ok_def by blast+

lemma accept_prefix:
  assumes ok: "log_ok s T (p_log s f)" "log_ok s T (g_log s T)" and lead: "g_lead s T \<noteq> None"
    and noops: "noops_ok s"
    and valid: "request_valid s m rq" "m_term m = T" "m_to m = f" "p_term s f = T"
    and match: "prev_matches (p_log s f) rq"
  shows "prefix (merged (p_log s f) rq) (g_log s T)"
proof -
  let ?p = "aq_prev_index rq" and ?L = "g_log s T" and ?l = "p_log s f" and ?n = "length (aq_entries rq)"
  note acc = accept_merge[OF ok valid(1,2) match]
  have "prefix ?l ?L" if K: "prefix (take (?p + ?n) ?L) ?l"
  proof (cases "g_noop s T \<le> ?p")
    case True
    obtain i where i: "g_lead s T = Some i" using lead by auto
    have p: "1 \<le> ?p" "?p \<le> length ?L" using True noopsD(1)[OF noops i] acc(2) by simp_all
    then have "e_term (?L ! (?p - 1)) = T" using noopsD(3)[OF noops i, of "?p - 1"] True by simp
    moreover have "?p \<le> length ?l" using match by (simp add: prev_matches_def)
    moreover have "?L ! (?p - 1) = ?l ! (?p - 1)"
      using acc(4) p by (metis diff_less nth_take order_less_le_trans zero_less_one)
    ultimately show ?thesis using p by (intro own_term_nth_prefix[OF ok(1), of "?p - 1"]) simp_all
  next
    case False
    with acc(5) have ne: "aq_entries rq \<noteq> []" and nr: "near s f T (?p + 1)" using valid(3) by auto
    have le: "?p + 1 \<le> ?p + ?n" "?p + ?n \<le> length ?L"
      using ne acc(2) prefix_length_le[OF acc(3)] by (cases "aq_entries rq"; simp)+
    have "take (?p + 1) ?l = take (?p + 1) (take (?p + ?n) ?L)"
      using K le by (auto simp: prefix_def)
    also have "\<dots> = take (?p + 1) ?L" using le by (simp add: min_def)
    finally have "prefix (take (?p + 1) ?l) ?L" by (simp add: take_is_prefix)
    with nr valid(4) lead show ?thesis by (simp add: near_def)
  qed
  then show ?thesis using acc(1) by (auto simp: Let_def take_is_prefix)
qed

lemma accept_keeps:
  assumes ok: "log_ok s T (p_log s f)" "log_ok s T (g_log s T)"
    and valid: "request_valid s m rq" "m_term m = T" and match: "prev_matches (p_log s f) rq"
    and keep: "c \<le> length (p_log s f)" "take c (p_log s f) = take c (g_log s T)"
  shows "c \<le> length (merged (p_log s f) rq)" "take c (merged (p_log s f) rq) = take c (g_log s T)"
proof -
  let ?L = "g_log s T" and ?l = "p_log s f" and ?K = "take (aq_prev_index rq + length (aq_entries rq)) (g_log s T)"
  have c: "c \<le> length ?L" using arg_cong[OF keep(2), of length] keep(1) by simp
  have "c \<le> length (merged ?l rq) \<and> take c (merged ?l rq) = take c ?L"
  proof (cases "prefix ?K ?l")
    case True
    then show ?thesis using accept_merge(1)[OF ok valid match] keep by (simp add: Let_def)
  next
    case False
    have "c \<le> length ?K"
    proof (rule ccontr)
      assume "\<not> c \<le> length ?K"
      then have "?K = take (aq_prev_index rq + length (aq_entries rq)) (take c ?L)"
        by (simp add: min_def split: if_splits)
      also have "\<dots> = take (aq_prev_index rq + length (aq_entries rq)) (take c ?l)" using keep(2) by simp
      finally show False using False by (metis take_is_prefix take_take)
    qed
    then have "c \<le> aq_prev_index rq + length (aq_entries rq)" by simp
    then have "take c ?K = take c ?L" by (simp add: min.absorb1)
    with \<open>c \<le> length ?K\<close> False show ?thesis using accept_merge(1)[OF ok valid match] by (simp add: Let_def)
  qed
  then show "c \<le> length (merged ?l rq)" "take c (merged ?l rq) = take c ?L" by simp_all
qed

end
