(* ===== verification/RaftMatching.thy ===== *)
theory RaftMatching
  imports RaftLogs
begin

text \<open>
  The log invariants hold in every reachable state of the abstract protocol; log matching follows.
\<close>

section \<open>How far a follower is from its leader\<close>

lemma logsD: "logs_ok s \<Longrightarrow> log_ok s (p_term s i) (p_log s i)"
  by (simp add: logs_ok_def)

lemma near_le: "near s f t c \<Longrightarrow> t \<le> p_term s f"
  by (auto simp: near_def)

lemma prefix_take_le: "c \<le> c' \<Longrightarrow> prefix (take c l) (take c' l)"
  by (metis min.absorb1 take_is_prefix take_take)

lemma near_mono: "near s f t c \<Longrightarrow> c \<le> c' \<Longrightarrow> near s f t c'"
  unfolding near_def using prefix_take_le[of c c' "p_log s f"]
  by (auto intro: prefix_order.trans split: if_splits)

lemma near_prefix: "p_term s f = t \<Longrightarrow> g_lead s t \<noteq> None \<Longrightarrow> prefix (p_log s f) (g_log s t) \<Longrightarrow> near s f t c"
  by (auto simp: near_def)

lemma near_length: "near s f (p_term s f) (length (p_log s f))"
  by (simp add: near_def)

lemma near_extend:
  assumes "near s f t c" "logs_ok s" "p_log s' f = p_log s f" "p_term s' f = p_term s f"
    "g_lead s' t \<noteq> None" "e_term e = t"
    "if g_lead s t = None then True else g_log s' t = g_log s t @ [e]"
  shows "near s' f t c"
proof (cases "t < p_term s f")
  case False
  with near_le[OF assms(1)] have t: "p_term s f = t" by simp
  show ?thesis
  proof (cases "g_lead s t")
    case None
    then show ?thesis using assms(1,3-5) t by (simp add: near_def)
  next
    case (Some i)
    have "prefix (p_log s f) (g_log s t)" if "prefix (take c (p_log s f)) (g_log s t @ [e])"
    proof (cases "take c (p_log s f) = g_log s t @ [e]")
      case True
      then have "e \<in> set (p_log s f)" by (metis in_set_conv_decomp in_set_takeD)
      then show ?thesis using own_term_prefix[OF logsD[OF assms(2), of f]] assms(6) t by metis
    next
      case False
      then have "prefix (take c (p_log s f)) (g_log s t)" using that by simp
      then show ?thesis using assms(1) t Some by (simp add: near_def)
    qed
    then show ?thesis using assms(3-5,7) t Some by (auto simp: near_def)
  qed
qed (use assms in \<open>simp add: near_def\<close>)

lemma requestD: "requests_ok s \<Longrightarrow> m \<in> p_msgs s \<Longrightarrow> m_kind m = AppendReq rq \<Longrightarrow> request_valid s m rq"
  by (auto simp: requests_ok_def)

lemma leader_logD:
  assumes "leader_logs_ok s" "g_lead s t = Some i"
  shows "log_ok s t (g_log s t)" "p_term s i = t \<Longrightarrow> p_log s i = g_log s t"
  using assms by (auto simp: leader_logs_ok_def)

lemma request_lead:
  assumes "request_valid s m rq"
  obtains i where "g_lead s (m_term m) = Some i" "i \<noteq> m_to m"
  using assms by (auto simp: request_valid_def Let_def)

lemma accepted:
  assumes "logs_inv s" "m \<in> p_msgs s" "m_kind m = AppendReq rq" "m_to m = f" "m_term m = p_term s f"
    "prev_matches (p_log s f) rq"
  shows "prefix (merged (p_log s f) rq) (g_log s (p_term s f))"
    and "c \<le> length (p_log s f) \<Longrightarrow> take c (p_log s f) = take c (g_log s (p_term s f)) \<Longrightarrow>
      c \<le> length (merged (p_log s f) rq) \<and> take c (merged (p_log s f) rq) = take c (g_log s (p_term s f))"
    and "\<exists>i. g_lead s (p_term s f) = Some i \<and> i \<noteq> f"
proof -
  have v: "request_valid s m rq" using requestD[OF logs_invD(5)[OF assms(1)] assms(2,3)] .
  obtain i where i: "g_lead s (p_term s f) = Some i" "i \<noteq> f" using request_lead[OF v] assms(4,5) by metis
  then show "\<exists>i. g_lead s (p_term s f) = Some i \<and> i \<noteq> f" by blast
  note ok = logsD[OF logs_invD(1)[OF assms(1)], of f] leader_logD(1)[OF logs_invD(2)[OF assms(1)] i(1)]
  show "prefix (merged (p_log s f) rq) (g_log s (p_term s f))"
    by (rule accept_prefix[OF ok _ logs_invD(3)[OF assms(1)] v assms(5,4) refl assms(6)]) (simp add: i)
  show "c \<le> length (merged (p_log s f) rq) \<and> take c (merged (p_log s f) rq) = take c (g_log s (p_term s f))"
    if "c \<le> length (p_log s f)" "take c (p_log s f) = take c (g_log s (p_term s f))"
    using accept_keeps[OF ok v assms(5,6) that] by blast
qed

context quorum_system
begin

lemma near_step:
  assumes step: "protocol_step quorum s s'" and inv: "votes_inv quorum s" "logs_inv s" and near: "near s f t c"
  shows "near s' f t c"
  using step
proof (cases rule: protocol_step.cases)
  case (bump i t' r)
  with near near_le[OF near] show ?thesis by (auto simp: near_def do_defs)
next
  case (campaign i)
  with near near_le[OF near] show ?thesis by (auto simp: near_def do_defs)
next
  case (lead i e)
  show ?thesis
  proof (cases "t = p_term s i \<and> f \<noteq> i")
    case True
    have "p_log s i = g_log s t" if "g_lead s t \<noteq> None"
      using True that elected_candidate(1)[OF inv(1) lead(3)] leader_logD(2)[OF logs_invD(2)[OF inv(2)]] by auto
    with True lead near logs_invD(1)[OF inv(2)] show ?thesis
      by (intro near_extend[of s f t c s' e]) (auto simp: do_defs)
  qed (use lead near in \<open>auto simp: near_def do_defs\<close>)
next
  case (extend i e)
  have i: "g_lead s (p_term s i) = Some i" using votes_invD(8)[OF inv(1)] extend by (auto simp: roles_led_def)
  show ?thesis
  proof (cases "t = p_term s i \<and> f \<noteq> i")
    case True
    have "p_log s i = g_log s t" using True i leader_logD(2)[OF logs_invD(2)[OF inv(2)]] by auto
    with True extend near logs_invD(1)[OF inv(2)] i show ?thesis
      by (intro near_extend[of s f t c s' e]) (auto simp: do_defs)
  qed (use extend near i in \<open>auto simp: near_def do_defs\<close>)
next
  case (accept m rq f')
  note acc = accepted[OF inv(2) accept(2-6)]
  show ?thesis
  proof (cases "f' = f \<and> t = p_term s f")
    case True
    then show ?thesis using accept acc(1,3) by (intro near_prefix) (auto simp: do_defs)
  qed (use accept near near_le[OF near] in \<open>auto simp: near_def do_defs\<close>)
qed (use near in \<open>auto simp: near_def do_defs split: if_splits\<close>)

section \<open>Preservation\<close>

text \<open>A leader's new entry keeps its log well formed.\<close>

lemma log_ok_snoc:
  assumes "log_ok s T l" "e_term e = T" "1 \<le> T" "e_index e = length l + 1"
    "g_lead s T \<noteq> None" "take (length l + 1) (g_log s T) = l @ [e]"
  shows "log_ok s T (l @ [e])"
proof -
  have "sound s (l @ [e])"
    unfolding sound_def
  proof (intro allI impI)
    fix k assume "k < length (l @ [e])"
    then consider "k < length l" | "k = length l" by fastforce
    then show "g_lead s (e_term ((l @ [e]) ! k)) \<noteq> None \<and>
        take (k + 1) (l @ [e]) = take (k + 1) (g_log s (e_term ((l @ [e]) ! k)))"
    proof cases
      case 1
      then show ?thesis using sound_nth[of s l k] assms(1) by (simp add: nth_append log_ok_def)
    qed (use assms in simp)
  qed
  then show ?thesis using assms by (auto simp: log_ok_def indexed_snoc sorted_append)
qed

lemma lead_facts:
  assumes "votes_inv quorum s" "logs_inv s" "quorum (p_votes s i)"
  shows "1 \<le> p_term s i" "g_lead s (p_term s i) \<noteq> None \<Longrightarrow> p_log s i = g_log s (p_term s i)"
    "g_lead s (p_term s i) = None \<Longrightarrow> g_clog s (p_term s i) i = Some (p_log s i)"
proof -
  note el = elected_candidate[OF assms(1,3)]
  show "1 \<le> p_term s i" using el(2) votes_invD(4)[OF assms(1)] by (auto simp: campaigns_past_def)
  show "p_log s i = g_log s (p_term s i)" if "g_lead s (p_term s i) \<noteq> None"
    using el(1) that leader_logD(2)[OF logs_invD(2)[OF assms(2)]] by auto
  show "g_clog s (p_term s i) i = Some (p_log s i)" if "g_lead s (p_term s i) = None"
    using el(2) that logs_invD(4)[OF assms(2)] by (auto simp: campaign_logs_ok_def)
qed

lemma new_leader_log:
  assumes inv: "votes_inv quorum s" "logs_inv s" and step: "protocol_step quorum s s'"
    and s': "s' = do_lead i e s \<or> s' = do_extend i e s"
    and e: "e_term e = p_term s i" "e_index e = length (p_log s i) + 1" "1 \<le> p_term s i"
    and lead: "g_lead s' (p_term s i) = Some i"
  shows "log_ok s' (p_term s i) (p_log s i @ [e])"
  using log_ok_grows[OF step_grows[OF step inv] logsD[OF logs_invD(1)[OF inv(2)], of i]] s' e lead
  by (intro log_ok_snoc) (auto simp: do_defs)

lemma logs_ok_step:
  assumes step: "protocol_step quorum s s'" and inv: "votes_inv quorum s" "logs_inv s"
  shows "logs_ok s'"
  unfolding logs_ok_def
proof
  fix j
  note g = step_grows[OF step inv]
  have old: "log_ok s' (p_term s' j) (p_log s j)"
    using log_ok_mono[OF log_ok_grows[OF g logsD[OF logs_invD(1)[OF inv(2)], of j]]] g by (simp add: grows_def)
  show "log_ok s' (p_term s' j) (p_log s' j)"
    using step
  proof (cases rule: protocol_step.cases)
    case (lead i e)
    show ?thesis
    proof (cases "j = i")
      case True
      then show ?thesis
        using new_leader_log[OF inv step, of i e] lead lead_facts(1)[OF inv lead(3)] by (simp add: do_defs)
    qed (use old lead in \<open>simp add: do_defs\<close>)
  next
    case (extend i e)
    have l: "g_lead s (p_term s i) = Some i" using votes_invD(8)[OF inv(1)] extend by (auto simp: roles_led_def)
    have "1 \<le> p_term s i" using votes_invD(4)[OF inv(1)] noopsD(4)[OF logs_invD(3)[OF inv(2)] l]
      by (auto simp: campaigns_past_def)
    then show ?thesis
      using new_leader_log[OF inv step, of i e] extend l old by (cases "j = i") (simp_all add: do_defs)
  next
    case (accept m rq f)
    note acc = accepted[OF inv(2) accept(2-6)]
    obtain i where i: "g_lead s (p_term s f) = Some i" using acc(3) by blast
    have "log_ok s' (p_term s f) (merged (p_log s f) rq)"
      using log_ok_grows[OF g log_ok_prefix[OF leader_logD(1)[OF logs_invD(2)[OF inv(2)] i] acc(1)]] .
    then show ?thesis using old accept by (cases "j = f") (simp_all add: do_defs)
  qed (use old in \<open>simp_all add: do_defs\<close>)
qed

lemma leader_logs_step:
  assumes step: "protocol_step quorum s s'" and inv: "votes_inv quorum s" "logs_inv s"
  shows "leader_logs_ok s'"
  unfolding leader_logs_ok_def
proof (intro allI impI)
  fix t j assume j: "g_lead s' t = Some j"
  note g = step_grows[OF step inv] and old = logs_invD(2)[OF inv(2)]
  have past: "t' \<le> p_term s i'" if "g_lead s t' = Some i'" for t' i'
    using votes_invD(9)[OF inv(1)] that by (auto simp: leads_past_def)
  show "log_ok s' t (g_log s' t) \<and> (p_term s' j = t \<longrightarrow> p_log s' j = g_log s' t)"
    using step
  proof (cases rule: protocol_step.cases)
    case (lead i e)
    show ?thesis
    proof (cases "t = p_term s i")
      case True
      then show ?thesis
        using new_leader_log[OF inv step, of i e] lead lead_facts(1)[OF inv lead(3)] j by (auto simp: do_defs)
    next
      case False
      then have "g_lead s t = Some j" using j lead by (simp add: do_defs)
      with False show ?thesis
        using log_ok_grows[OF g leader_logD(1)[OF old]] leader_logD(2)[OF old] lead by (auto simp: do_defs)
    qed
  next
    case (extend i e)
    have l: "g_lead s (p_term s i) = Some i" using votes_invD(8)[OF inv(1)] extend by (auto simp: roles_led_def)
    have one: "1 \<le> p_term s i" using votes_invD(4)[OF inv(1)] noopsD(4)[OF logs_invD(3)[OF inv(2)] l]
      by (auto simp: campaigns_past_def)
    have j0: "g_lead s t = Some j" using j extend by (simp add: do_defs)
    show ?thesis
    proof (cases "t = p_term s i")
      case True
      then show ?thesis using new_leader_log[OF inv step, of i e] extend l one j0 by (auto simp: do_defs)
    next
      case False
      then show ?thesis
        using log_ok_grows[OF g leader_logD(1)[OF old j0]] leader_logD(2)[OF old j0] extend by (auto simp: do_defs)
    qed
  next
    case (accept m rq f)
    note acc = accepted(3)[OF inv(2) accept(2-6)]
    have j0: "g_lead s t = Some j" using j accept by (simp add: do_defs)
    then show ?thesis
      using log_ok_grows[OF g leader_logD(1)[OF old j0]] leader_logD(2)[OF old j0] accept acc by (auto simp: do_defs)
  next
    case (bump i t' r)
    have j0: "g_lead s t = Some j" using j bump by (simp add: do_defs)
    show ?thesis
      using log_ok_grows[OF g leader_logD(1)[OF old j0]] leader_logD(2)[OF old j0] bump past[OF j0]
      by (auto simp: do_defs)
  next
    case (campaign i)
    have j0: "g_lead s t = Some j" using j campaign by (simp add: do_defs)
    show ?thesis
      using log_ok_grows[OF g leader_logD(1)[OF old j0]] leader_logD(2)[OF old j0] campaign past[OF j0]
      by (auto simp: do_defs)
  qed (use j log_ok_grows[OF g leader_logD(1)[OF old]] leader_logD(2)[OF old] in \<open>auto simp: do_defs\<close>)
qed

lemma noops_step:
  assumes step: "protocol_step quorum s s'" and inv: "votes_inv quorum s" "logs_inv s"
  shows "noops_ok s'"
  unfolding noops_ok_def
proof (intro allI impI)
  fix t j assume j: "g_lead s' t = Some j"
  note g = step_grows[OF step inv] and old = logs_invD(3)[OF inv(2)]
  let ?ok = "\<lambda>s'. 1 \<le> g_noop s' t \<and> g_noop s' t \<le> length (g_log s' t) \<and>
        (\<forall>k < length (g_log s' t). e_term (g_log s' t ! k) = t \<longleftrightarrow> g_noop s' t \<le> k + 1) \<and>
        g_clog s' t j = Some (take (g_noop s' t - 1) (g_log s' t))"
  show "?ok s'"
  proof (cases "g_lead s t")
    case None
    obtain e where t: "t = p_term s j" "e_term e = t" "s' = do_lead j e s" "quorum (p_votes s j)"
      using step None j by (cases rule: protocol_step.cases) (auto simp: do_defs split: if_splits)
    have c: "g_clog s t j = Some (p_log s j)" using lead_facts(3)[OF inv t(4)] None t(1) by simp
    then have "log_ok s (t - 1) (p_log s j)" using logs_invD(4)[OF inv(2)] by (auto simp: campaign_logs_ok_def)
    then have "e_term (p_log s j ! k) \<le> t - 1" if "k < length (p_log s j)" for k
      using that by (simp add: log_ok_def)
    then have low: "e_term (p_log s j ! k) \<noteq> t" if "k < length (p_log s j)" for k
      using that lead_facts(1)[OF inv t(4)] t(1) by (metis One_nat_def Suc_le_eq diff_less leD zero_less_one)
    have new: "g_log s' t = p_log s j @ [e]" "g_noop s' t = length (p_log s j) + 1" "g_clog s' t j = Some (p_log s j)"
      using c None t by (simp_all add: do_defs)
    have "e_term (g_log s' t ! k) = t \<longleftrightarrow> g_noop s' t \<le> k + 1" if "k < length (g_log s' t)" for k
      using that low[of k] t(2) by (cases "k = length (p_log s j)") (simp_all add: new nth_append)
    then show ?thesis by (simp add: new)
  next
    case (Some j')
    then have jj: "j' = j" using growsD(1)[OF g, of t] j by simp
    note n = noopsD[OF old Some[unfolded jj]]
    have c: "g_clog s' t j = Some (take (g_noop s t - 1) (g_log s t))" using n(4) g by (simp add: grows_def)
    have pre: "prefix (g_log s t) (g_log s' t)" "g_noop s' t = g_noop s t" using growsD[OF g] Some by auto
    have new: "e_term (g_log s' t ! k) = t" if "length (g_log s t) \<le> k" "k < length (g_log s' t)" for k
      using step
    proof (cases rule: protocol_step.cases)
      case (lead i e)
      then show ?thesis
        using that Some lead_facts(2)[OF inv lead(3)]
        by (cases "t = p_term s i") (auto simp: do_defs nth_append less_Suc_eq)
    next
      case (extend i e)
      have "g_lead s (p_term s i) = Some i" using votes_invD(8)[OF inv(1)] extend by (auto simp: roles_led_def)
      then have "p_log s i = g_log s (p_term s i)" using leader_logD(2)[OF logs_invD(2)[OF inv(2)]] by simp
      with extend show ?thesis
        using that by (cases "t = p_term s i") (auto simp: do_defs nth_append less_Suc_eq)
    qed (use that in \<open>simp_all add: do_defs\<close>)
    obtain r where r: "g_log s' t = g_log s t @ r" using pre(1) by (auto simp: prefix_def)
    have "e_term (g_log s' t ! k) = t \<longleftrightarrow> g_noop s t \<le> k + 1" if "k < length (g_log s' t)" for k
    proof (cases "k < length (g_log s t)")
      case True
      then show ?thesis using n(3) by (simp add: r nth_append)
    next
      case False
      then show ?thesis using new[of k] that n(2) by simp
    qed
    with n c pre(2) r show ?thesis by auto
  qed
qed

lemma campaign_logs_step:
  assumes step: "protocol_step quorum s s'" and inv: "votes_inv quorum s" "logs_inv s"
  shows "campaign_logs_ok s'"
  unfolding campaign_logs_ok_def
proof (intro allI impI)
  fix t c l assume c: "g_clog s' t c = Some l"
  note g = step_grows[OF step inv] and old = logs_invD(4)[OF inv(2)]
  have past: "t' \<le> p_term s c'" if "g_clog s t' c' = Some l'" for t' c' l'
    using votes_invD(4)[OF inv(1)] that by (auto simp: campaigns_past_def)
  have keep: "log_ok s' (t - 1) l" if "g_clog s t c = Some l"
    using old that log_ok_grows[OF g] by (simp add: campaign_logs_ok_def)
  have same: "p_log s c = l" if "g_clog s t c = Some l" "p_term s c = t" "g_lead s t = None"
    using old that by (auto simp: campaign_logs_ok_def)
  show "log_ok s' (t - 1) l \<and> (p_term s' c = t \<and> g_lead s' t = None \<longrightarrow> p_log s' c = l)"
    using step
  proof (cases rule: protocol_step.cases)
    case (campaign i)
    show ?thesis
    proof (cases "t = Suc (p_term s i) \<and> c = i")
      case True
      then show ?thesis
        using c campaign log_ok_grows[OF g logsD[OF logs_invD(1)[OF inv(2)], of i]] by (auto simp: do_defs)
    next
      case False
      then have o: "g_clog s t c = Some l" using c campaign by (auto simp: do_defs split: if_splits)
      then show ?thesis using keep same campaign past[OF o] by (cases "c = i") (auto simp: do_defs)
    qed
  next
    case (bump i t' r)
    then have o: "g_clog s t c = Some l" using c by (simp add: do_defs)
    then show ?thesis using keep same past[OF o] bump by (cases "c = i") (auto simp: do_defs)
  next
    case (accept m rq f)
    then show ?thesis using c keep same accepted(3)[OF inv(2) accept(2-6)] by (auto simp: do_defs)
  next
    case (extend i e)
    have "g_lead s (p_term s i) = Some i" using votes_invD(8)[OF inv(1)] extend by (auto simp: roles_led_def)
    then show ?thesis using c keep same extend by (auto simp: do_defs)
  qed (use c keep same in \<open>auto simp: do_defs\<close>)
qed

lemma acks_step:
  assumes step: "protocol_step quorum s s'" and inv: "votes_inv quorum s" "logs_inv s"
  shows "acks_ok s'"
  unfolding acks_ok_def
proof (intro allI impI)
  fix f t m assume a: "(f, t, m) \<in> g_acks s'"
  note g = step_grows[OF step inv]
  show "g_lead s' t \<noteq> None \<and> t \<le> p_term s' f \<and> m \<le> length (g_log s' t) \<and>
        (p_term s' f = t \<longrightarrow> prefix (p_log s' f) (g_log s' t))"
  proof (cases "(f, t, m) \<in> g_acks s")
    case True
    then have o: "g_lead s t \<noteq> None" "t \<le> p_term s f" "m \<le> length (g_log s t)"
        "p_term s f = t \<Longrightarrow> prefix (p_log s f) (g_log s t)"
      using logs_invD(9)[OF inv(2)] by (auto simp: acks_ok_def)
    have le: "t \<le> p_term s' f" using o(2) g by (meson grows_def le_trans)
    have "near s f t 0" using o by (auto simp: near_def)
    then have "near s' f t 0" by (rule near_step[OF step inv])
    then have "p_term s' f = t \<Longrightarrow> prefix (p_log s' f) (g_log s' t)"
      using growsD(1)[OF g o(1)] o(1) by (auto simp: near_def)
    with growsD[OF g o(1)] o(1,3) le show ?thesis by (auto dest: prefix_length_le)
  next
    case False
    show ?thesis
      using step
    proof (cases rule: protocol_step.cases)
      case (accept m' rq f')
      note acc = accepted[OF inv(2) accept(2-6)]
      show ?thesis
        using False a accept acc(1,3) prefix_length_le[OF acc(1)] by (auto simp: do_defs)
    next
      case (extend i e)
      have "g_lead s (p_term s i) = Some i" using votes_invD(8)[OF inv(1)] extend by (auto simp: roles_led_def)
      then show ?thesis using False a extend by (auto simp: do_defs)
    qed (use False a in \<open>auto simp: do_defs\<close>)
  qed
qed

lemma request_valid_step:
  assumes step: "protocol_step quorum s s'" and inv: "votes_inv quorum s" "logs_inv s"
    and valid: "request_valid s m rq"
  shows "request_valid s' m rq"
proof -
  note g = step_grows[OF step inv]
  have lead: "g_lead s (m_term m) \<noteq> None" using valid by (simp add: request_valid_def Let_def)
  note gr = growsD[OF g lead]
  obtain r where r: "g_log s' (m_term m) = g_log s (m_term m) @ r" using gr(2) by (auto simp: prefix_def)
  have "term_of (g_log s' (m_term m)) p = term_of (g_log s (m_term m)) p" if "p \<le> length (g_log s (m_term m))" for p
    using that by (auto simp: term_of_def r nth_append)
  then show ?thesis
    using valid near_step[OF step inv] lead by (auto simp: request_valid_def Let_def gr(1,3) r)
qed

lemma requests_step:
  assumes step: "protocol_step quorum s s'" and inv: "votes_inv quorum s" "logs_inv s"
  shows "requests_ok s'"
  unfolding requests_ok_def
proof (intro ballI allI impI)
  fix m rq assume m: "m \<in> p_msgs s'" "m_kind m = AppendReq rq"
  show "request_valid s' m rq"
  proof (cases "m \<in> p_msgs s")
    case True
    then show ?thesis using request_valid_step[OF step inv] requestD[OF logs_invD(5)[OF inv(2)]] m(2) by blast
  next
    case False
    have "request_valid s m rq"
      using step
    proof (cases rule: protocol_step.cases)
      case (send i m' rq' k)
      then have eq: "m' = m" "rq' = rq" using False m by auto
      have lead: "g_lead s (p_term s i) = Some i" using votes_invD(8)[OF inv(1)] send by (auto simp: roles_led_def)
      note n = noopsD[OF logs_invD(3)[OF inv(2)] lead]
      have L: "p_log s i = g_log s (p_term s i)" using leader_logD(2)[OF logs_invD(2)[OF inv(2)] lead] by simp
      let ?n = "p_next s i (m_to m)"
      have nx: "1 \<le> ?n" "g_noop s (p_term s i) < ?n \<or> near s (m_to m) (p_term s i) ?n"
        using logs_invD(7)[OF inv(2)] send eq by (auto simp: next_ok_def)
      have sl: "aq_prev_index rq = ?n - 1"
          "aq_prev_term rq = (if ?n - 1 \<le> length (p_log s i) then term_of (p_log s i) (?n - 1) else 0)"
          "aq_entries rq = take k (drop (?n - 1) (p_log s i))"
        using send eq by (auto simp: slice_request_def)
      have "take k (drop (?n - 1) (p_log s i)) \<noteq> []" if "\<not> g_noop s (p_term s i) \<le> ?n - 1"
        using that n(2) send(8) by (simp add: L)
      then show ?thesis
        using sl nx n(1,2) send eq lead by (auto simp: request_valid_def Let_def L take_is_prefix)
    next
      case (noise m')
      then show ?thesis using False m by auto
    qed (use False m in \<open>auto simp: do_defs failure_from_def\<close>)
    then show ?thesis by (rule request_valid_step[OF step inv])
  qed
qed

lemma reject_near:
  assumes inv: "logs_inv s" and valid: "request_valid s m rq" "m_term m = p_term s f"
    and no: "\<not> prev_matches (p_log s f) rq"
  shows "near s f (p_term s f) (conflict_hint (p_log s f) rq)"
proof (cases "length (p_log s f) < aq_prev_index rq")
  case True
  then show ?thesis using near_mono[OF near_length, of s f "length (p_log s f) + 1"] by (simp add: conflict_hint_def)
next
  case False
  let ?p = "aq_prev_index rq" and ?l = "p_log s f" and ?t = "p_term s f" and ?L = "g_log s (p_term s f)"
  obtain i where i: "g_lead s ?t = Some i" using request_lead[OF valid(1)] valid(2) by metis
  have p: "1 \<le> ?p"
    using valid no by (cases "?p = 0") (auto simp: request_valid_def Let_def prev_matches_def term_of_def)
  have "prefix ?l ?L" if pre: "prefix (take ?p ?l) ?L"
  proof -
    have "take ?p ?l = take ?p ?L" and le: "?p \<le> length ?L"
      using pre False by (auto simp: prefix_def min_def)
    then have nth: "?l ! (?p - 1) = ?L ! (?p - 1)" using p by (metis diff_less nth_take zero_less_one order_less_le_trans)
    then have "\<not> (aq_prev_term rq = term_of ?L ?p)" using no False p by (simp add: prev_matches_def term_of_def)
    then have "g_noop s ?t \<le> ?p" using valid by (auto simp: request_valid_def Let_def)
    then have "e_term (?L ! (?p - 1)) = ?t" using noopsD(3)[OF logs_invD(3)[OF inv] i, of "?p - 1"] p le by simp
    then show ?thesis
      using own_term_nth_prefix[OF logsD[OF logs_invD(1)[OF inv], of f], of "?p - 1"] nth p False by simp
  qed
  then show ?thesis using False p i by (simp add: near_def conflict_hint_def max_def)
qed

lemma responses_step:
  assumes step: "protocol_step quorum s s'" and inv: "votes_inv quorum s" "logs_inv s"
  shows "responses_ok s'"
  unfolding responses_ok_def
proof (intro ballI allI impI)
  fix m a assume m: "m \<in> p_msgs s'" "m_kind m = AppendResp a"
  let ?ok = "\<lambda>s. if ap_success a then (m_from m, m_term m, ap_match_index a) \<in> g_acks s
         else near s (m_from m) (m_term m) (max (ap_conflict_index a) 1)"
  note g = step_grows[OF step inv]
  have keep: "?ok s'" if "?ok s"
    using that near_step[OF step inv] g by (auto simp: grows_def split: if_splits)
  show "?ok s'"
  proof (cases "m \<in> p_msgs s")
    case True
    then have "?ok s" using logs_invD(6)[OF inv(2)] m(2) unfolding responses_ok_def by blast
    then show ?thesis by (rule keep)
  next
    case False
    show ?thesis
      using step
    proof (cases rule: protocol_step.cases)
      case (reject m' rq f)
      have "near s f (p_term s f) (conflict_hint (p_log s f) rq)"
        using reject_near[OF inv(2) requestD[OF logs_invD(5)[OF inv(2)]]] reject by simp
      then have "?ok s" using False m reject near_mono by (auto simp: failure_from_def)
      then show ?thesis by (rule keep)
    next
      case (refuse f)
      then have "?ok s" using False m near_mono[OF near_length, of s f] by (auto simp: failure_from_def)
      then show ?thesis by (rule keep)
    next
      case (noise m')
      then show ?thesis using False m by auto
    qed (use False m in \<open>auto simp: do_defs\<close>)
  qed
qed

lemma next_step:
  assumes step: "protocol_step quorum s s'" and inv: "votes_inv quorum s" "logs_inv s"
  shows "next_ok s'"
  unfolding next_ok_def
proof (intro allI impI)
  fix i f assume lead: "p_role s' i = Leader" and f: "f \<noteq> i"
  note g = step_grows[OF step inv]
  let ?ok = "\<lambda>s. 1 \<le> p_next s' i f \<and> (g_noop s (p_term s' i) < p_next s' i f \<or> near s f (p_term s' i) (p_next s' i f))"
  have keep: "?ok s'" if "?ok s" "g_lead s (p_term s' i) \<noteq> None"
    using that near_step[OF step inv] growsD(3)[OF g that(2)] by auto
  have old: "?ok s'" if "p_role s i = Leader" "p_term s' i = p_term s i" "p_next s' i f = p_next s i f"
  proof (rule keep)
    show "?ok s" using that f logs_invD(7)[OF inv(2)] unfolding next_ok_def by simp
    show "g_lead s (p_term s' i) \<noteq> None" using that votes_invD(8)[OF inv(1)] by (simp add: roles_led_def)
  qed
  show "?ok s'"
    using step
  proof (cases rule: protocol_step.cases)
    case (bump j t r)
    then show ?thesis using old lead by (cases "j = i") (auto simp: do_defs)
  next
    case (campaign j)
    then show ?thesis using old lead by (cases "j = i") (auto simp: do_defs)
  next
    case (lead j e)
    have le: "g_noop s (p_term s j) \<le> length (p_log s j)" if "g_lead s (p_term s j) \<noteq> None"
      using that noopsD(2)[OF logs_invD(3)[OF inv(2)]] lead_facts(2)[OF inv lead(3)] by auto
    have "j \<noteq> i \<Longrightarrow> p_role s i = Leader" using lead \<open>p_role s' i = Leader\<close> by (auto simp: do_defs)
    then show ?thesis using old lead le by (cases "j = i") (auto simp: do_defs)
  next
    case (learn_match m a j)
    show ?thesis
    proof (cases "j = i \<and> f = m_from m")
      case True
      have a: "(f, p_term s i, ap_match_index a) \<in> g_acks s"
        using logs_invD(6)[OF inv(2)] learn_match True by (fastforce simp: responses_ok_def)
      then have "near s f (p_term s i) (ap_match_index a + 1)" and "g_lead s (p_term s i) \<noteq> None"
        using logs_invD(9)[OF inv(2)] by (fastforce simp: acks_ok_def near_def)+
      then show ?thesis using keep learn_match True by simp
    qed (use old learn_match lead in auto)
  next
    case (learn_conflict m a j)
    show ?thesis
    proof (cases "j = i \<and> f = m_from m")
      case True
      have "near s f (p_term s i) (max (ap_conflict_index a) 1)"
        using logs_invD(6)[OF inv(2)] learn_conflict True by (fastforce simp: responses_ok_def)
      moreover have "g_lead s (p_term s i) \<noteq> None"
        using votes_invD(8)[OF inv(1)] learn_conflict True by (simp add: roles_led_def)
      ultimately show ?thesis using keep learn_conflict True by simp
    qed (use old learn_conflict lead in auto)
  qed (use old lead in \<open>auto simp: do_defs split: if_splits\<close>)
qed

lemma match_step:
  assumes step: "protocol_step quorum s s'" and inv: "votes_inv quorum s" "logs_inv s"
  shows "match_ok s'"
  unfolding match_ok_def
proof (intro allI impI)
  fix i f assume lead: "p_role s' i = Leader"
  note g = step_grows[OF step inv]
  have old: "p_match s' i f = 0 \<or> (f, p_term s' i, p_match s' i f) \<in> g_acks s'"
    if "p_role s i = Leader" "p_term s' i = p_term s i" "p_match s' i f = p_match s i f"
    using that logs_invD(8)[OF inv(2)] g unfolding match_ok_def grows_def by (metis subsetD)
  show "p_match s' i f = 0 \<or> (f, p_term s' i, p_match s' i f) \<in> g_acks s'"
    using step
  proof (cases rule: protocol_step.cases)
    case (bump j t r)
    then show ?thesis using old lead by (cases "j = i") (auto simp: do_defs)
  next
    case (campaign j)
    then show ?thesis using old lead by (cases "j = i") (auto simp: do_defs)
  next
    case (lead j e)
    then show ?thesis using old \<open>p_role s' i = Leader\<close> by (cases "j = i") (auto simp: do_defs)
  next
    case (learn_match m a j)
    show ?thesis
    proof (cases "j = i \<and> f = m_from m")
      case True
      then show ?thesis using logs_invD(6)[OF inv(2)] learn_match by (fastforce simp: responses_ok_def)
    qed (use old learn_match lead in auto)
  qed (use old lead in \<open>auto simp: do_defs split: if_splits\<close>)
qed

lemma logs_inv_step:
  assumes "protocol_step quorum s s'" "votes_inv quorum s" "logs_inv s"
  shows "logs_inv s'"
  unfolding logs_inv_def
  using logs_ok_step[OF assms] leader_logs_step[OF assms] noops_step[OF assms] campaign_logs_step[OF assms]
    requests_step[OF assms] responses_step[OF assms] next_step[OF assms] match_step[OF assms] acks_step[OF assms]
  by blast

lemma logs_inv_reachable: "reachable quorum s \<Longrightarrow> logs_inv s"
  by (induction rule: reachable.induct) (auto intro: logs_inv_init logs_inv_step votes_inv_reachable)

lemma log_matching:
  assumes "reachable quorum s" "k < length (p_log s i)" "k < length (p_log s j)"
    "e_term (p_log s i ! k) = e_term (p_log s j ! k)"
  shows "take (k + 1) (p_log s i) = take (k + 1) (p_log s j)"
  using logsD[OF logs_invD(1)[OF logs_inv_reachable[OF assms(1)]]] assms(2-)
  by (intro sound_match[of s]) (auto simp: log_ok_def)

end

end
