(* ===== verification/RaftCommit.thy ===== *)
theory RaftCommit
  imports RaftMatching
begin

text \<open>
  Leader completeness and state machine safety of the abstract protocol.  An acknowledged prefix
  stays in the log of the server that acknowledged it for as long as every later leader has it, and a
  vote carries it into the log of the candidate; so a prefix acknowledged by a quorum is in the log
  of every later leader, and committed prefixes never disagree.
\<close>

section \<open>Acknowledged prefixes\<close>

definition acked_by :: "protocol \<Rightarrow> nat \<Rightarrow> nat \<Rightarrow> nat \<Rightarrow> bool" where
  "acked_by s f t m \<longleftrightarrow> (\<exists>m' \<ge> m. (f, t, m') \<in> g_acks s)"

text \<open>Every leader after term \<open>t\<close>, up to term \<open>T\<close>, has the first \<open>m\<close> entries of the leader of \<open>t\<close>.\<close>

definition kept :: "protocol \<Rightarrow> nat \<Rightarrow> nat \<Rightarrow> nat \<Rightarrow> bool" where
  "kept s t m T \<longleftrightarrow>
     (\<forall>t'. t < t' \<longrightarrow> t' \<le> T \<longrightarrow> g_lead s t' \<noteq> None \<longrightarrow> take m (g_log s t') = take m (g_log s t))"

definition acks_kept :: "protocol \<Rightarrow> bool" where
  "acks_kept s \<longleftrightarrow>
     (\<forall>f t m. acked_by s f t m \<longrightarrow> kept s t m (p_term s f) \<longrightarrow>
        m \<le> length (p_log s f) \<and> take m (p_log s f) = take m (g_log s t))"

definition votes_carry :: "protocol \<Rightarrow> bool" where
  "votes_carry s \<longleftrightarrow>
     (\<forall>f t m t' c l. acked_by s f t m \<longrightarrow> 1 \<le> m \<longrightarrow> term_of (g_log s t) m = t \<longrightarrow> (f, t', c) \<in> g_early s \<longrightarrow>
        t < t' \<longrightarrow> kept s t m (t' - 1) \<longrightarrow> g_clog s t' c = Some l \<longrightarrow>
        m \<le> length l \<and> take m l = take m (g_log s t))"

definition leaders_ack :: "protocol \<Rightarrow> bool" where
  "leaders_ack s \<longleftrightarrow> (\<forall>t i. g_lead s t = Some i \<longrightarrow> (i, t, length (g_log s t)) \<in> g_acks s)"

definition committed :: "(nat set \<Rightarrow> bool) \<Rightarrow> protocol \<Rightarrow> nat \<Rightarrow> nat \<Rightarrow> bool" where
  "committed quorum s t m \<longleftrightarrow>
     1 \<le> m \<and> term_of (g_log s t) m = t \<and> (\<exists>Q. quorum Q \<and> (\<forall>f \<in> Q. acked_by s f t m))"

text \<open>\<open>l\<close> starts with \<open>c\<close> entries that are committed by term \<open>T\<close>.\<close>

definition commits :: "(nat set \<Rightarrow> bool) \<Rightarrow> protocol \<Rightarrow> nat \<Rightarrow> entry list \<Rightarrow> nat \<Rightarrow> bool" where
  "commits quorum s T l c \<longleftrightarrow>
     c = 0 \<or> (\<exists>t m. committed quorum s t m \<and> t \<le> T \<and> c \<le> m \<and> c \<le> length l \<and> take c l = take c (g_log s t))"

text \<open>\<open>chosen quorum s t l\<close>: the whole of \<open>l\<close> is committed by term \<open>t\<close>. Chosen lists stay chosen, never
  disagree, and are in the log of every leader of that term or a later one.\<close>

definition chosen :: "(nat set \<Rightarrow> bool) \<Rightarrow> protocol \<Rightarrow> nat \<Rightarrow> entry list \<Rightarrow> bool" where
  "chosen q s t l \<longleftrightarrow> commits q s t l (length l)"

definition commit_inv :: "(nat set \<Rightarrow> bool) \<Rightarrow> protocol \<Rightarrow> bool" where
  "commit_inv quorum s \<longleftrightarrow>
     acks_kept s \<and> votes_carry s \<and> leaders_ack s \<and>
     (\<forall>i. commits quorum s (p_term s i) (p_log s i) (p_commit s i)) \<and>
     (\<forall>msg \<in> p_msgs s. \<forall>rq. m_kind msg = AppendReq rq \<longrightarrow>
        commits quorum s (m_term msg) (g_log s (m_term msg)) (aq_leader_commit rq))"

lemma term_of_take: "take m l = take m l' \<Longrightarrow> term_of l m = term_of l' m"
  unfolding term_of_def by (metis diff_less nth_take zero_less_one bot_nat_0.not_eq_extremum)

lemma kept_mono: "kept s t m T \<Longrightarrow> T' \<le> T \<Longrightarrow> kept s t m T'"
  by (auto simp: kept_def)

lemma acked_facts:
  assumes "acks_ok s" "acked_by s f t m"
  shows "g_lead s t \<noteq> None" "t \<le> p_term s f" "m \<le> length (g_log s t)"
    "p_term s f = t \<Longrightarrow> prefix (p_log s f) (g_log s t)"
proof -
  obtain m' where m': "m \<le> m'" "(f, t, m') \<in> g_acks s" using assms(2) by (auto simp: acked_by_def)
  with assms(1) have "g_lead s t \<noteq> None" "t \<le> p_term s f" "m' \<le> length (g_log s t)"
    "p_term s f = t \<longrightarrow> prefix (p_log s f) (g_log s t)"
    unfolding acks_ok_def by blast+
  with m'(1) show "g_lead s t \<noteq> None" "t \<le> p_term s f" "m \<le> length (g_log s t)"
    "p_term s f = t \<Longrightarrow> prefix (p_log s f) (g_log s t)" by auto
qed

lemma log_ok_nth: "log_ok s T l \<Longrightarrow> k < length l \<Longrightarrow> 1 \<le> e_term (l ! k) \<and> e_term (l ! k) \<le> T"
  by (simp add: log_ok_def)

lemma up_to_date_carries:
  assumes ok: "log_ok s T lf" "log_ok s T' l" "log_ok s t (g_log s t)"
    and m: "1 \<le> m" "m \<le> length lf" "take m lf = take m (g_log s t)" "term_of (g_log s t) m = t"
    and up: "up_to_date lf (length l) (log_term l)" and kept: "kept s t m T'"
  shows "m \<le> length l \<and> take m l = take m (g_log s t)"
proof -
  let ?L = "g_log s t" and ?\<tau> = "log_term l" and ?K = "length l"
  have mL: "m \<le> length ?L" using arg_cong[OF m(3), of length] m(2) by simp
  have nth: "lf ! (m - 1) = ?L ! (m - 1)" using m(1,3) by (metis diff_less nth_take zero_less_one order_less_le_trans)
  have tm: "e_term (?L ! (m - 1)) = t" using m(1,4) by (simp add: term_of_def)
  have "e_term (lf ! (m - 1)) \<le> e_term (lf ! (length lf - 1))"
    using ok(1) m(1,2) sorted_nth_mono[of "map e_term lf" "m - 1" "length lf - 1"] by (simp add: log_ok_def)
  then have tf: "t \<le> log_term lf" using nth tm m(1,2) by (auto simp: log_term_def last_conv_nth)
  have t1: "1 \<le> t" using log_ok_nth[OF ok(3), of "m - 1"] tm m(1) mL by simp
  have \<tau>: "t \<le> ?\<tau>" using up tf by (auto simp: up_to_date_def)
  then have ne: "l \<noteq> []" using t1 by (auto simp: log_term_def)
  have last: "e_term (l ! (?K - 1)) = ?\<tau>" using ne by (simp add: log_term_def last_conv_nth)
  have sl: "sound s l" using ok(2) by (simp add: log_ok_def)
  have l: "l = take ?K (g_log s ?\<tau>)" "g_lead s ?\<tau> \<noteq> None"
    using sound_nth[OF sl, of "?K - 1"] ne last by auto
  show ?thesis
  proof (cases "?\<tau> = t")
    case True
    then have "m \<le> ?K" using up tf m(2) by (auto simp: up_to_date_def)
    moreover have "take m l = take m (take ?K ?L)" using l(1) True by simp
    ultimately show ?thesis by (simp add: min.absorb1)
  next
    case False
    have "?\<tau> \<le> T'" using log_ok_nth[OF ok(2), of "?K - 1"] ne last by simp
    then have eq: "take m (g_log s ?\<tau>) = take m ?L" using kept \<tau> False l(2) by (auto simp: kept_def)
    have "m < ?K"
    proof (rule ccontr)
      assume "\<not> m < ?K"
      then have lt: "?K - 1 < m" using ne by (cases l) auto
      then have "l ! (?K - 1) = ?L ! (?K - 1)"
        using ne l(1) eq by (metis diff_less length_greater_0_conv nth_take zero_less_one)
      moreover have "e_term (?L ! (?K - 1)) \<le> t" using ok(3) lt mL by (auto simp: log_ok_def)
      ultimately show False using last \<tau> False by simp
    qed
    moreover have "take m l = take m (take ?K (g_log s ?\<tau>))" using l(1) by simp
    ultimately show ?thesis using eq by (simp add: min.absorb1)
  qed
qed

section \<open>Preservation\<close>

context quorum_system
begin

lemma kept_back:
  assumes step: "protocol_step quorum s s'" and inv: "votes_inv quorum s" "logs_inv s"
    and lead: "g_lead s t \<noteq> None" and m: "m \<le> length (g_log s t)" and kept: "kept s' t m T"
  shows "kept s t m T"
  unfolding kept_def
proof (intro allI impI)
  fix t' assume t': "t < t'" "t' \<le> T" "g_lead s t' \<noteq> None"
  note g = step_grows[OF step inv] and inv' = logs_inv_step[OF step inv]
  note gt = growsD[OF g lead] and gt' = growsD[OF g t'(3)]
  have eq: "take m (g_log s' t') = take m (g_log s t)"
    using kept t' gt'(1) take_prefix_eq[OF gt(2) m] by (simp add: kept_def)
  show "take m (g_log s t') = take m (g_log s t)"
  proof (cases "m \<le> length (g_log s t')")
    case True
    then show ?thesis using take_prefix_eq[OF gt'(2) True] eq by simp
  next
    case False
    let ?k = "length (g_log s t')"
    obtain i' where i': "g_lead s t' = Some i'" using t'(3) by auto
    obtain i where i: "g_lead s' t = Some i" using gt(1) lead by auto
    have len: "?k < length (g_log s' t')" using arg_cong[OF eq, of length] m False by simp
    have "g_noop s' t' \<le> ?k" using noopsD(2)[OF logs_invD(3)[OF inv(2)] i'] gt'(3) by simp
    then have "e_term (g_log s' t' ! ?k) = t'"
      using noopsD(3)[OF logs_invD(3)[OF inv'], of t' i' ?k] i' gt'(1) len by simp
    moreover have "g_log s' t' ! ?k = g_log s t ! ?k" using eq False by (metis not_le_imp_less nth_take)
    moreover have "e_term (g_log s t ! ?k) \<le> t"
      using log_ok_nth[of s t "g_log s t" ?k] leader_logD(1)[OF logs_invD(2)[OF inv(2)]] lead m False by auto
    ultimately show ?thesis using t'(1) by simp
  qed
qed

lemma new_ack:
  assumes step: "protocol_step quorum s s'" and "acked_by s' f t m" "\<not> acked_by s f t m"
  shows "t = p_term s f" "p_term s' f = p_term s f" "m \<le> length (p_log s' f)"
proof -
  obtain m' where m': "m \<le> m'" "(f, t, m') \<in> g_acks s'" "(f, t, m') \<notin> g_acks s"
    using assms(2,3) by (auto simp: acked_by_def)
  with step show "t = p_term s f" "p_term s' f = p_term s f" "m \<le> length (p_log s' f)"
    by (cases rule: protocol_step.cases; auto simp: do_defs)+
qed

lemma acks_kept_step:
  assumes step: "protocol_step quorum s s'" and inv: "votes_inv quorum s" "logs_inv s" and old: "acks_kept s"
  shows "acks_kept s'"
  unfolding acks_kept_def
proof (intro allI impI)
  fix f t m assume a: "acked_by s' f t m" and k: "kept s' t m (p_term s' f)"
  note g = step_grows[OF step inv] and inv' = logs_inv_step[OF step inv]
  show "m \<le> length (p_log s' f) \<and> take m (p_log s' f) = take m (g_log s' t)"
  proof (cases "acked_by s f t m")
    case True
    note fa = acked_facts[OF logs_invD(9)[OF inv(2)] True]
    have "p_term s f \<le> p_term s' f" using g by (simp add: grows_def)
    then have kept: "kept s t m (p_term s f)" using kept_back[OF step inv fa(1,3)] kept_mono[OF k] by blast
    then have o: "m \<le> length (p_log s f)" "take m (p_log s f) = take m (g_log s t)"
      using old True by (auto simp: acks_kept_def)
    have L: "take m (g_log s' t) = take m (g_log s t)" using take_prefix_eq[OF growsD(2)[OF g fa(1)] fa(3)] .
    show ?thesis
      using step
    proof (cases rule: protocol_step.cases)
      case (accept msg rq f')
      note acc = accepted[OF inv(2) accept(2-6)]
      show ?thesis
      proof (cases "f' = f")
        case True
        have eq: "take m (g_log s (p_term s f)) = take m (g_log s t)"
          using fa(2) kept acc(3) True by (cases "t = p_term s f") (auto simp: kept_def)
        show ?thesis using acc(2)[of m] o eq L accept True by (simp add: do_defs)
      qed (use accept o L in \<open>simp add: do_defs\<close>)
    qed (use o L in \<open>auto simp: do_defs\<close>)
  next
    case False
    note n = new_ack[OF step a False]
    then have "prefix (p_log s' f) (g_log s' t)" using acked_facts(4)[OF logs_invD(9)[OF inv'] a] by simp
    then show ?thesis using n(3) by (auto simp: prefix_def)
  qed
qed

lemma leaders_ack_step:
  assumes step: "protocol_step quorum s s'" and inv: "votes_inv quorum s" and old: "leaders_ack s"
  shows "leaders_ack s'"
  using step
proof (cases rule: protocol_step.cases)
  case (extend i e)
  have "g_lead s (p_term s i) = Some i" using votes_invD(8)[OF inv] extend by (auto simp: roles_led_def)
  with old extend show ?thesis by (auto simp: leaders_ack_def do_defs)
qed (use old in \<open>auto simp: leaders_ack_def do_defs\<close>)

lemma new_early_vote:
  assumes step: "protocol_step quorum s s'" and inv: "votes_inv quorum s"
    and "(f, t', c) \<in> g_early s'" "(f, t', c) \<notin> g_early s" "g_clog s' t' c = Some l"
  shows "(c = f \<and> t' = Suc (p_term s f) \<and> l = p_log s f) \<or>
    (t' = p_term s f \<and> g_lead s t' = None \<and> g_clog s t' c = Some l \<and>
     up_to_date (p_log s f) (length l) (log_term l))"
  using step
proof (cases rule: protocol_step.cases)
  case (vote m li lt v)
  obtain l' where l': "g_clog s (m_term m) (m_from m) = Some l'" "li = length l'" "lt = log_term l'"
    using request_campaign[OF votes_invD(7)[OF inv] vote(2,3)] .
  then show ?thesis using vote assms(3-5) by (auto simp: do_defs split: if_splits)
qed (use assms(3-5) in \<open>auto simp: do_defs split: if_splits\<close>)

lemma votes_carry_step:
  assumes step: "protocol_step quorum s s'" and inv: "votes_inv quorum s" "logs_inv s"
    and old: "acks_kept s" "votes_carry s"
  shows "votes_carry s'"
  unfolding votes_carry_def
proof (intro allI impI)
  fix f t m t' c l
  assume a: "acked_by s' f t m" and m: "1 \<le> m" "term_of (g_log s' t) m = t" and e: "(f, t', c) \<in> g_early s'"
    and t': "t < t'" and k: "kept s' t m (t' - 1)" and c: "g_clog s' t' c = Some l"
  note g = step_grows[OF step inv] and v' = votes_inv_step[OF step inv(1)]
  have "t' \<le> p_term s' f"
    using votes_invD(1,3)[OF v'] e unfolding votes_recorded_def votes_early_def by blast
  then have ack: "acked_by s f t m" using new_ack[OF step a] t' by fastforce
  note fa = acked_facts[OF logs_invD(9)[OF inv(2)] ack]
  have L: "take m (g_log s' t) = take m (g_log s t)" using take_prefix_eq[OF growsD(2)[OF g fa(1)] fa(3)] .
  have m2: "term_of (g_log s t) m = t" using m term_of_take[OF L] by simp
  have kept: "kept s t m (t' - 1)" by (rule kept_back[OF step inv fa(1,3) k])
  have "m \<le> length l \<and> take m l = take m (g_log s t)"
  proof (cases "(f, t', c) \<in> g_early s")
    case True
    then have "g_clog s t' c \<noteq> None"
      using votes_invD(1,3)[OF inv(1)] unfolding votes_recorded_def votes_early_def by blast
    then have "g_clog s t' c = Some l" using g c by (auto simp: grows_def)
    then show ?thesis using old(2) ack m(1) m2 True t' kept unfolding votes_carry_def by blast
  next
    case False
    from new_early_vote[OF step inv(1) e False c] show ?thesis
    proof (elim disjE conjE)
      assume "c = f" "t' = Suc (p_term s f)" "l = p_log s f"
      then show ?thesis using old(1) ack kept by (simp add: acks_kept_def)
    next
      assume other: "t' = p_term s f" "g_lead s t' = None" "g_clog s t' c = Some l"
        "up_to_date (p_log s f) (length l) (log_term l)"
      have "kept s t m (p_term s f)"
        unfolding kept_def
      proof (intro allI impI)
        fix t'' assume "t < t''" "t'' \<le> p_term s f" "g_lead s t'' \<noteq> None"
        moreover from this have "t'' \<noteq> t'" using other(2) by auto
        ultimately show "take m (g_log s t'') = take m (g_log s t)" using kept other(1) by (simp add: kept_def)
      qed
      then have o: "m \<le> length (p_log s f)" "take m (p_log s f) = take m (g_log s t)"
        using old(1) ack by (auto simp: acks_kept_def)
      have "log_ok s t (g_log s t)" using leader_logD(1)[OF logs_invD(2)[OF inv(2)]] fa(1) by auto
      moreover have "log_ok s (t' - 1) l" using logs_invD(4)[OF inv(2)] other(3) by (simp add: campaign_logs_ok_def)
      ultimately show ?thesis
        using up_to_date_carries[OF logsD[OF logs_invD(1)[OF inv(2)]] _ _ m(1) o m2 other(4) kept] by blast
    qed
  qed
  then show "m \<le> length l \<and> take m l = take m (g_log s' t)" using L by simp
qed

section \<open>Leader completeness\<close>

lemma committed_facts:
  assumes "logs_inv s" "committed quorum s t m"
  shows "g_lead s t \<noteq> None" "m \<le> length (g_log s t)"
proof -
  obtain Q where Q: "quorum Q" "\<forall>f \<in> Q. acked_by s f t m" using assms(2) by (auto simp: committed_def)
  then obtain f where "acked_by s f t m" using quorum_nonempty by blast
  then show "g_lead s t \<noteq> None" "m \<le> length (g_log s t)"
    using acked_facts[OF logs_invD(9)[OF assms(1)]] by blast+
qed

lemma leader_complete:
  assumes inv: "votes_inv quorum s" "logs_inv s" "votes_carry s" and com: "committed quorum s t m"
    and lead: "g_lead s t' \<noteq> None" "t < t'"
  shows "m \<le> length (g_log s t') \<and> take m (g_log s t') = take m (g_log s t)"
  using lead
proof (induction t' rule: less_induct)
  case (less t')
  obtain Q where Q: "quorum Q" "\<forall>f \<in> Q. acked_by s f t m" using com by (auto simp: committed_def)
  obtain c where c: "g_lead s t' = Some c" using less.prems by auto
  obtain Q' where Q': "quorum Q'" "\<forall>v \<in> Q'. (v, t', c) \<in> g_early s"
    using votes_invD(6)[OF inv(1)] c unfolding leaders_elected_def by blast
  obtain f where f: "f \<in> Q" "f \<in> Q'" using common_member[OF Q(1) Q'(1)] .
  note n = noopsD[OF logs_invD(3)[OF inv(2)] c]
  have "kept s t m (t' - 1)"
    unfolding kept_def using less.IH less.prems by fastforce
  then have "m \<le> length (take (g_noop s t' - 1) (g_log s t')) \<and>
      take m (take (g_noop s t' - 1) (g_log s t')) = take m (g_log s t)"
    using inv(3) f Q(2) Q'(2) com less.prems(2) n(4) unfolding votes_carry_def committed_def by blast
  then show ?case by (auto simp: min.absorb1)
qed

lemma committed_grows:
  assumes g: "grows s s'" and inv: "logs_inv s" and com: "committed quorum s t m"
  shows "committed quorum s' t m" "take m (g_log s' t) = take m (g_log s t)"
proof -
  note f = committed_facts[OF inv com]
  show L: "take m (g_log s' t) = take m (g_log s t)" using take_prefix_eq[OF growsD(2)[OF g f(1)] f(2)] .
  have "acked_by s' i t m" if "acked_by s i t m" for i using that g by (auto simp: acked_by_def grows_def)
  with term_of_take[OF L] com show "committed quorum s' t m" by (auto simp: committed_def)
qed

lemma commits_grows:
  assumes "grows s s'" "logs_inv s" "commits quorum s T l c" "T \<le> T'" "c \<le> length l' \<and> take c l' = take c l \<or> c = 0"
  shows "commits quorum s' T' l' c"
proof (cases "c = 0")
  case False
  then obtain t m where tm: "committed quorum s t m" "t \<le> T" "c \<le> m" "c \<le> length l" "take c l = take c (g_log s t)"
    using assms(3) by (auto simp: commits_def)
  note g = committed_grows[OF assms(1,2) tm(1)]
  have "take c (g_log s' t) = take c (g_log s t)" using g(2) tm(3) by (metis min.absorb1 take_take)
  then show ?thesis unfolding commits_def using g(1) tm assms(4,5) False by (metis order_trans)
qed (simp add: commits_def)

lemma commits_le:
  assumes "commits quorum s T l c" "c' \<le> c"
  shows "commits quorum s T l c'"
proof (cases "c' = 0")
  case False
  then obtain t m where tm: "committed quorum s t m" "t \<le> T" "c \<le> m" "c \<le> length l" "take c l = take c (g_log s t)"
    using assms by (auto simp: commits_def)
  have "take c' l = take c' (g_log s t)" using tm(5) assms(2) by (metis min.absorb1 take_take)
  then show ?thesis using tm assms(2) unfolding commits_def by (meson order_trans)
qed (simp add: commits_def)

lemma commits_leader:
  assumes "votes_inv quorum s" "logs_inv s" "votes_carry s" "commits quorum s T l c" "g_lead s T \<noteq> None"
  shows "c \<le> length (g_log s T) \<and> take c l = take c (g_log s T) \<or> c = 0"
proof (cases "c = 0")
  case False
  then obtain t m where tm: "committed quorum s t m" "t \<le> T" "c \<le> m" "take c l = take c (g_log s t)"
    using assms(4) by (auto simp: commits_def)
  have "m \<le> length (g_log s T) \<and> take m (g_log s T) = take m (g_log s t)"
    using leader_complete[OF assms(1-3) tm(1) assms(5)] committed_facts[OF assms(2) tm(1)] tm(2)
    by (cases "t = T") auto
  then show ?thesis using tm(3,4) by (metis min.absorb1 order_trans take_take)
qed simp

lemma commit_quorum_acks:
  assumes inv: "votes_inv quorum s" "logs_inv s" "leaders_ack s"
    and i: "p_role s i = Leader" "1 \<le> c" "c \<le> length (p_log s i)" "term_of (p_log s i) c = p_term s i"
    and Q: "quorum {f. f = i \<or> c \<le> p_match s i f}"
  shows "commits quorum s (p_term s i) (p_log s i) c"
proof -
  have lead: "g_lead s (p_term s i) = Some i" using votes_invD(8)[OF inv(1)] i(1) by (simp add: roles_led_def)
  then have L: "p_log s i = g_log s (p_term s i)" using leader_logD(2)[OF logs_invD(2)[OF inv(2)]] by simp
  have "acked_by s f (p_term s i) c" if "f = i \<or> c \<le> p_match s i f" for f
  proof (cases "f = i")
    case True
    then show ?thesis using inv(3) lead i(3) L by (auto simp: leaders_ack_def acked_by_def)
  next
    case False
    with that have "c \<le> p_match s i f" by simp
    then show ?thesis using logs_invD(8)[OF inv(2)] i(1,2) unfolding match_ok_def acked_by_def
      by (metis not_one_le_zero order_trans)
  qed
  then have "committed quorum s (p_term s i) c" using Q i(2,4) L by (auto simp: committed_def)
  then show ?thesis using i(3) L by (auto simp: commits_def)
qed

lemma commit_step:
  assumes step: "protocol_step quorum s s'" and inv: "votes_inv quorum s" "logs_inv s" "commit_inv quorum s"
  shows "commits quorum s' (p_term s' i) (p_log s' i) (p_commit s' i)"
proof -
  note g = step_grows[OF step inv(1,2)]
  have vc: "votes_carry s" and la: "leaders_ack s" and old: "commits quorum s (p_term s i) (p_log s i) (p_commit s i)"
    using inv(3) by (simp_all add: commit_inv_def)
  have lift: "commits quorum s' (p_term s' i) l c"
    if "commits quorum s (p_term s i) l' c" "c \<le> length l \<and> take c l = take c l' \<or> c = 0" for l l' c
    using commits_grows[OF g inv(2) that(1) _ that(2)] g by (simp add: grows_def)
  have le: "p_commit s i \<le> length (p_log s i)" using old by (auto simp: commits_def)
  have grown: ?thesis if "p_commit s' i = p_commit s i" "prefix (p_log s i) (p_log s' i)"
    unfolding that(1) using lift[OF old] take_prefix_eq[OF that(2) le] prefix_length_le[OF that(2)] le by simp
  show ?thesis
    using step
  proof (cases rule: protocol_step.cases)
    case (accept msg rq f)
    note acc = accepted[OF inv(2) accept(2-6)]
    show ?thesis
    proof (cases "f = i")
      case True
      let ?L = "g_log s (p_term s i)" and ?M = "merged (p_log s i) rq" and ?c = "aq_leader_commit rq"
      have lead: "g_lead s (p_term s i) \<noteq> None" using acc(3) True by auto
      have mine: "p_commit s i \<le> length ?M \<and> take (p_commit s i) ?M = take (p_commit s i) (p_log s i)"
        using commits_leader[OF inv(1,2) vc old lead] acc(2)[of "p_commit s i"] True le by auto
      have "commits quorum s (p_term s i) ?L ?c" using inv(3) accept True unfolding commit_inv_def by metis
      then have "commits quorum s (p_term s i) ?L (min ?c (length ?M))" by (rule commits_le) simp
      moreover have "take (min ?c (length ?M)) ?M = take (min ?c (length ?M)) ?L"
        using take_prefix_eq[OF acc(1), of "min ?c (length ?M)"] True by simp
      ultimately have "commits quorum s' (p_term s' i) ?M (min ?c (length ?M))"
        using lift[of ?L "min ?c (length ?M)" ?M] by simp
      moreover have "commits quorum s' (p_term s' i) ?M (p_commit s i)" using lift[OF old] mine by blast
      moreover have "p_log s' i = ?M" "p_commit s' i \<in> {min ?c (length ?M), p_commit s i}"
        using accept True by (simp_all add: do_defs)
      ultimately show ?thesis by auto
    qed (rule grown; use accept in \<open>simp add: do_defs\<close>)
  next
    case (commit j c)
    show ?thesis
    proof (cases "j = i")
      case True
      have "commits quorum s (p_term s i) (p_log s i) c"
        by (rule commit_quorum_acks[OF inv(1,2) la]) (use commit True in simp_all)
      then show ?thesis using lift[of "p_log s i" c "p_log s i"] commit True by simp
    qed (rule grown; use commit in simp)
  next
    case (restart c j)
    show ?thesis
    proof (cases "j = i")
      case True
      then have "commits quorum s (p_term s i) (p_log s i) c" using commits_le[OF old] restart by simp
      then show ?thesis using lift[of "p_log s i" c "p_log s i"] restart True le by simp
    qed (rule grown; use restart in simp)
  qed (rule grown; simp add: do_defs)+
qed

lemma commit_messages_step:
  assumes step: "protocol_step quorum s s'" and inv: "votes_inv quorum s" "logs_inv s" "commit_inv quorum s"
    and msg: "msg \<in> p_msgs s'" "m_kind msg = AppendReq rq"
  shows "commits quorum s' (m_term msg) (g_log s' (m_term msg)) (aq_leader_commit rq)"
proof -
  note g = step_grows[OF step inv(1,2)]
  let ?t = "m_term msg" and ?c = "aq_leader_commit rq"
  have "commits quorum s ?t (g_log s ?t) ?c \<and> g_lead s ?t \<noteq> None"
  proof (cases "msg \<in> p_msgs s")
    case True
    then have "commits quorum s ?t (g_log s ?t) ?c" using inv(3) msg(2) by (simp add: commit_inv_def)
    then show ?thesis using request_lead[OF requestD[OF logs_invD(5)[OF inv(2)] True msg(2)]] by auto
  next
    case False
    show ?thesis
      using step
    proof (cases rule: protocol_step.cases)
      case (send i m' rq' k)
      then have eq: "m' = msg" "rq' = rq" using False msg by auto
      have lead: "g_lead s (p_term s i) = Some i" using votes_invD(8)[OF inv(1)] send by (auto simp: roles_led_def)
      then have "p_log s i = g_log s (p_term s i)" using leader_logD(2)[OF logs_invD(2)[OF inv(2)]] by simp
      moreover have "commits quorum s (p_term s i) (p_log s i) (p_commit s i)" using inv(3) by (simp add: commit_inv_def)
      ultimately show ?thesis using send eq lead by simp
    next
      case (noise m')
      then show ?thesis using False msg by auto
    qed (use False msg in \<open>auto simp: do_defs failure_from_def\<close>)
  qed
  then have c: "commits quorum s ?t (g_log s ?t) ?c" and l: "g_lead s ?t \<noteq> None" by auto
  have "?c \<le> length (g_log s ?t)" using c by (auto simp: commits_def)
  then show ?thesis
    using commits_grows[OF g inv(2) c order_refl] take_prefix_eq[OF growsD(2)[OF g l]]
      prefix_length_le[OF growsD(2)[OF g l]] by (meson order_trans)
qed

lemma commit_inv_step:
  assumes "protocol_step quorum s s'" "votes_inv quorum s" "logs_inv s" "commit_inv quorum s"
  shows "commit_inv quorum s'"
proof -
  have old: "acks_kept s" "votes_carry s" "leaders_ack s" using assms(4) by (simp_all add: commit_inv_def)
  show ?thesis
    unfolding commit_inv_def
    using acks_kept_step[OF assms(1-3) old(1)] votes_carry_step[OF assms(1-3) old(1,2)]
      leaders_ack_step[OF assms(1,2) old(3)] commit_step[OF assms] commit_messages_step[OF assms]
    by blast
qed

lemma commit_inv_init: "protocol_init s \<Longrightarrow> commit_inv quorum s"
  by (simp add: protocol_init_def commit_inv_def commits_def acks_kept_def votes_carry_def leaders_ack_def acked_by_def)

lemma commit_inv_reachable: "reachable quorum s \<Longrightarrow> commit_inv quorum s"
  by (induction rule: reachable.induct)
    (auto intro: commit_inv_init commit_inv_step votes_inv_reachable logs_inv_reachable)

section \<open>Safety\<close>

text \<open>Lists committed by any terms agree as far as both go.\<close>

lemma commits_agree:
  assumes inv: "votes_inv quorum s" "logs_inv s" "votes_carry s"
    and c: "commits quorum s T l c" "commits quorum s T' l' c'"
  shows "take (min c c') l = take (min c c') l'"
proof (cases "c = 0 \<or> c' = 0")
  case False
  obtain t m t' m' where i: "committed quorum s t m" "c \<le> m" "take c l = take c (g_log s t)"
    and j: "committed quorum s t' m'" "c' \<le> m'" "take c' l' = take c' (g_log s t')"
    using c False by (auto simp: commits_def)
  let ?c = "min c c'"
  have "take ?c (g_log s t) = take ?c (g_log s t')"
  proof (cases t t' rule: linorder_cases)
    case less
    then have "take m (g_log s t') = take m (g_log s t)"
      using leader_complete[OF inv i(1)] committed_facts[OF inv(2) j(1)] by blast
    then show ?thesis using i(2) by (metis min.absorb1 min.coboundedI1 take_take)
  next
    case greater
    then have "take m' (g_log s t) = take m' (g_log s t')"
      using leader_complete[OF inv j(1)] committed_facts[OF inv(2) i(1)] by blast
    then show ?thesis using j(2) by (metis min.absorb1 min.coboundedI2 take_take)
  qed simp
  moreover have "take ?c l = take ?c (g_log s t)" using i(3) by (metis min.absorb1 min.cobounded1 take_take)
  moreover have "take ?c l' = take ?c (g_log s t')" using j(3) by (metis min.absorb1 min.cobounded2 take_take)
  ultimately show ?thesis by simp
qed auto

lemma committed_prefixes_agree:
  assumes "reachable quorum s"
  shows "prefix (take (p_commit s i) (p_log s i)) (take (p_commit s j) (p_log s j)) \<or>
    prefix (take (p_commit s j) (p_log s j)) (take (p_commit s i) (p_log s i))"
proof -
  note inv = votes_inv_reachable[OF assms] logs_inv_reachable[OF assms] commit_inv_reachable[OF assms]
  have vc: "votes_carry s" and c: "commits quorum s (p_term s k) (p_log s k) (p_commit s k)" for k
    using inv(3) by (simp_all add: commit_inv_def)
  show ?thesis
    using commits_agree[OF inv(1,2) vc c[of i] c[of j]] prefix_take_le[of "p_commit s i" "p_commit s j" "p_log s j"]
      prefix_take_le[of "p_commit s j" "p_commit s i" "p_log s i"]
    by (cases "p_commit s i \<le> p_commit s j") (simp_all add: min_def)
qed

section \<open>Chosen prefixes\<close>

lemma chosen_agree:
  assumes "reachable quorum s" "chosen quorum s t l" "chosen quorum s t' l'"
  shows "prefix l l' \<or> prefix l' l"
proof -
  have "votes_carry s" using commit_inv_reachable[OF assms(1)] by (simp add: commit_inv_def)
  from commits_agree[OF votes_inv_reachable[OF assms(1)] logs_inv_reachable[OF assms(1)] this] assms(2,3)
  have "take (min (length l) (length l')) l = take (min (length l) (length l')) l'" unfolding chosen_def by blast
  then show ?thesis
    by (cases "length l \<le> length l'") (simp_all add: min_def, (metis take_is_prefix)+)
qed

lemma chosen_node:
  assumes "reachable quorum s"
  shows "chosen quorum s (p_term s i) (take (p_commit s i) (p_log s i))"
proof -
  have "commits quorum s (p_term s i) (p_log s i) (p_commit s i)"
    using commit_inv_reachable[OF assms] by (simp add: commit_inv_def)
  then show ?thesis by (auto simp: chosen_def commits_def min_def)
qed

lemma chosen_steps:
  assumes "(protocol_step quorum)\<^sup>*\<^sup>* s s'" "reachable quorum s" "chosen quorum s t l"
  shows "reachable quorum s' \<and> chosen quorum s' t l"
  using assms
proof (induction rule: rtranclp_induct)
  case (step s1 s2)
  then have r: "reachable quorum s1" "chosen quorum s1 t l" by simp_all
  note inv = votes_inv_reachable[OF r(1)] logs_inv_reachable[OF r(1)]
  have "chosen quorum s2 t l"
    using commits_grows[OF step_grows[OF step.hyps(2) inv] inv(2)] r(2) by (simp add: chosen_def)
  then show ?case using r(1) step.hyps(2) by (auto intro: reachable.intros)
qed simp

lemma chosen_leader:
  assumes "reachable quorum s" "chosen quorum s t l" "p_role s i = Leader" "t \<le> p_term s i"
  shows "prefix l (p_log s i)"
proof -
  note inv = votes_inv_reachable[OF assms(1)] logs_inv_reachable[OF assms(1)] commit_inv_reachable[OF assms(1)]
  have vc: "votes_carry s" using inv(3) by (simp add: commit_inv_def)
  have lead: "g_lead s (p_term s i) = Some i" using votes_invD(8)[OF inv(1)] assms(3) by (simp add: roles_led_def)
  then have L: "p_log s i = g_log s (p_term s i)" using leader_logD(2)[OF logs_invD(2)[OF inv(2)]] by simp
  have "commits quorum s (p_term s i) l (length l)"
    using assms(2,4) unfolding chosen_def commits_def by (meson order_trans)
  from commits_leader[OF inv(1,2) vc this] lead L have "l = take (length l) (p_log s i) \<or> l = []" by auto
  then show ?thesis by (metis Nil_prefix take_is_prefix)
qed

end

end
