(* ===== verification/RaftRefine.thy ===== *)
theory RaftRefine
  imports RaftCommit
begin

text \<open>
  The node code implements the abstract protocol.  For a fixed set of voters and no configuration
  entries, every operation of a node (message delivery, timers, proposals, reads) is matched by a
  sequence of protocol steps of that server, and every message it sends is one the protocol allows.
\<close>

section \<open>Nodes of a fixed cluster\<close>

text \<open>The fields that no operation considered here changes.\<close>

definition setup_of where
  "setup_of (n :: node) =
     (nid n, voters n, learners n, joint n, joint_enter_index n, retiring_peers n,
      (base_voters n, base_learners n, base_joint n, base_joint_enter_index n, base_active_features n),
      active_features n, snapshot_index n, snapshot_term n, transfer n, config n)"

definition plain :: "nat bset \<Rightarrow> node \<Rightarrow> bool" where
  "plain vs n \<longleftrightarrow>
     voters n = vs \<and> learners n = [] \<and> joint n = None \<and> joint_enter_index n = None \<and> retiring_peers n = [] \<and>
     base_voters n = vs \<and> base_learners n = [] \<and> base_joint n = None \<and> base_joint_enter_index n = None \<and>
     active_features n = 0 \<and> base_active_features n = 0 \<and> snapshot_index n = 0 \<and> snapshot_term n = 0 \<and>
     transfer n = None \<and> nid n \<in> set vs \<and> 1 \<le> max_entries_per_append (config n) \<and> bset_ok vs"

definition no_config :: "entry list \<Rightarrow> bool" where
  "no_config l \<longleftrightarrow> (\<forall>e \<in> set l. \<not> is_config (e_kind e))"

lemma plain_cong: "setup_of n' = setup_of n \<Longrightarrow> plain vs n' = plain vs n"
  by (simp add: plain_def setup_of_def)

lemma no_config_simps [simp]:
  "no_config []" "no_config (e # l) \<longleftrightarrow> \<not> is_config (e_kind e) \<and> no_config l"
  "no_config (l @ l') \<longleftrightarrow> no_config l \<and> no_config l'"
  by (auto simp: no_config_def)

lemma setup_frame [simp]:
  "setup_of (reset_election now n) = setup_of n" "setup_of (push_entry e n) = setup_of n"
  "setup_of (fst (apply_committed n)) = setup_of n" "setup_of (fst (advance_commit n)) = setup_of n"
  "setup_of (follow_leader message now n) = setup_of n" "setup_of (fst (learn_commit c n)) = setup_of n"
  "setup_of (note_read_ack peer response n) = setup_of n" "setup_of (fst (release_read n)) = setup_of n"
  "setup_of (record_match peer response n) = setup_of n" "setup_of (reset_quorum now n) = setup_of n"
  "setup_of (fst (observe_term message n)) = setup_of n"
  by (simp_all add: setup_of_def reset_election_def push_entry_def apply_committed_def advance_commit_def
      follow_leader_def learn_commit_def note_read_ack_def release_read_def record_match_def reset_quorum_def
      observe_term_def Let_def case_prod_beta split: option.splits)

lemma setup_progress [simp]: "setup_of (set_peer_progress peers next n) = setup_of n"
  unfolding set_peer_progress_def by (induction peers arbitrary: n) (simp_all add: setup_of_def)

lemma setup_assume [simp]: "setup_of (assume_leadership e n) = setup_of n"
proof -
  have "setup_of (m\<lparr>heard_quorum := q, quorum_deadline := d\<rparr>) = setup_of m"
    "setup_of (m\<lparr>role := r, leader_id := l\<rparr>) = setup_of m" for m q d r l
    by (simp_all add: setup_of_def)
  then show ?thesis by (simp add: assume_leadership_def Let_def)
qed

section \<open>The simulation relation\<close>

abbreviation proto :: "nat bset \<Rightarrow> protocol \<Rightarrow> protocol \<Rightarrow> bool" where
  "proto vs \<equiv> protocol_step (majority_of (set vs))"

definition linked :: "nat bset \<Rightarrow> protocol \<Rightarrow> node \<Rightarrow> bool" where
  "linked vs s n \<longleftrightarrow>
     plain vs n \<and> node_wf n \<and> no_config (log n) \<and> bset_ok (votes n) \<and>
     p_term s (nid n) = cur_term n \<and> p_vote s (nid n) = voted_for n \<and> p_role s (nid n) = role n \<and>
     p_log s (nid n) = log n \<and> p_commit s (nid n) = commit_index n \<and>
     (role n = Candidate \<longrightarrow> p_votes s (nid n) = set (votes n)) \<and>
     (role n = Leader \<longrightarrow> (\<forall>f \<in> set vs. f \<noteq> nid n \<longrightarrow>
        bmap_get (next_index n) f = Some (p_next s (nid n) f) \<and>
        bmap_get (match_index n) f = Some (p_match s (nid n) f)))"

definition leader_logs_plain :: "protocol \<Rightarrow> bool" where
  "leader_logs_plain s \<longleftrightarrow> (\<forall>t. g_lead s t \<noteq> None \<longrightarrow> no_config (g_log s t) \<and> length (g_log s t) \<le> u64_max)"

text \<open>What a protocol step of server \<open>i\<close> leaves alone.\<close>

definition others :: "nat \<Rightarrow> protocol \<Rightarrow> protocol \<Rightarrow> bool" where
  "others i s s' \<longleftrightarrow>
     (\<forall>j. j \<noteq> i \<longrightarrow>
        p_term s' j = p_term s j \<and> p_vote s' j = p_vote s j \<and> p_role s' j = p_role s j \<and> p_log s' j = p_log s j \<and>
        p_commit s' j = p_commit s j \<and> p_votes s' j = p_votes s j \<and> p_next s' j = p_next s j \<and>
        p_match s' j = p_match s j)"

definition sent :: "raft_effect list \<Rightarrow> message set" where
  "sent es = {m. Send m \<in> set es}"

definition start_ok :: "nat bset \<Rightarrow> message set \<Rightarrow> protocol \<Rightarrow> node \<Rightarrow> bool" where
  "start_ok vs M s n \<longleftrightarrow>
     reachable (majority_of (set vs)) s \<and> leader_logs_plain s \<and> linked vs s n \<and> M \<subseteq> p_msgs s"

text \<open>A node that may use the messages \<open>M\<close> moves to \<open>r\<close> by protocol steps of its own server.\<close>

definition sim :: "nat bset \<Rightarrow> message set \<Rightarrow> node \<Rightarrow> node \<times> raft_effect list \<Rightarrow> bool" where
  "sim vs M n r \<longleftrightarrow>
     (\<forall>s. start_ok vs M s n \<longrightarrow>
        (\<exists>s'. (proto vs)\<^sup>*\<^sup>* s s' \<and> start_ok vs M s' (fst r) \<and> others (nid n) s s' \<and> nid (fst r) = nid n \<and>
              sent (snd r) \<subseteq> p_msgs s'))"

lemma sent_simps [simp]:
  "sent [] = {}" "sent (es @ fs) = sent es \<union> sent fs" "sent (Send m # es) = insert m (sent es)"
  "\<not> is_send e \<Longrightarrow> sent (e # es) = sent es"
  by (auto simp: sent_def)

lemma msgs_step: "protocol_step q s s' \<Longrightarrow> p_msgs s \<subseteq> p_msgs s'"
  by (erule protocol_step.cases) (auto simp: do_defs)

lemma msgs_steps: "(protocol_step q)\<^sup>*\<^sup>* s s' \<Longrightarrow> p_msgs s \<subseteq> p_msgs s'"
  by (induction rule: rtranclp_induct) (auto dest: msgs_step)

lemma others_refl [simp]: "others i s s"
  by (simp add: others_def)

lemma others_trans: "others i s s' \<Longrightarrow> others i s' s'' \<Longrightarrow> others i s s''"
  by (simp add: others_def)

lemma sim_trans:
  assumes "sim vs M n r" "sim vs M (fst r) r'"
  shows "sim vs M n (fst r', snd r @ snd r')"
  unfolding sim_def
proof (intro allI impI)
  fix s assume "start_ok vs M s n"
  then obtain s1 where s1: "(proto vs)\<^sup>*\<^sup>* s s1" "start_ok vs M s1 (fst r)" "others (nid n) s s1"
      "nid (fst r) = nid n" "sent (snd r) \<subseteq> p_msgs s1"
    using assms(1) unfolding sim_def by blast
  then obtain s2 where s2: "(proto vs)\<^sup>*\<^sup>* s1 s2" "start_ok vs M s2 (fst r')" "others (nid n) s1 s2"
      "nid (fst r') = nid n" "sent (snd r') \<subseteq> p_msgs s2"
    using assms(2) unfolding sim_def by metis
  have "sent (snd r) \<subseteq> p_msgs s2" using s1(5) msgs_steps[OF s2(1)] by blast
  with s1 s2 show "\<exists>s'. (proto vs)\<^sup>*\<^sup>* s s' \<and> start_ok vs M s' (fst (fst r', snd r @ snd r')) \<and>
      others (nid n) s s' \<and> nid (fst (fst r', snd r @ snd r')) = nid n \<and>
      sent (snd (fst r', snd r @ snd r')) \<subseteq> p_msgs s'"
    by (intro exI[of _ s2]) (auto intro: others_trans rtranclp_trans)
qed

lemma sim_refl: "sim vs M n (n, [])"
  by (auto simp: sim_def)

text \<open>Effects that are not messages need no step.\<close>

lemma sim_effects: "sim vs M n (n', es) \<Longrightarrow> sent es' = sent es \<Longrightarrow> sim vs M n (n', es')"
  by (simp add: sim_def)

text \<open>One protocol step.\<close>

lemma sim_one:
  assumes "\<And>s. start_ok vs M s n \<Longrightarrow>
    \<exists>s'. proto vs s s' \<and> linked vs s' n' \<and> leader_logs_plain s' \<and> others (nid n) s s' \<and> sent es \<subseteq> p_msgs s'"
    and "nid n' = nid n"
  shows "sim vs M n (n', es)"
  unfolding sim_def
proof (intro allI impI)
  fix s assume s: "start_ok vs M s n"
  then obtain s' where s': "proto vs s s'" "linked vs s' n'" "leader_logs_plain s'" "others (nid n) s s'"
      "sent es \<subseteq> p_msgs s'"
    using assms(1) by blast
  moreover have "start_ok vs M s' n'"
    using s s' msgs_step[OF s'(1)] unfolding start_ok_def by (auto intro: reach_step)
  ultimately show "\<exists>s'. (proto vs)\<^sup>*\<^sup>* s s' \<and> start_ok vs M s' (fst (n', es)) \<and> others (nid n) s s' \<and>
      nid (fst (n', es)) = nid n \<and> sent (snd (n', es)) \<subseteq> p_msgs s'"
    using assms(2) by (intro exI[of _ s']) auto
qed

lemma sim_by:
  assumes "nid n' = nid n" "\<And>s. start_ok vs M s n \<Longrightarrow> proto vs s (F s)"
    "\<And>s. start_ok vs M s n \<Longrightarrow> linked vs (F s) n'" "\<And>s. start_ok vs M s n \<Longrightarrow> leader_logs_plain (F s)"
    "\<And>s. others (nid n) s (F s)" "\<And>s. start_ok vs M s n \<Longrightarrow> sent es \<subseteq> p_msgs (F s)"
  shows "sim vs M n (n', es)"
  by (rule sim_one) (use assms in blast)+

text \<open>Bookkeeping the protocol does not see.\<close>

lemma sim_quiet:
  assumes "setup_of n' = setup_of n" "hard_state n' = hard_state n" "role n' = role n" "log n' = log n"
    "commit_index n' = commit_index n" "node_wf n \<Longrightarrow> node_wf n'"
    "role n = Candidate \<Longrightarrow> votes n' = votes n" "bset_ok (votes n) \<Longrightarrow> bset_ok (votes n')"
    "role n = Leader \<Longrightarrow> next_index n' = next_index n \<and> match_index n' = match_index n"
    "sent es = {}"
  shows "sim vs M n (n', es)"
proof -
  have i: "nid n' = nid n" using assms(1) by (simp add: setup_of_def)
  have "linked vs s n'" if "linked vs s n" for s
    using that assms plain_cong[OF assms(1), of vs] i by (auto simp: linked_def)
  then show ?thesis unfolding sim_def start_ok_def using i assms(10) by (auto intro!: exI)
qed

section \<open>Reading a linked node\<close>

lemma linkedD:
  assumes "linked vs s n"
  shows "plain vs n" "node_wf n" "no_config (log n)" "bset_ok (votes n)" "p_term s (nid n) = cur_term n"
    "p_vote s (nid n) = voted_for n" "p_role s (nid n) = role n" "p_log s (nid n) = log n"
    "p_commit s (nid n) = commit_index n" "role n = Candidate \<Longrightarrow> p_votes s (nid n) = set (votes n)"
    "role n = Leader \<Longrightarrow> f \<in> set vs \<Longrightarrow> f \<noteq> nid n \<Longrightarrow> bmap_get (next_index n) f = Some (p_next s (nid n) f)"
    "role n = Leader \<Longrightarrow> f \<in> set vs \<Longrightarrow> f \<noteq> nid n \<Longrightarrow> bmap_get (match_index n) f = Some (p_match s (nid n) f)"
  using assms by (simp_all add: linked_def)

lemma start_okD:
  assumes "start_ok vs M s n"
  shows "reachable (majority_of (set vs)) s" "leader_logs_plain s" "linked vs s n" "M \<subseteq> p_msgs s"
  using assms by (simp_all add: start_ok_def)

lemma plain_last: "plain vs n \<Longrightarrow> node_wf n \<Longrightarrow> last_index n = length (log n)"
  by (simp add: node_wf_last plain_def)

lemma plain_last_term: "plain vs n \<Longrightarrow> last_term n = log_term (log n)"
  by (simp add: last_term_def log_term_def plain_def)

lemma plain_term_at:
  assumes "plain vs n" "node_wf n"
  shows "term_at n i = (if i \<le> length (log n) then Some (term_of (log n) i) else None)"
  using find_wf[OF assms(2), of i] plain_last[OF assms] assms(1)
  by (auto simp: term_at_def plain_def term_of_def split: if_splits)

lemma plain_sorted: "plain vs n \<Longrightarrow> membership_sorted n"
  by (simp add: plain_def membership_sorted_def)

lemma plain_quorum: "plain vs n \<Longrightarrow> node_quorum n Q = majority_of (set vs) Q"
  by (simp add: plain_def node_quorum_def)

lemma plain_up_to_date:
  "plain vs n \<Longrightarrow> node_wf n \<Longrightarrow> log_is_up_to_date n i t = up_to_date (log n) i t"
  by (simp add: log_is_up_to_date_def up_to_date_def plain_last plain_last_term)

section \<open>Terms and elections\<close>

lemma plain_update:
  "plain vs (n\<lparr>role := r, hard_state := h, votes := v\<rparr>) = plain vs n"
  "plain vs (n\<lparr>role := r, pre_votes := v, votes := w\<rparr>) = plain vs n"
  "plain vs (n\<lparr>votes := v\<rparr>) = plain vs n" "plain vs (n\<lparr>pre_votes := v\<rparr>) = plain vs n"
  "plain vs (n\<lparr>role := r\<rparr>) = plain vs n" "plain vs (n\<lparr>hard_state := h\<rparr>) = plain vs n"
  "plain vs (n\<lparr>next_index := x\<rparr>) = plain vs n" "plain vs (n\<lparr>last_contact := x\<rparr>) = plain vs n"
  by (simp_all add: plain_def)

lemma leader_logs_plain_cong:
  "leader_logs_plain s \<Longrightarrow> g_lead s' = g_lead s \<Longrightarrow> g_log s' = g_log s \<Longrightarrow> leader_logs_plain s'"
  by (simp add: leader_logs_plain_def)

lemma sim_observe: "sim vs M n (observe_term message n)"
proof (cases "cur_term n < m_term message \<and> \<not> is_pre_vote (m_kind message)")
  case True
  let ?n = "fst (observe_term message n)" and ?es = "snd (observe_term message n)"
  let ?F = "do_bump (nid n) (m_term message) Follower"
  have o: "hard_state ?n = \<lparr>hs_term = m_term message, hs_voted_for = None\<rparr>" "votes ?n = []"
      "role ?n = (if nid n \<in> set (voters n) then Follower else Learner)" "sent ?es = {}"
    using True by (simp_all add: observe_term_def Let_def)
  have "sim vs M n (?n, ?es)"
  proof (rule sim_by[where F = ?F])
    fix s assume "start_ok vs M s n"
    note s = start_okD[OF this]
    note l = linkedD[OF s(3)]
    have i: "nid n \<in> set vs" "voters n = vs" using l(1) by (simp_all add: plain_def)
    show "proto vs s (?F s)" using True l(5) by (intro protocol_step.bump) auto
    show "linked vs (?F s) ?n"
      unfolding linked_def using l plain_cong[of ?n n vs] o i by (auto simp: do_bump_def)
    show "leader_logs_plain (?F s)" by (rule leader_logs_plain_cong[OF s(2)]) (simp_all add: do_bump_def)
  qed (simp_all add: o others_def do_bump_def)
  then show ?thesis by simp
qed (auto simp: observe_term_def sim_refl)

lemma sim_stand:
  "sim vs M n (reset_election now (n\<lparr>role := Candidate, pre_votes := pv, votes := []\<rparr>), [])" (is "sim vs M n (?n, [])")
proof (rule sim_by[where F = "\<lambda>s. s\<lparr>p_role := (p_role s)(nid n := Candidate), p_votes := (p_votes s)(nid n := {})\<rparr>"])
  fix s assume "start_ok vs M s n"
  note s = start_okD[OF this]
  note l = linkedD[OF s(3)]
  let ?s = "s\<lparr>p_role := (p_role s)(nid n := Candidate), p_votes := (p_votes s)(nid n := {})\<rparr>"
  show "proto vs s ?s" by (rule protocol_step.stand)
  show "linked vs ?s ?n"
    unfolding linked_def using l plain_cong[of ?n "n\<lparr>role := Candidate, pre_votes := pv, votes := []\<rparr>" vs]
    by (simp add: plain_update)
  show "leader_logs_plain ?s" by (rule leader_logs_plain_cong[OF s(2)]) simp_all
qed (simp_all add: others_def)

definition campaigner :: "node \<Rightarrow> node" where
  "campaigner n = n\<lparr>role := Candidate, hard_state := \<lparr>hs_term = cur_term n + 1, hs_voted_for = Some (nid n)\<rparr>,
     votes := [nid n]\<rparr>"

lemma campaigner_fields [simp]:
  "role (campaigner n) = Candidate" "hard_state (campaigner n) = \<lparr>hs_term = cur_term n + 1, hs_voted_for = Some (nid n)\<rparr>"
  "votes (campaigner n) = [nid n]" "log (campaigner n) = log n" "nid (campaigner n) = nid n"
  "voters (campaigner n) = voters n" "commit_index (campaigner n) = commit_index n"
  "plain vs (campaigner n) = plain vs n" "node_wf (campaigner n) = node_wf n" "last_index (campaigner n) = last_index n"
  by (simp_all add: campaigner_def plain_update last_index_def)

lemma sim_campaign:
  "sim vs M n (campaigner n, PersistHard h #
     peer_messages (campaigner n) (cur_term (campaigner n))
       (VoteReq (last_index (campaigner n)) (last_term (campaigner n))))"
  (is "sim vs M n (_, ?es)")
proof (rule sim_by[where F = "do_campaign (nid n)"])
  fix s assume "start_ok vs M s n"
  note s = start_okD[OF this]
  note l = linkedD[OF s(3)]
  let ?s = "do_campaign (nid n) s"
  show "proto vs s ?s" by (rule protocol_step.campaign)
  show "linked vs ?s (campaigner n)"
    unfolding linked_def using l by (simp add: do_campaign_def Let_def)
  show "leader_logs_plain ?s" by (rule leader_logs_plain_cong[OF s(2)]) (simp_all add: do_campaign_def Let_def)
  have "last_term (campaigner n) = log_term (log n)" "last_index n = length (log n)"
    using plain_last_term[of vs "campaigner n"] plain_last l(1,2) by simp_all
  then show "sent ?es \<subseteq> p_msgs ?s"
    using l(5,8) by (auto simp: sent_def peer_messages_def do_campaign_def Let_def)
qed (simp_all add: others_def do_campaign_def Let_def)

lemma sim_drop: "sim vs M n (n', es) \<Longrightarrow> sent es' \<subseteq> sent es \<Longrightarrow> sim vs M n (n', es')"
  unfolding sim_def by fastforce

section \<open>Leading\<close>

lemma set_peer_progress_get:
  "bmap_get (next_index (set_peer_progress peers k n)) f =
     (if f \<in> set peers then Some k else bmap_get (next_index n) f)"
  "bmap_get (match_index (set_peer_progress peers k n)) f =
     (if f \<in> set peers then Some 0 else bmap_get (match_index n) f)"
  unfolding set_peer_progress_def by (induction peers arbitrary: n) (auto simp: map_of_bmap_insert)

lemma sim_lead:
  assumes cand: "role n = Candidate" "has_majority n (votes n)" and room: "last_index n < u64_max"
    and e: "e = next_entry n Noop []"
  shows "sim vs M n (assume_leadership e n, [PersistEntries [e]])"
proof (rule sim_by[where F = "do_lead (nid n) e"])
  let ?n = "assume_leadership e n"
  fix s assume "start_ok vs M s n"
  note s = start_okD[OF this]
  note l = linkedD[OF s(3)]
  let ?s = "do_lead (nid n) e s"
  have len: "e_index e = length (log n) + 1" "last_index n = length (log n)" "e_term e = cur_term n"
    using plain_last[OF l(1,2)] by (simp_all add: e next_entry_def)
  have kind: "\<not> is_config (e_kind e)" by (simp add: e next_entry_def is_config_def)
  have "majority_of (set vs) (set (votes n))"
    using cand(2) has_majority_quorum[OF plain_sorted[OF l(1)] l(4)] plain_quorum[OF l(1)] by simp
  then show "proto vs s ?s" using cand(1) l len by (intro protocol_step.lead) simp_all
  have f: "role ?n = Leader" "votes ?n = votes n" "hard_state ?n = hard_state n" "commit_index ?n = commit_index n"
    by (simp_all add: assume_leadership_def Let_def)
  have "bmap_get (next_index ?n) f = Some (length (log n) + 2) \<and> bmap_get (match_index ?n) f = Some 0"
    if "f \<in> set vs" "f \<noteq> nid n" for f
    using that l(1) len by (simp add: assume_leadership_def Let_def set_peer_progress_get plain_def)
  then show "linked vs ?s ?n"
    unfolding linked_def
    using l plain_cong[OF setup_assume[of e n], of vs] wf_assume_leadership[OF l(2), of e] f len kind
    by (simp add: do_lead_def Let_def)
  show "leader_logs_plain ?s"
    using s(2) l(3,5,8) room len kind by (auto simp: leader_logs_plain_def do_lead_def Let_def)
qed (simp_all add: others_def do_lead_def Let_def)

lemma plain_commit_quorum:
  assumes "linked vs s n" "role n = Leader" "commit_quorum n c"
  shows "majority_of (set vs) {f. f = nid n \<or> c \<le> p_match s (nid n) f}"
proof -
  note l = linkedD[OF assms(1)]
  have "majority_of (set vs) {v. acked n c v}"
    using assms(3) commit_quorum_quorum[OF plain_sorted[OF l(1)]] plain_quorum[OF l(1)] by simp
  moreover have "{v. acked n c v} \<inter> set vs \<subseteq> {f. f = nid n \<or> c \<le> p_match s (nid n) f}"
    using l(12)[OF assms(2)] by (auto simp: acked_def split: option.splits)
  ultimately show ?thesis
    unfolding majority_of_def by (metis (no_types, lifting) Int_lower2 card_mono finite_Int le_inf_iff order_less_le_trans)
qed

lemma sent_Apply [simp]: "sent (snd (apply_committed n)) = {}" "sent (snd (advance_commit n)) = {}"
  "sent (snd (learn_commit c n)) = {}"
  by (simp_all add: apply_committed_def advance_commit_def learn_commit_def Let_def case_prod_beta)

lemma sim_advance:
  assumes "role n = Leader"
  shows "sim vs M n (advance_commit n)"
proof (cases "commit_scan n = commit_index n")
  case True
  then show ?thesis by (simp add: advance_commit_def sim_refl)
next
  case False
  let ?c = "commit_scan n" and ?n = "fst (advance_commit n)"
  have scan: "commit_index n < ?c" "?c \<le> last_index n" "commit_quorum n ?c" "term_at n ?c = Some (cur_term n)"
    using commit_scan_cases[of n] False by auto
  have "sim vs M n (?n, snd (advance_commit n))"
  proof (rule sim_by[where F = "\<lambda>s. s\<lparr>p_commit := (p_commit s)(nid n := ?c)\<rparr>"])
    fix s assume "start_ok vs M s n"
    note s = start_okD[OF this]
    note l = linkedD[OF s(3)]
    let ?s = "s\<lparr>p_commit := (p_commit s)(nid n := ?c)\<rparr>"
    have t: "?c \<le> length (log n)" "term_of (log n) ?c = cur_term n"
      using scan(2,4) plain_last[OF l(1,2)] plain_term_at[OF l(1,2), of ?c] by simp_all
    show "proto vs s ?s"
      using scan(1) t l assms plain_commit_quorum[OF s(3) assms scan(3)] by (intro protocol_step.commit) simp_all
    have "commit_index ?n = ?c" using scan(1) by (simp add: advance_commit_def Let_def)
    then show "linked vs ?s ?n"
      unfolding linked_def
      using l plain_cong[OF setup_frame(4)[of n], of vs] wf_advance_commit[OF l(2)] assms by simp
    show "leader_logs_plain ?s" by (rule leader_logs_plain_cong[OF s(2)]) simp_all
  qed (simp_all add: others_def)
  then show ?thesis by simp
qed

section \<open>Sending\<close>

lemma sim_send:
  assumes "role n = Leader" "peer \<in> set vs" "peer \<noteq> nid n"
  shows "sim vs M n (n, send_append n peer)"
proof (rule sim_one)
  fix s assume "start_ok vs M s n"
  note s = start_okD[OF this]
  note l = linkedD[OF s(3)]
  let ?k = "max_entries_per_append (config n)" and ?next = "p_next s (nid n) peer"
  have nx: "bmap_get (next_index n) peer = Some ?next" using l(11)[OF assms] .
  have one: "1 \<le> ?next"
    using logs_invD(7)[OF majority_quorums.logs_inv_reachable[OF s(1)]] l(7) assms unfolding next_ok_def by simp
  have idx: "indexed 0 (log n)" using l(1,2) by (simp add: node_wf_def plain_def)
  have es: "filter (\<lambda>e. ?next \<le> e_index e) (log n) = drop (?next - 1) (log n)"
    using filter_le_indexed[OF idx, of ?next] by simp
  let ?rq = "\<lparr>aq_prev_index = ?next - 1,
      aq_prev_term = (case term_at n (?next - 1) of Some t \<Rightarrow> t | None \<Rightarrow> 0),
      aq_entries = take ?k (drop (?next - 1) (log n)), aq_leader_commit = commit_index n,
      aq_read_round = read_round n\<rparr>"
  let ?m = "\<lparr>m_proto_version = append_semantic_version (take ?k (drop (?next - 1) (log n))), m_from = nid n,
      m_to = peer, m_term = cur_term n, m_kind = AppendReq ?rq\<rparr>"
  have send: "send_append n peer = [Send ?m]" by (simp add: send_append_def Let_def nx es)
  have "slice_request (log n) ?next ?k ?rq"
    by (simp add: slice_request_def plain_term_at[OF l(1,2)])
  moreover have "0 < ?k" using l(1) by (simp add: plain_def)
  ultimately have "proto vs s (s\<lparr>p_msgs := insert ?m (p_msgs s)\<rparr>)"
    using l assms by (intro protocol_step.send[where i = "nid n" and rq = ?rq and k = ?k]) simp_all
  then show "\<exists>s'. proto vs s s' \<and> linked vs s' n \<and> leader_logs_plain s' \<and> others (nid n) s s' \<and>
      sent (send_append n peer) \<subseteq> p_msgs s'"
    using s(2,3) send
    by (intro exI[of _ "s\<lparr>p_msgs := insert ?m (p_msgs s)\<rparr>"])
      (simp add: linked_def leader_logs_plain_def others_def)
qed simp

lemma sim_sends:
  assumes "role n = Leader" "\<forall>peer \<in> set peers. peer \<in> set vs \<and> peer \<noteq> nid n"
  shows "sim vs M n (n, concat (map (send_append n) peers))"
  using assms(2)
proof (induction peers)
  case (Cons p ps)
  have "sim vs M n (n, send_append n p)" using Cons.prems by (intro sim_send[OF assms(1)]) simp_all
  from sim_trans[OF this, of "(n, concat (map (send_append n) ps))"] Cons show ?case by simp
qed (simp add: sim_refl)

lemma sim_plain: "(plain vs n \<Longrightarrow> sim vs M n r) \<Longrightarrow> sim vs M n r"
  unfolding sim_def start_ok_def linked_def by blast

lemma sim_broadcast:
  assumes "role n = Leader"
  shows "sim vs M n (n, broadcast_append n)"
proof (rule sim_plain)
  assume "plain vs n"
  then show ?thesis
    unfolding broadcast_append_def using assms by (intro sim_sends) (auto simp: plain_def)
qed

lemma sim_messages:
  assumes "\<forall>m \<in> sent es. inert (m_kind m)"
  shows "sim vs M n (n, es)"
proof -
  have "sim vs M n (n, map Send ms)" if "\<forall>m \<in> set ms. inert (m_kind m)" for ms
    using that
  proof (induction ms)
    case (Cons m ms)
    have "sim vs M n (n, [Send m])"
    proof (rule sim_by[where F = "\<lambda>s. s\<lparr>p_msgs := insert m (p_msgs s)\<rparr>"])
      fix s assume "start_ok vs M s n"
      note s = start_okD[OF this]
      show "proto vs s (s\<lparr>p_msgs := insert m (p_msgs s)\<rparr>)" using Cons.prems by (intro protocol_step.noise) simp
      show "linked vs (s\<lparr>p_msgs := insert m (p_msgs s)\<rparr>) n" using s(3) by (simp add: linked_def)
      show "leader_logs_plain (s\<lparr>p_msgs := insert m (p_msgs s)\<rparr>)"
        by (rule leader_logs_plain_cong[OF s(2)]) simp_all
    qed (simp_all add: others_def)
    from sim_trans[OF this, of "(n, map Send ms)"] Cons show ?case by simp
  qed (simp add: sim_refl)
  moreover have "\<exists>ms. sent es = set ms"
    by (intro exI[of _ "concat (map (\<lambda>e. case e of Send m \<Rightarrow> [m] | _ \<Rightarrow> []) es)"])
      (auto simp: sent_def split: raft_effect.splits; fastforce)
  then obtain ms where ms: "sent es = set ms" ..
  moreover have "sent (map Send ms) = set ms" by (auto simp: sent_def)
  ultimately show ?thesis using assms sim_effects by metis
qed

end
