(* ===== verification/RaftSim.thy ===== *)
theory RaftSim
  imports RaftRefine
begin

text \<open>
  The operations of a node, one by one, as sequences of protocol steps: elections, votes, append
  requests and responses, timers and proposals.
\<close>

section \<open>Elections\<close>

lemma become_leader_plain:
  assumes "plain vs n"
  shows "become_leader n =
    (let e = next_entry n Noop []; r = advance_commit (assume_leadership e n)
     in (fst r, (PersistEntries [e] # snd r) @ broadcast_append (fst r)))"
proof -
  let ?r = "advance_commit (assume_leadership (next_entry n Noop []) n)"
  have "setup_of (fst ?r) = setup_of n" by simp
  then have "plain vs (fst ?r)" using assms plain_cong by blast
  then have "resume_leave_joint (fst ?r) = (fst ?r, None)" "finish_inherited_transfer (fst ?r) = (fst ?r, None)"
    by (simp_all add: plain_def resume_leave_joint_def finish_inherited_transfer_def resync_transfer_finishing_def)
  then show ?thesis by (simp add: become_leader_def Let_def case_prod_beta)
qed

lemma sim_become_leader:
  assumes "role n = Candidate" "has_majority n (votes n)" "last_index n < u64_max"
  shows "sim vs M n (become_leader n)"
proof (rule sim_plain)
  assume p: "plain vs n"
  let ?e = "next_entry n Noop []"
  let ?a = "assume_leadership ?e n"
  let ?r = "advance_commit ?a"
  have lead: "role ?a = Leader" by (simp add: assume_leadership_def Let_def)
  have "sim vs M n (?a, [PersistEntries [?e]])" by (rule sim_lead[OF assms refl])
  from sim_trans[OF this, of ?r] have "sim vs M n (fst ?r, [PersistEntries [?e]] @ snd ?r)"
    using sim_advance[OF lead] by simp
  from sim_trans[OF this, of "(fst ?r, broadcast_append (fst ?r))"] show ?thesis
    using sim_broadcast[of "fst ?r"] lead by (simp add: become_leader_plain[OF p] Let_def)
qed

lemma start_election_campaigner:
  "nid n \<in> set (voters n) \<Longrightarrow> start_election n =
     (if has_majority (campaigner n) (votes (campaigner n))
      then after_effects [PersistHard (hard_state (campaigner n))] (become_leader (campaigner n))
      else (campaigner n, PersistHard (hard_state (campaigner n)) #
             peer_messages (campaigner n) (cur_term (campaigner n))
               (VoteReq (last_index (campaigner n)) (last_term (campaigner n)))))"
  by (simp add: start_election_def campaigner_def Let_def)

lemma sim_start_election:
  assumes "last_index n < u64_max"
  shows "sim vs M n (start_election n)"
proof (rule sim_plain)
  assume p: "plain vs n"
  then have i: "nid n \<in> set (voters n)" by (simp add: plain_def)
  show ?thesis
  proof (cases "has_majority (campaigner n) (votes (campaigner n))")
    case True
    have "sim vs M n (campaigner n, [PersistHard (hard_state (campaigner n))])"
      by (rule sim_drop[OF sim_campaign]) simp
    from sim_trans[OF this, of "become_leader (campaigner n)"] show ?thesis
      using True assms sim_become_leader[of "campaigner n"]
      by (simp add: start_election_campaigner[OF i] after_effects_def)
  next
    case False
    then show ?thesis using sim_campaign by (simp add: start_election_campaigner[OF i])
  qed
qed

lemma sent_peer_messages: "m \<in> sent (peer_messages n t kind) \<Longrightarrow> m_kind m = kind"
  by (auto simp: sent_def peer_messages_def)

lemma sim_start_pre_vote:
  assumes "last_index n < u64_max"
  shows "sim vs M n (start_pre_vote now n)"
proof (rule sim_plain)
  assume "plain vs n"
  then have i: "nid n \<in> set (voters n)" by (simp add: plain_def)
  let ?n = "reset_election now (n\<lparr>role := Candidate, pre_votes := [nid n], votes := []\<rparr>)"
  have last: "last_index ?n = last_index n" by (simp add: last_index_def)
  have "sim vs M ?n (start_pre_vote now n)"
    if r: "start_pre_vote now n = start_election ?n \<or>
      start_pre_vote now n = (?n, peer_messages ?n (cur_term ?n + 1) (PreVoteReq (last_index ?n) (last_term ?n)))"
    using r
  proof
    assume "start_pre_vote now n = start_election ?n"
    then show ?thesis using sim_start_election[of ?n] assms last by simp
  next
    assume e: "start_pre_vote now n = (?n, peer_messages ?n (cur_term ?n + 1) (PreVoteReq (last_index ?n) (last_term ?n)))"
    show ?thesis unfolding e by (rule sim_messages) (auto dest!: sent_peer_messages)
  qed
  moreover have "start_pre_vote now n = start_election ?n \<or>
      start_pre_vote now n = (?n, peer_messages ?n (cur_term ?n + 1) (PreVoteReq (last_index ?n) (last_term ?n)))"
    using i by (simp add: start_pre_vote_def Let_def)
  ultimately have "sim vs M ?n (start_pre_vote now n)" by blast
  from sim_trans[OF sim_stand[where now = now and pv = "[nid n]"], of vs M n "start_pre_vote now n"] this show ?thesis by simp
qed

section \<open>Votes\<close>

lemma sim_vote_request:
  assumes m: "message \<in> M" "m_kind message = VoteReq i t"
  shows "sim vs M n (vote_request message i t now n)"
proof (cases "vote_granted message i t n")
  case True
  let ?h = "n\<lparr>hard_state := (hard_state n)\<lparr>hs_voted_for := Some (m_from message)\<rparr>\<rparr>"
  let ?n = "reset_election now ?h"
  let ?m = "\<lparr>m_proto_version = PROTOCOL_VERSION, m_from = nid n, m_to = m_from message, m_term = cur_term n,
    m_kind = VoteResp True\<rparr>"
  have r: "vote_request message i t now n = (?n, [PersistHard (hard_state ?h), Send ?m])"
    using True by (simp add: vote_request_def Let_def)
  show ?thesis
    unfolding r
  proof (rule sim_by[where F = "do_vote (nid n) (m_from message)"])
    fix s assume "start_ok vs M s n"
    note s = start_okD[OF this]
    note l = linkedD[OF s(3)]
    let ?s = "do_vote (nid n) (m_from message) s"
    show "proto vs s ?s"
      by (rule protocol_step.vote[where li = i and lt = t])
        (use True m s(4) l plain_up_to_date[OF l(1,2)] in \<open>auto simp: vote_granted_def split: option.splits\<close>)
    show "linked vs ?s ?n"
      unfolding linked_def using l plain_cong[OF setup_frame(1)[of now ?h], of vs]
      by (simp add: do_vote_def Let_def plain_update)
    show "leader_logs_plain ?s" by (rule leader_logs_plain_cong[OF s(2)]) (simp_all add: do_vote_def Let_def)
    show "sent [PersistHard (hard_state ?h), Send ?m] \<subseteq> p_msgs ?s" using l(5) by (simp add: do_vote_def Let_def)
  qed (simp_all add: others_def do_vote_def Let_def)
next
  case False
  then have "vote_request message i t now n = (n, [Send \<lparr>m_proto_version = PROTOCOL_VERSION, m_from = nid n,
      m_to = m_from message, m_term = cur_term n, m_kind = VoteResp False\<rparr>])"
    by (simp add: vote_request_def Let_def)
  then show ?thesis using sim_messages[of "snd (vote_request message i t now n)"] by simp
qed

lemma sim_vote_resp:
  assumes m: "message \<in> M" "m_kind message = VoteResp granted" "m_to message = nid n"
    and room: "last_index n < u64_max"
  shows "sim vs M n (handle_vote_resp message granted n)"
proof (cases "role n = Candidate \<and> m_term message = cur_term n \<and> granted")
  case True
  let ?n = "n\<lparr>votes := bset_insert (m_from message) (votes n)\<rparr>"
  have count: "sim vs M n (?n, [])"
  proof (rule sim_by[where F = "\<lambda>s. s\<lparr>p_votes := (p_votes s)(nid n := insert (m_from message) (p_votes s (nid n)))\<rparr>"])
    fix s assume "start_ok vs M s n"
    note s = start_okD[OF this]
    note l = linkedD[OF s(3)]
    let ?s = "s\<lparr>p_votes := (p_votes s)(nid n := insert (m_from message) (p_votes s (nid n)))\<rparr>"
    show "proto vs s ?s" by (rule protocol_step.count) (use True m s(4) l in auto)
    show "linked vs ?s ?n" unfolding linked_def using l True by (simp add: plain_update)
    show "leader_logs_plain ?s" by (rule leader_logs_plain_cong[OF s(2)]) simp_all
  qed (simp_all add: others_def)
  show ?thesis
  proof (cases "has_majority ?n (votes ?n)")
    case True': True
    have "sim vs M ?n (become_leader ?n)"
      using True' True room last_index_cong[of ?n n] by (intro sim_become_leader) simp_all
    from sim_trans[OF count, of "become_leader ?n"] this show ?thesis
      using True True' by (simp add: handle_vote_resp_def Let_def)
  next
    case False
    then show ?thesis using True count by (simp add: handle_vote_resp_def Let_def)
  qed
qed (auto simp: handle_vote_resp_def sim_refl)

lemma sim_pre_vote_resp:
  assumes "last_index n < u64_max"
  shows "sim vs M n (handle_pre_vote_resp message granted n)"
proof -
  let ?n = "n\<lparr>pre_votes := bset_insert (m_from message) (pre_votes n)\<rparr>"
  have q: "sim vs M n (?n, [])" by (rule sim_quiet) (simp_all add: setup_of_def)
  have "sim vs M ?n (start_election ?n)" using assms last_index_cong[of ?n n] by (intro sim_start_election) simp
  from sim_trans[OF q, of "start_election ?n"] this have "sim vs M n (start_election ?n)" by simp
  with q show ?thesis by (simp add: handle_pre_vote_resp_def Let_def sim_refl)
qed

section \<open>Append requests\<close>

lemma truncate_plain:
  assumes "plain vs n" "no_config (log n)"
  shows "setup_of (truncate_from i n) = setup_of n" "role (truncate_from i n) = role n"
    "no_config (log (truncate_from i n))"
proof -
  let ?n = "n\<lparr>log := filter (\<lambda>e. e_index e < i) (log n)\<rparr>"
  have nc: "filter (\<lambda>e. is_config (e_kind e)) (log ?n) = []" and "no_config (log ?n)"
    using assms(2) by (auto simp: no_config_def filter_empty_conv)
  have "resync_transfer_finishing ?n = ?n" using assms(1) by (simp add: resync_transfer_finishing_def plain_def)
  then have "truncate_from i n =
      (reset_membership ?n)\<lparr>last_contact := bmap_retain (\<lambda>x. x \<in> set (voters n) \<or> x \<in> set (learners n)) (last_contact n)\<rparr>"
    using nc assms(1) by (simp add: truncate_from_def rebuild_membership_from_log_def Let_def reset_membership_def plain_def)
  then show "setup_of (truncate_from i n) = setup_of n" "role (truncate_from i n) = role n"
    using assms(1) by (simp_all add: reset_membership_def setup_of_def plain_def)
  show "no_config (log (truncate_from i n))" using \<open>no_config (log ?n)\<close> by simp
qed

lemma append_loop_plain:
  assumes "plain vs n" "no_config (log n)" "no_config es"
    and "append_loop message es n [] [] = Inr (n', eff, app)"
  shows "setup_of n' = setup_of n" "role n' = role n" "no_config (log n')" "sent eff = {}"
proof -
  let ?P = "\<lambda>m eff app. setup_of m = setup_of n \<and> role m = role n \<and> no_config (log m) \<and> sent eff = {}"
  have "loop_post ?P (\<lambda>_ _. True) (append_loop message es n [] [])"
  proof (rule append_loop_effects_rule, goal_cases)
    case (3 m eff app e existing)
    then have "plain vs m" using assms(1) plain_cong by blast
    then show ?case using 3 truncate_plain[of vs m] by simp
  next
    case (6 m eff app e m1)
    then show ?case using assms(3) by (auto simp: no_config_def)
  qed (use assms(2) in simp_all)
  then show "setup_of n' = setup_of n" "role n' = role n" "no_config (log n')" "sent eff = {}"
    using assms(4) by (simp_all add: loop_post_def)
qed

lemma sim_follow:
  assumes "role n = r"
  shows "sim vs M n (follow_leader message now n, [])"
proof (rule sim_by[where F = "\<lambda>s. s\<lparr>p_role := (p_role s)(nid n := Follower)\<rparr>"])
  fix s assume "start_ok vs M s n"
  note s = start_okD[OF this]
  note l = linkedD[OF s(3)]
  let ?s = "s\<lparr>p_role := (p_role s)(nid n := Follower)\<rparr>" and ?n = "follow_leader message now n"
  show "proto vs s ?s" by (rule protocol_step.demote) simp
  have "role ?n = Follower" using l(1) by (simp add: follow_leader_def plain_def)
  then show "linked vs ?s ?n"
    unfolding linked_def using l plain_cong[OF setup_frame(5)[of message now n], of vs] by simp
  show "leader_logs_plain ?s" by (rule leader_logs_plain_cong[OF s(2)]) simp_all
qed (simp_all add: others_def)

text \<open>What an accepted request carries, seen from the receiver.\<close>

lemma accepted_request:
  assumes s: "start_ok vs M s n" and m: "message \<in> M" "m_kind message = AppendReq request"
    "m_to message = nid n" "m_term message = cur_term n"
    and match: "term_at n (aq_prev_index request) = Some (aq_prev_term request)"
  shows "prev_matches (log n) request" "request_ok request" "below_commit_agrees n request"
proof -
  note s = start_okD[OF s]
  note l = linkedD[OF s(3)]
  note inv = majority_quorums.votes_inv_reachable[OF s(1)] majority_quorums.logs_inv_reachable[OF s(1)]
    majority_quorums.commit_inv_reachable[OF s(1)]
  let ?L = "g_log s (cur_term n)" and ?p = "aq_prev_index request" and ?es = "aq_entries request"
  show pm: "prev_matches (log n) request"
    using match plain_term_at[OF l(1,2), of ?p] by (simp add: prev_matches_def split: if_splits)
  have valid: "request_valid s message request"
    using requestD[OF logs_invD(5)[OF inv(2)]] m s(4) by blast
  obtain i where i: "g_lead s (cur_term n) = Some i" using request_lead[OF valid] m(4) by metis
  have ok: "log_ok s (cur_term n) (p_log s (nid n))" "log_ok s (cur_term n) ?L"
    using logsD[OF logs_invD(1)[OF inv(2)], of "nid n"] l(5) leader_logD(1)[OF logs_invD(2)[OF inv(2)] i] by simp_all
  note acc = accept_merge[OF ok valid m(4)] and pm' = pm[folded l(8)]
  have p: "?p \<le> length ?L" and pre: "prefix ?es (drop ?p ?L)" using acc(2,3)[OF pm'] .
  obtain r where r: "drop ?p ?L = ?es @ r" using pre by (auto simp: prefix_def)
  have L: "?L = take ?p ?L @ ?es @ r" using r by (metis append_take_drop_id)
  have idx: "indexed 0 ?L" using ok(2) by (simp add: log_ok_def)
  have "indexed ?p (drop ?p ?L)" using indexed_drop[OF idx, of ?p] by simp
  then have es: "indexed ?p ?es" using indexed_take[of ?p "?es @ r" "length ?es"] r by simp
  have "no_config ?L" "length ?L \<le> u64_max" using s(2) i by (auto simp: leader_logs_plain_def)
  moreover have "?p + length ?es \<le> length ?L" using arg_cong[OF r, of length] p by simp
  moreover have "no_config ?es" using \<open>no_config ?L\<close> L by (metis no_config_simps(3))
  ultimately show "request_ok request" using es by (simp add: request_ok_def no_config_def)
  have vc: "votes_carry s" and c: "commits (majority_of (set vs)) s (cur_term n) (log n) (commit_index n)"
    using inv(3) l(5,8,9) unfolding commit_inv_def by metis+
  have agree: "take (commit_index n) (log n) = take (commit_index n) ?L"
    using majority_quorums.commits_leader[OF inv(1,2) vc c] i by auto
  show "below_commit_agrees n request"
    unfolding below_commit_agrees_def
  proof (intro ballI allI impI)
    fix e x assume e: "e \<in> set ?es" and x: "find_index (e_index e) (log n) = Some x" and le: "e_index e \<le> commit_index n"
    obtain k where k: "k < length ?es" "e = ?es ! k" using e by (auto simp: in_set_conv_nth)
    have ie: "e_index e = ?p + k + 1" using indexed_nth[OF es k(1)] k(2) by simp
    have "?L ! (?p + k) = e" using k r p by (metis nth_append nth_drop)
    moreover have "x = log n ! (?p + k)"
      using x find_wf[OF l(2), of "e_index e"] ie l(1) by (auto simp: plain_def split: if_splits)
    moreover have "log n ! (?p + k) = ?L ! (?p + k)" using agree le ie by (metis Suc_eq_plus1 Suc_le_lessD nth_take)
    ultimately show "e_term x = e_term e" by simp
  qed
qed

lemma sent_make_response:
  "sent [make_append_response n message b matched ct ci] =
     {\<lparr>m_proto_version = PROTOCOL_VERSION, m_from = nid n, m_to = m_from message, m_term = cur_term n,
       m_kind = AppendResp \<lparr>ap_success = b, ap_match_index = matched, ap_conflict_term = ct, ap_conflict_index = ci,
         ap_read_round = (case m_kind message of AppendReq request \<Rightarrow> aq_read_round request | _ \<Rightarrow> 0)\<rparr>\<rparr>}"
  by (auto simp: sent_def make_append_response_def Let_def)

lemma sim_refuse: "sim vs M n (n, [make_append_response n message False matched ct (last_index n)])"
proof (rule sim_by[where F = "\<lambda>s. s\<lparr>p_msgs := p_msgs s \<union> failure_from (nid n) (p_term s (nid n)) (length (p_log s (nid n)))\<rparr>"])
  fix s assume "start_ok vs M s n"
  note s = start_okD[OF this]
  note l = linkedD[OF s(3)]
  let ?s = "s\<lparr>p_msgs := p_msgs s \<union> failure_from (nid n) (p_term s (nid n)) (length (p_log s (nid n)))\<rparr>"
  show "proto vs s ?s" by (rule protocol_step.refuse)
  show "linked vs ?s n" using s(3) by (simp add: linked_def)
  show "leader_logs_plain ?s" by (rule leader_logs_plain_cong[OF s(2)]) simp_all
  show "sent [make_append_response n message False matched ct (last_index n)] \<subseteq> p_msgs ?s"
    using l(5,8) plain_last[OF l(1,2)] by (simp add: sent_make_response failure_from_def)
qed (simp_all add: others_def)

lemma sim_reject:
  assumes m: "message \<in> M" "m_kind message = AppendReq request" "m_to message = nid n" "m_term message = cur_term n"
    and no: "term_at n (aq_prev_index request) \<noteq> Some (aq_prev_term request)" and room: "last_index n < u64_max"
  shows "sim vs M n (n, [make_append_response n message False matched ct (append_conflict_index n request)])"
proof (rule sim_one)
  fix s assume "start_ok vs M s n"
  note s = start_okD[OF this]
  note l = linkedD[OF s(3)]
  let ?s = "s\<lparr>p_msgs := p_msgs s \<union> failure_from (nid n) (p_term s (nid n)) (conflict_hint (p_log s (nid n)) request)\<rparr>"
  have "\<not> prev_matches (log n) request"
    using no plain_term_at[OF l(1,2), of "aq_prev_index request"] by (auto simp: prev_matches_def split: if_splits)
  then have "proto vs s ?s" using m s(4) l by (intro protocol_step.reject[of message]) auto
  moreover have "append_conflict_index n request = conflict_hint (log n) request"
    using room plain_last[OF l(1,2)] l(1) by (simp add: append_conflict_index_def conflict_hint_def plain_def)
  then have "sent [make_append_response n message False matched ct (append_conflict_index n request)] \<subseteq> p_msgs ?s"
    using l(5,8) by (simp add: sent_make_response failure_from_def)
  ultimately show "\<exists>s'. proto vs s s' \<and> linked vs s' n \<and> leader_logs_plain s' \<and> others (nid n) s s' \<and>
      sent [make_append_response n message False matched ct (append_conflict_index n request)] \<subseteq> p_msgs s'"
    using s(2,3) by (intro exI[of _ ?s]) (simp add: linked_def leader_logs_plain_def others_def)
qed simp

lemma commit_learn: "commit_index (fst (learn_commit c n)) =
    (if commit_index n < c then min c (last_index n) else commit_index n)"
  by (simp add: learn_commit_def)

lemma sim_accept:
  assumes m: "message \<in> M" "m_kind message = AppendReq request" "m_to message = nid n" "m_term message = cur_term n"
    and match: "term_at n (aq_prev_index request) = Some (aq_prev_term request)" and fol: "role n = Follower"
    and r: "r = (case append_loop message (aq_entries request) n [] [] of
               Inl r \<Rightarrow> r
             | Inr (n1, effects, appended) \<Rightarrow>
                 let (n2, es) = learn_commit (aq_leader_commit request) n1
                 in (n2, effects @ (if appended = [] then [] else [PersistEntries appended]) @ es @
                         [make_append_response n2 message True (last_index n2) None 0]))"
  shows "sim vs M n r"
proof -
  have "sim vs M n (fst r, snd r)"
  proof (rule sim_one)
    fix s assume st: "start_ok vs M s n"
    note s = start_okD[OF st]
    note l = linkedD[OF s(3)]
    note a = accepted_request[OF st m match]
    let ?p = "aq_prev_index request"
    have le: "?p \<le> last_index n" using term_at_bounds[OF l(2) match] l(1) by (simp add: plain_def)
    have z: "snapshot_index n = 0" using l(1) by (simp add: plain_def)
    have ok: "indexed ?p (aq_entries request)" "no_config (aq_entries request)"
        "?p + length (aq_entries request) \<le> u64_max"
      using a(2) by (simp_all add: request_ok_def no_config_def)
    have "is_ok (append_loop message (aq_entries request) n [] [])"
    proof (rule append_loop_returns[OF l(2) ok(1) _ le _ ok(3)])
      show "\<forall>e \<in> set (aq_entries request). \<not> is_config (e_kind e)" using ok(2) by (simp add: no_config_def)
      show "\<forall>e \<in> set (aq_entries request). \<forall>x. find_index (e_index e) (log n) = Some x \<longrightarrow>
          e_index e \<le> commit_index n \<longrightarrow> e_term x = e_term e"
        using a(3) unfolding below_commit_agrees_def .
    qed (simp add: z)
    then obtain n1 t xs where loop: "append_loop message (aq_entries request) n [] [] = Inr (n1, t, xs)"
      by (auto simp: is_ok_iff)
    note pl = append_loop_plain[OF l(1,3) ok(2) loop]
    note fr = append_loop_frame[of message "aq_entries request" n "[]" "[]", unfolded loop loop_node.simps]
    have log1: "log n1 = merged (log n) request"
      using append_loop_merge[OF loop l(2) ok(1) _ le] z by (simp add: merged_def)
    have wf1: "node_wf n1" using wf_append_loop[OF l(2), of message "aq_entries request" "[]" "[]"] by (simp add: loop)
    have pl1: "plain vs n1" using l(1) plain_cong[OF pl(1)] by blast
    let ?n2 = "fst (learn_commit (aq_leader_commit request) n1)"
    have r': "r = (?n2, t @ (if xs = [] then [] else [PersistEntries xs]) @ snd (learn_commit (aq_leader_commit request) n1) @
        [make_append_response ?n2 message True (last_index ?n2) None 0])"
      by (simp add: r loop case_prod_beta)
    have last: "last_index n1 = length (log n1)" "last_index ?n2 = length (log n1)"
      using plain_last[OF pl1 wf1] last_index_cong[of ?n2 n1] by simp_all
    let ?s = "do_accept (nid n) message request s"
    have step: "proto vs s ?s" using m s(4) l a(1) by (intro protocol_step.accept) auto
    have "linked vs ?s (fst r)"
      unfolding linked_def
      using l plain_cong[OF setup_frame(6)[of "aq_leader_commit request" n1], of vs] pl1 wf_learn_commit[OF wf1]
        pl fr fol log1 last
      by (simp add: r' do_accept_def Let_def commit_learn)
    moreover have "leader_logs_plain ?s"
      by (rule leader_logs_plain_cong[OF s(2)]) (simp_all add: do_accept_def Let_def)
    moreover have "sent (snd r) \<subseteq> p_msgs ?s"
      using pl(4) log1 last l(5,8) fr by (simp add: r' sent_make_response do_accept_def Let_def)
    moreover have "others (nid n) s ?s" by (simp add: others_def do_accept_def Let_def)
    ultimately show "\<exists>s'. proto vs s s' \<and> linked vs s' (fst r) \<and> leader_logs_plain s' \<and> others (nid n) s s' \<and>
        sent (snd r) \<subseteq> p_msgs s'"
      using step by blast
  next
    show "nid (fst r) = nid n"
    proof (cases "append_loop message (aq_entries request) n [] []")
      case (Inl q)
      then show ?thesis using append_loop_frame(1)[of message "aq_entries request" n "[]" "[]"]
        by (cases q) (simp add: r)
    next
      case (Inr q)
      then show ?thesis using append_loop_frame(1)[of message "aq_entries request" n "[]" "[]"]
        by (cases q) (simp add: r case_prod_beta)
    qed
  qed
  then show ?thesis by simp
qed

lemma sim_append_request:
  assumes m: "message \<in> M" "m_kind message = AppendReq request" "m_to message = nid n" "m_term message \<le> cur_term n"
    and room: "last_index n < u64_max"
  shows "sim vs M n (handle_append_request message request now n)"
proof (cases "m_term message < cur_term n")
  case True
  then show ?thesis using sim_refuse by (simp add: handle_append_request_def)
next
  case False
  let ?n = "follow_leader message now n"
  let ?h = "handle_append_request message request now n"
  have t: "m_term message = cur_term ?n" "m_to message = nid ?n" using m False by simp_all
  have last: "last_index ?n = last_index n" by (rule last_index_cong) simp_all
  have "sim vs M ?n ?h"
  proof (rule sim_plain)
    assume "plain vs ?n"
    then have fol: "role ?n = Follower" by (simp add: follow_leader_def plain_def)
    show ?thesis
    proof (cases "term_at ?n (aq_prev_index request) = Some (aq_prev_term request)")
      case True
      show ?thesis
        by (rule sim_accept[OF m(1,2) t(2,1) True fol]) (use False True in \<open>simp add: handle_append_request_def Let_def\<close>)
    next
      case no: False
      then show ?thesis
        using sim_reject[OF m(1,2) t(2,1) no] room last False by (simp add: handle_append_request_def Let_def)
    qed
  qed
  from sim_trans[OF sim_follow[OF refl, of vs M n message now], of ?h] this show ?thesis by simp
qed

section \<open>Append responses\<close>

lemma sim_record_match:
  assumes m: "message \<in> M" "m_kind message = AppendResp response" "ap_success response" "m_term message = cur_term n"
    and lead: "role n = Leader"
  shows "sim vs M n (record_match (m_from message) response n, [])"
proof (rule sim_by[where F = "\<lambda>s. s\<lparr>p_match := (p_match s)(nid n := (p_match s (nid n))(m_from message := ap_match_index response)),
         p_next := (p_next s)(nid n := (p_next s (nid n))(m_from message := ap_match_index response + 1))\<rparr>"])
  fix s assume "start_ok vs M s n"
  note s = start_okD[OF this]
  note l = linkedD[OF s(3)]
  let ?s = "s\<lparr>p_match := (p_match s)(nid n := (p_match s (nid n))(m_from message := ap_match_index response)),
         p_next := (p_next s)(nid n := (p_next s (nid n))(m_from message := ap_match_index response + 1))\<rparr>"
  let ?n = "record_match (m_from message) response n"
  show "proto vs s ?s" by (rule protocol_step.learn_match) (use m s(4) l lead in auto)
  have "bmap_get (next_index ?n) f = (if f = m_from message then Some (ap_match_index response + 1) else bmap_get (next_index n) f)"
    "bmap_get (match_index ?n) f = (if f = m_from message then Some (ap_match_index response) else bmap_get (match_index n) f)" for f
    by (simp_all add: record_match_def Let_def map_of_bmap_insert)
  then show "linked vs ?s ?n"
    unfolding linked_def using l plain_cong[OF setup_frame(9)[of "m_from message" response n], of vs] lead by simp
  show "leader_logs_plain ?s" by (rule leader_logs_plain_cong[OF s(2)]) simp_all
qed (simp_all add: others_def)

lemma sim_record_conflict:
  assumes m: "message \<in> M" "m_kind message = AppendResp response" "\<not> ap_success response"
    "m_term message = cur_term n" and lead: "role n = Leader"
  shows "sim vs M n (n\<lparr>next_index := bmap_insert (m_from message) (max (ap_conflict_index response) 1) (next_index n)\<rparr>, [])"
    (is "sim vs M n (?n, [])")
proof (rule sim_by[where F = "\<lambda>s. s\<lparr>p_next := (p_next s)(nid n := (p_next s (nid n))(m_from message := max (ap_conflict_index response) 1))\<rparr>"])
  fix s assume "start_ok vs M s n"
  note s = start_okD[OF this]
  note l = linkedD[OF s(3)]
  let ?s = "s\<lparr>p_next := (p_next s)(nid n := (p_next s (nid n))(m_from message := max (ap_conflict_index response) 1))\<rparr>"
  show "proto vs s ?s" by (rule protocol_step.learn_conflict) (use m s(4) l lead in auto)
  show "linked vs ?s ?n"
    unfolding linked_def using l lead by (simp add: plain_update map_of_bmap_insert)
  show "leader_logs_plain ?s" by (rule leader_logs_plain_cong[OF s(2)]) simp_all
qed (simp_all add: others_def)

lemma sim_read_ack: "sim vs M n (release_read (note_read_ack peer response n))"
proof -
  let ?r = "release_read (note_read_ack peer response n)"
  have "setup_of (fst ?r) = setup_of n" by simp
  moreover have "sent (snd ?r) = {}" by (simp add: release_read_def split: option.splits)
  ultimately have "sim vs M n (fst ?r, snd ?r)" by (intro sim_quiet) simp_all
  then show ?thesis by simp
qed

lemma sim_append_response_from_peer:
  assumes m: "message \<in> M" "m_kind message = AppendResp response" "m_term message = cur_term n"
    "m_from message \<noteq> nid n" and lead: "role n = Leader" and peer: "m_from message \<in> set vs"
  shows "sim vs M n (append_response_from_peer (m_from message) response n)"
proof (cases "ap_success response")
  case True
  let ?p = "m_from message"
  let ?r1 = "advance_commit (record_match ?p response n)"
  let ?r2 = "release_read (note_read_ack ?p response (fst ?r1))"
  let ?send = "case bmap_get (next_index (fst ?r2)) ?p of
      Some next \<Rightarrow> if next \<le> last_index (fst ?r2) then send_append (fst ?r2) ?p else [] | None \<Rightarrow> []"
  have l: "role (record_match ?p response n) = Leader" "role (fst ?r2) = Leader" "nid (fst ?r2) = nid n"
    using lead by simp_all
  have "sim vs M n (record_match ?p response n, [])" by (rule sim_record_match[OF m(1,2) True m(3) lead])
  from sim_trans[OF this, of ?r1] have "sim vs M n (fst ?r1, snd ?r1)" using sim_advance[OF l(1)] by simp
  from sim_trans[OF this, of ?r2] have "sim vs M n (fst ?r2, snd ?r1 @ snd ?r2)" using sim_read_ack by simp
  moreover have "sim vs M (fst ?r2) (fst ?r2, ?send)"
    using sim_send[OF l(2) peer] m(4) l(3) by (auto simp: sim_refl split: option.splits)
  ultimately have s: "sim vs M n (fst ?r2, (snd ?r1 @ snd ?r2) @ ?send)"
    using sim_trans[of vs M n "(fst ?r2, snd ?r1 @ snd ?r2)" "(fst ?r2, ?send)"] by simp
  show ?thesis
  proof (rule sim_plain)
    assume "plain vs n"
    then have "plain vs (fst ?r2)" using plain_cong[of "fst ?r2" n vs] by simp
    then have "transfer_trigger ?p response (fst ?r2) = []" by (simp add: transfer_trigger_def plain_def)
    then show ?thesis
      using s True by (simp add: append_response_from_peer_def Let_def case_prod_beta)
  qed
next
  case False
  let ?n = "n\<lparr>next_index := bmap_insert (m_from message) (max (ap_conflict_index response) 1) (next_index n)\<rparr>"
  have "sim vs M n (?n, [])" by (rule sim_record_conflict[OF m(1,2) False m(3) lead])
  moreover have "sim vs M ?n (?n, send_append ?n (m_from message))"
    using lead peer m(4) by (intro sim_send) simp_all
  ultimately show ?thesis
    using False sim_trans[of vs M n "(?n, [])" "(?n, send_append ?n (m_from message))"]
    by (simp add: append_response_from_peer_def Let_def)
qed

lemma sim_append_response:
  assumes m: "message \<in> M" "m_kind message = AppendResp response" "m_from message \<noteq> nid n"
  shows "sim vs M n (handle_append_response message response now n)"
proof (rule sim_plain)
  assume p: "plain vs n"
  let ?n = "n\<lparr>last_contact := bmap_insert (m_from message) now (last_contact n)\<rparr>"
  show ?thesis
  proof (cases "role n \<noteq> Leader \<or> m_term message \<noteq> cur_term n \<or> m_from message \<notin> set vs")
    case True
    then show ?thesis using p by (simp add: handle_append_response_def Let_def plain_def sim_refl)
  next
    case False
    have q: "sim vs M n (?n, [])" by (rule sim_quiet) (simp_all add: setup_of_def)
    have "sim vs M ?n (append_response_from_peer (m_from message) response ?n)"
      by (rule sim_append_response_from_peer[OF m(1,2)]) (use False m in simp_all)
    with sim_trans[OF q, of "append_response_from_peer (m_from message) response ?n"]
    have "sim vs M n (append_response_from_peer (m_from message) response ?n)" by simp
    moreover have "sim vs M n (append_response_from_peer (m_from message) response n)"
      by (rule sim_append_response_from_peer[OF m(1,2)]) (use False m in simp_all)
    ultimately show ?thesis
      using p False by (simp add: handle_append_response_def Let_def plain_def)
  qed
qed

section \<open>Messages\<close>

lemma sim_dispatch:
  assumes m: "message \<in> M" "m_to message = nid n" "m_from message \<noteq> nid n"
    "\<not> is_pre_vote (m_kind message) \<Longrightarrow> m_term message \<le> cur_term n"
    and room: "last_index n < u64_max"
  shows "sim vs M n (dispatch message now n)"
proof (cases "m_kind message")
  case (PreVoteReq i t)
  then show ?thesis
    using sim_messages[where es = "[pre_vote_response n message i t]"] by (simp add: dispatch_def pre_vote_response_def Let_def)
next
  case (PreVoteResp granted)
  then show ?thesis using sim_pre_vote_resp[OF room] by (simp add: dispatch_def)
next
  case (VoteReq i t)
  then show ?thesis using sim_vote_request[OF m(1)] by (simp add: dispatch_def)
next
  case (VoteResp granted)
  then show ?thesis using sim_vote_resp[OF m(1) _ m(2) room] by (simp add: dispatch_def)
next
  case (AppendReq request)
  then show ?thesis using sim_append_request[OF m(1) _ m(2) _ room] m(4) by (simp add: dispatch_def)
next
  case (AppendResp response)
  then show ?thesis using sim_append_response[OF m(1) _ m(3)] by (simp add: dispatch_def)
next
  case (SnapshotChunk c)
  have "\<forall>m \<in> sent (handle_snapshot_chunk n message c). inert (m_kind m)"
    by (auto simp: handle_snapshot_chunk_def sent_def snapshot_ack_def split: option.splits if_splits)
  then show ?thesis using sim_messages SnapshotChunk by (simp add: dispatch_def)
next
  case (SnapshotAck a b c d)
  have "sim vs M n (fst (dispatch message now n), snd (dispatch message now n))"
    by (rule sim_quiet) (simp_all add: SnapshotAck dispatch_def setup_of_def)
  then show ?thesis by simp
next
  case (TimeoutNow i)
  show ?thesis
  proof (rule sim_plain)
    assume "plain vs n"
    then have "dispatch message now n = (n, [Trace ''timeout_now_rejected'' i])"
      using TimeoutNow by (simp add: dispatch_def timeout_now_valid_def plain_def)
    then show ?thesis using sim_effects[OF sim_refl] by simp
  qed
next
  case (FollowerReadRequest a b)
  then show ?thesis using sim_effects[OF sim_refl, where es' = "snd (dispatch message now n)"] by (simp add: dispatch_def)
next
  case (FollowerReadGrant a b c d)
  then show ?thesis using sim_effects[OF sim_refl, where es' = "snd (dispatch message now n)"] by (simp add: dispatch_def)
qed

lemma sim_on_message:
  assumes m: "message \<in> M" "m_to message = nid n" "m_from message \<noteq> nid n" and room: "last_index n < u64_max"
  shows "sim vs M n (on_message_at message now n)"
proof (cases "supports_protocol_version (m_proto_version message)")
  case True
  let ?o = "observe_term message n"
  have "sim vs M (fst ?o) (dispatch message now (fst ?o))"
    by (rule sim_dispatch[OF m(1)]) (use m room in \<open>auto simp: observe_term_def Let_def\<close>)
  from sim_trans[OF sim_observe[of vs M n message] this] show ?thesis
    using True by (simp add: on_message_at_def extend_with_def case_prod_beta)
next
  case False
  then show ?thesis
    using sim_effects[OF sim_refl, where es' = "snd (on_message_at message now n)"] by (simp add: on_message_at_def)
qed

section \<open>Timers\<close>

lemma plain_nudge: "plain vs n \<Longrightarrow> nudge_effects n = []"
  by (simp add: nudge_effects_def transfer_nudge_def plain_def)

lemma sim_heartbeats:
  assumes "role n = Leader"
  shows "sim vs M n (n, broadcast_append n @ nudge_effects n)"
proof (rule sim_plain)
  assume "plain vs n"
  then show ?thesis using sim_broadcast[OF assms] by (simp add: plain_nudge)
qed

lemma sim_stepdown:
  assumes "setup_of n' = setup_of n" "hard_state n' = hard_state n" "role n' = Follower" "log n' = log n"
    "commit_index n' = commit_index n" "node_wf n \<Longrightarrow> node_wf n'" "votes n' = votes n" "sent es = {}"
  shows "sim vs M n (n', es)"
proof (rule sim_by[where F = "\<lambda>s. s\<lparr>p_role := (p_role s)(nid n := Follower)\<rparr>"])
  have i: "nid n' = nid n" using assms(1) by (simp add: setup_of_def)
  then show "nid n' = nid n" .
  fix s assume "start_ok vs M s n"
  note s = start_okD[OF this]
  note l = linkedD[OF s(3)]
  let ?s = "s\<lparr>p_role := (p_role s)(nid n := Follower)\<rparr>"
  show "proto vs s ?s" by (rule protocol_step.demote) simp
  show "linked vs ?s n'"
    unfolding linked_def using l assms plain_cong[OF assms(1), of vs] i by simp
  show "leader_logs_plain ?s" by (rule leader_logs_plain_cong[OF s(2)]) simp_all
qed (simp_all add: others_def assms)

lemma sim_check_quorum:
  "(case check_quorum now n of Inl r \<Rightarrow> sim vs M n r
    | Inr n1 \<Rightarrow> sim vs M n (n1, []) \<and> role n1 = role n \<and> last_index n1 = last_index n)"
proof -
  let ?d = "reset_election now ((reset_quorum now n)\<lparr>role := Follower, leader_id := None\<rparr>)"
  have "setup_of ?d = setup_of n"
    by (simp add: reset_quorum_def) (simp add: setup_of_def)
  then have "sim vs M n (?d, [Trace ''checkquorum_stepdown'' (last_index ?d)])" by (rule sim_stepdown) simp_all
  moreover have "sim vs M n (reset_quorum now n, [])" by (rule sim_quiet) simp_all
  ultimately show ?thesis by (simp add: check_quorum_def Let_def sim_refl)
qed

lemma sim_tick_timers:
  assumes "last_index n < u64_max"
  shows "sim vs M n (tick_timers now n)"
proof (cases "check_quorum now n")
  case (Inl r)
  then show ?thesis using sim_check_quorum[where now = now and n = n and vs = vs and M = M] by (simp add: tick_timers_def)
next
  case (Inr n1)
  have q: "sim vs M n (n1, [])" "role n1 = role n" "last_index n1 = last_index n"
    using sim_check_quorum[where now = now and n = n and vs = vs and M = M] Inr by simp_all
  let ?n = "n1\<lparr>heartbeat_deadline := now + heartbeat (config n1)\<rparr>"
  let ?es = "broadcast_append ?n @ nudge_effects ?n"
  let ?t = "ArmTimer (sat_add (sat_mul (nid ?n) 2) 1) (heartbeat_deadline ?n) Heartbeat"
  have "sim vs M n1 (?n, ?es @ [?t])" if "role n1 = Leader"
  proof -
    have "sim vs M n1 (?n, [])" by (rule sim_quiet) (simp_all add: setup_of_def)
    from sim_trans[OF this, of "(?n, ?es)"] have "sim vs M n1 (?n, ?es)" using that sim_heartbeats[of ?n] by simp
    then show ?thesis by (rule sim_effects) simp
  qed
  moreover have "sim vs M n1 (start_pre_vote now n1)" using assms q(3) by (intro sim_start_pre_vote) simp
  ultimately have "sim vs M n1 (tick_timers now n)"
    using Inr by (simp add: tick_timers_def Let_def sim_refl)
  from sim_trans[OF q(1), of "tick_timers now n"] this show ?thesis by simp
qed

lemma sim_tick:
  assumes "last_index n < u64_max"
  shows "sim vs M n (tick now n)"
proof (rule sim_plain)
  assume "plain vs n"
  then have "tick now n = tick_timers now n"
    by (simp add: tick_def resync_transfer_finishing_def transfer_expired_def plain_def)
  then show ?thesis using sim_tick_timers[OF assms] by simp
qed

lemma sim_on_timer:
  assumes "last_index n < u64_max"
  shows "sim vs M n (on_timer now timer n)"
  using sim_heartbeats sim_start_pre_vote[OF assms] sim_refl by (cases timer) (simp_all add: on_timer_def)

lemma sim_rearm: "sim vs M n (rearm_election now n, [])"
  by (rule sim_quiet) (simp_all add: rearm_election_def)

section \<open>Proposals and reads\<close>

lemma sim_push:
  assumes lead: "role n = Leader" and room: "last_index n < u64_max" and kind: "\<not> is_config kind"
  shows "sim vs M n (push_entry (next_entry n kind payload) n, [PersistEntries [next_entry n kind payload]])"
proof (rule sim_by[where F = "do_extend (nid n) (next_entry n kind payload)"])
  let ?e = "next_entry n kind payload"
  let ?n = "push_entry ?e n"
  fix s assume "start_ok vs M s n"
  note s = start_okD[OF this]
  note l = linkedD[OF s(3)]
  let ?s = "do_extend (nid n) ?e s"
  have len: "e_index ?e = length (log n) + 1" "last_index n = length (log n)" "e_term ?e = cur_term n"
    "e_kind ?e = kind"
    using plain_last[OF l(1,2)] by (simp_all add: next_entry_def)
  show "proto vs s ?s" using lead l len by (intro protocol_step.extend) simp_all
  show "linked vs ?s ?n"
    unfolding linked_def
    using l plain_cong[OF setup_frame(2)[of ?e n], of vs] wf_push[OF l(2), of ?e] lead len kind
    by (simp add: do_extend_def Let_def)
  show "leader_logs_plain ?s"
    using s(2) l(3,5,8) room len kind by (auto simp: leader_logs_plain_def do_extend_def Let_def)
qed (simp_all add: others_def do_extend_def Let_def)

lemma sim_publish:
  assumes "role n = Leader" "last_index n < u64_max" "\<not> is_config kind"
  shows "sim vs M n (publish_entry (next_entry n kind payload) n)"
proof -
  let ?e = "next_entry n kind payload"
  let ?r = "advance_commit (push_entry ?e n)"
  have lead: "role (push_entry ?e n) = Leader" "role (fst ?r) = Leader" using assms(1) by simp_all
  from sim_trans[OF sim_push[OF assms, of vs M payload], of ?r]
  have "sim vs M n (fst ?r, PersistEntries [?e] # snd ?r)" using sim_advance[OF lead(1)] by simp
  from sim_trans[OF this, of "(fst ?r, broadcast_append (fst ?r))"] show ?thesis
    using sim_broadcast[OF lead(2)] by (simp add: publish_entry_def case_prod_beta)
qed

lemma sim_propose_with_kind:
  assumes "last_index n < u64_max" "\<not> is_config kind"
  shows "sim vs M n (ok_effects (propose_with_kind payload kind n))"
  using sim_publish[OF _ assms, of vs M payload] sim_refl
  by (auto simp: propose_with_kind_def ok_effects_def case_prod_beta)

lemma sim_request_read: "sim vs M n (ok_effects (request_read n))"
proof (cases "role n = Leader \<and> transfer n = None \<and> current_term_is_committed n")
  case True
  let ?n = "n\<lparr>read_round := sat_add (read_round n) 1, read_acks := [nid n], read_index := Some (commit_index n)\<rparr>"
  have "sim vs M n (?n, [])" by (rule sim_quiet) (simp_all add: setup_of_def)
  from sim_trans[OF this, of "(?n, broadcast_append ?n)"] have b: "sim vs M n (?n, broadcast_append ?n)"
    using sim_broadcast[of ?n] True by simp
  have "sim vs M ?n (?n\<lparr>read_index := None\<rparr>, [])" by (rule sim_quiet) (simp_all add: setup_of_def)
  with sim_trans[OF b, of "(?n\<lparr>read_index := None\<rparr>, [])"]
  have c: "sim vs M n (?n\<lparr>read_index := None\<rparr>, broadcast_append ?n)" by simp
  show ?thesis
    using True sim_effects[OF b, of "ReadBarrier (commit_index n) # broadcast_append ?n"]
      sim_effects[OF c, of "ReadBarrier (commit_index n) # broadcast_append ?n @ [ReadBarrierReady (commit_index n)]"]
    by (simp add: request_read_def ok_effects_def Let_def)
qed (auto simp: request_read_def ok_effects_def sim_refl)

section \<open>Every input of a fixed cluster\<close>

fun fixed_input :: "node \<Rightarrow> message set \<Rightarrow> node_input \<Rightarrow> bool" where
  "fixed_input n M (In_message m now) \<longleftrightarrow> m \<in> M \<and> m_to m = nid n"
| "fixed_input n M (In_tick now) \<longleftrightarrow> True"
| "fixed_input n M (In_timer now k) \<longleftrightarrow> True"
| "fixed_input n M (In_propose payload) \<longleftrightarrow> True"
| "fixed_input n M (In_batch payload) \<longleftrightarrow> True"
| "fixed_input n M In_read \<longleftrightarrow> True"
| "fixed_input n M (In_rearm now) \<longleftrightarrow> True"
| "fixed_input n M _ \<longleftrightarrow> False"

lemma sim_node_step:
  assumes "fixed_input n M a" "\<forall>m \<in> M. m_from m \<noteq> m_to m" "last_index n < u64_max"
  shows "sim vs M n (node_step a n)"
proof (cases a)
  case (In_message m now)
  with assms show ?thesis using sim_on_message[of m M n] by fastforce
next
  case (In_propose payload)
  then show ?thesis using sim_propose_with_kind[OF assms(3), of App] by (simp add: propose_def is_config_def)
next
  case (In_batch payload)
  then show ?thesis
    using sim_propose_with_kind[OF assms(3), of AppV3] sim_refl
    by (auto simp: propose_v3_batch_def is_config_def ok_effects_def)
qed (use assms(1,3) sim_tick sim_on_timer sim_request_read sim_rearm in simp_all)

end
