(* ===== verification/RaftFixed.thy ===== *)
theory RaftFixed
  imports RaftSim
begin

text \<open>
  What one input of a node in a fixed cluster leaves behind besides its new state: messages, which go
  to other voters only, and persistence effects, whose replay on the old log gives the new one.
\<close>

section \<open>Whom a node sends to\<close>

text \<open>Messages go to other voters: no node sends to itself or outside the cluster.\<close>

definition away :: "nat bset \<Rightarrow> nat \<Rightarrow> raft_effect list \<Rightarrow> bool" where
  "away vs i es \<longleftrightarrow> (\<forall>m \<in> sent es. m_from m = i \<and> m_to m \<in> set vs \<and> m_to m \<noteq> i)"

lemma away_simps [simp]:
  "away vs i []" "away vs i (es @ fs) \<longleftrightarrow> away vs i es \<and> away vs i fs"
  "away vs i (Send m # es) \<longleftrightarrow> m_from m = i \<and> m_to m \<in> set vs \<and> m_to m \<noteq> i \<and> away vs i es"
  "\<not> is_send e \<Longrightarrow> away vs i (e # es) \<longleftrightarrow> away vs i es"
  by (auto simp: away_def)

lemma away_quiet: "sent es = {} \<Longrightarrow> away vs i es"
  by (simp add: away_def)

lemmas plain_frame [simp] = setup_frame[THEN plain_cong] setup_assume[THEN plain_cong]

lemma plain_fields [simp]:
  "plain vs (n\<lparr>heartbeat_deadline := d\<rparr>) = plain vs n"
  "plain vs (n\<lparr>read_round := r, read_acks := a, read_index := i\<rparr>) = plain vs n"
  by (simp_all add: plain_def)

lemma away_append [simp]:
  "nid n = i \<Longrightarrow> peer \<in> set vs \<Longrightarrow> peer \<noteq> i \<Longrightarrow> away vs i (send_append n peer)"
  by (simp add: send_append_def Let_def)

lemma away_broadcast:
  assumes "plain vs n" "nid n = i"
  shows "away vs i (broadcast_append n)"
proof -
  have "away vs i (concat (map (send_append n) (filter (\<lambda>peer. peer \<noteq> i) ps)))" if "set ps \<subseteq> set vs" for ps
    using that assms(2) by (induction ps) simp_all
  then show ?thesis using assms by (simp add: broadcast_append_def plain_def)
qed

lemma away_peers:
  assumes "plain vs n" "nid n = i"
  shows "away vs i (peer_messages n t kind)"
proof -
  have "away vs i (map (\<lambda>peer. Send \<lparr>m_proto_version = PROTOCOL_VERSION, m_from = i, m_to = peer, m_term = t,
      m_kind = kind\<rparr>) (filter (\<lambda>peer. peer \<noteq> i) ps))" if "set ps \<subseteq> set vs" for ps
    using that by (induction ps) simp_all
  then show ?thesis using assms by (simp add: peer_messages_def plain_def)
qed

lemma away_response:
  "nid n = i \<Longrightarrow> m_from message \<in> set vs \<Longrightarrow> m_from message \<noteq> i \<Longrightarrow>
     away vs i [make_append_response n message b matched ct ci]"
  by (simp add: away_def sent_make_response)

lemma away_become_leader:
  assumes "plain vs n"
  shows "away vs (nid n) (snd (become_leader n))"
  using away_broadcast[of vs "fst (advance_commit (assume_leadership (next_entry n Noop []) n))" "nid n"] assms
  by (simp add: become_leader_plain[OF assms] Let_def away_quiet)

lemma away_start_election:
  assumes "plain vs n"
  shows "away vs (nid n) (snd (start_election n))"
proof -
  have i: "nid n \<in> set (voters n)" using assms by (simp add: plain_def)
  have p: "plain vs (campaigner n)" using assms by (simp add: campaigner_def plain_update)
  have "nid (campaigner n) = nid n" by simp
  then show ?thesis
    using away_become_leader[OF p] away_peers[OF p]
    by (simp add: start_election_campaigner[OF i] after_effects_def)
qed

lemma away_start_pre_vote:
  assumes "plain vs n"
  shows "away vs (nid n) (snd (start_pre_vote now n))"
proof -
  let ?n = "reset_election now (n\<lparr>role := Candidate, pre_votes := [nid n], votes := []\<rparr>)"
  have i: "nid n \<in> set (voters n)" using assms by (simp add: plain_def)
  have p: "plain vs ?n" using assms by (simp add: plain_update)
  have "nid ?n = nid n" by simp
  then show ?thesis
    using i away_start_election[OF p] away_peers[OF p] by (simp add: start_pre_vote_def Let_def)
qed

lemma away_append_request:
  assumes "m_from message \<in> set vs" "m_from message \<noteq> nid n"
  shows "away vs (nid n) (snd (handle_append_request message request now n))"
proof -
  let ?n = "follow_leader message now n"
  let ?P = "\<lambda>m eff (app :: entry list). nid m = nid n \<and> away vs (nid n) eff"
  let ?Q = "\<lambda>m eff. nid m = nid n \<and> away vs (nid n) eff"
  have resp: "away vs (nid n) [make_append_response m message b matched ct ci]" if "nid m = nid n" for m b matched ct ci
    using away_response[OF that assms] .
  have "loop_post ?P ?Q (append_loop message (aq_entries request) ?n [] [])"
    by (rule append_loop_effects_rule) (use resp in \<open>auto dest: apply_config_frame\<close>)
  moreover have "away vs (nid n) (snd (learn_commit c m))" for c m
    by (rule away_quiet) (simp add: learn_commit_def)
  ultimately show ?thesis
    using resp by (auto simp: handle_append_request_def Let_def loop_post_def case_prod_beta split: sum.splits)
qed

lemma away_append_response:
  assumes "plain vs n" "m_from message \<in> set vs" "m_from message \<noteq> nid n"
  shows "away vs (nid n) (snd (handle_append_response message response now n))"
proof -
  have "away vs (nid n) (snd (append_response_from_peer (m_from message) response m))" if p: "plain vs m" "nid m = nid n" for m
  proof -
    let ?r1 = "advance_commit (record_match (m_from message) response m)"
    let ?r2 = "release_read (note_read_ack (m_from message) response (fst ?r1))"
    have "plain vs (fst ?r2)" using p by simp
    then have t: "transfer_trigger (m_from message) response (fst ?r2) = []" by (simp add: transfer_trigger_def plain_def)
    have "sent (snd ?r2) = {}" by (simp add: release_read_def split: option.splits)
    then show ?thesis
      using p t assms(2,3)
      by (simp add: append_response_from_peer_def Let_def case_prod_beta away_quiet split: option.splits)
  qed
  then show ?thesis
    using assms(1) by (simp add: handle_append_response_def Let_def plain_def)
qed

lemma away_dispatch:
  assumes "plain vs n" "m_from message \<in> set vs" "m_from message \<noteq> nid n"
  shows "away vs (nid n) (snd (dispatch message now n))"
proof (cases "m_kind message")
  case (PreVoteReq i t)
  then show ?thesis using assms by (simp add: dispatch_def pre_vote_response_def Let_def)
next
  case (PreVoteResp granted)
  have "plain vs (n\<lparr>pre_votes := v\<rparr>)" for v using assms(1) by (simp add: plain_update)
  from away_start_election[OF this] show ?thesis
    using PreVoteResp by (simp add: dispatch_def handle_pre_vote_resp_def Let_def)
next
  case (VoteReq i t)
  then show ?thesis using assms by (simp add: dispatch_def vote_request_def Let_def)
next
  case (VoteResp granted)
  have "plain vs (n\<lparr>votes := v\<rparr>)" for v using assms(1) by (simp add: plain_update)
  from away_become_leader[OF this] show ?thesis
    using VoteResp by (simp add: dispatch_def handle_vote_resp_def Let_def)
next
  case (AppendReq request)
  then show ?thesis using away_append_request[OF assms(2,3)] by (simp add: dispatch_def)
next
  case (AppendResp response)
  then show ?thesis using away_append_response[OF assms] by (simp add: dispatch_def)
next
  case (SnapshotChunk c)
  then show ?thesis
    using assms by (simp add: dispatch_def handle_snapshot_chunk_def snapshot_ack_def split: option.splits)
next
  case (TimeoutNow i)
  then show ?thesis using assms by (simp add: dispatch_def timeout_now_valid_def plain_def)
qed (simp_all add: dispatch_def)

lemma away_propose:
  assumes "plain vs n"
  shows "away vs (nid n) (snd (ok_effects (propose_with_kind payload kind n)))"
  using away_broadcast[of vs "fst (advance_commit (push_entry (next_entry n kind payload) n))" "nid n"] assms
  by (simp add: propose_with_kind_def ok_effects_def publish_entry_def case_prod_beta Let_def away_quiet)

lemma away_read:
  assumes "plain vs n"
  shows "away vs (nid n) (snd (ok_effects (request_read n)))"
proof -
  let ?n = "n\<lparr>read_round := sat_add (read_round n) 1, read_acks := [nid n], read_index := Some (commit_index n)\<rparr>"
  have "away vs (nid n) (broadcast_append ?n)" using assms by (intro away_broadcast) simp_all
  then show ?thesis by (simp add: request_read_def ok_effects_def Let_def)
qed

lemma away_tick_timers:
  assumes "plain vs n"
  shows "away vs (nid n) (snd (tick_timers now n))"
proof (cases "check_quorum now n")
  case (Inl r)
  then have "sent (snd r) = {}" by (auto simp: check_quorum_def Let_def split: if_splits)
  then show ?thesis using Inl by (simp add: tick_timers_def away_quiet)
next
  case (Inr n1)
  then have n1: "plain vs n1" "nid n1 = nid n" using assms by (auto simp: check_quorum_def Let_def split: if_splits)
  let ?n = "n1\<lparr>heartbeat_deadline := now + heartbeat (config n1)\<rparr>"
  have "plain vs ?n" "nid ?n = nid n" using n1 by simp_all
  then have "away vs (nid n) (broadcast_append ?n)" "nudge_effects ?n = []"
    by (rule away_broadcast) (rule plain_nudge, fact)
  then show ?thesis
    using Inr n1(2) away_start_pre_vote[OF n1(1)] by (simp add: tick_timers_def Let_def)
qed

lemma away_node_step:
  assumes "plain vs n" "fixed_input n M a" "\<forall>m \<in> M. m_from m \<in> set vs \<and> m_from m \<noteq> m_to m"
  shows "away vs (nid n) (snd (node_step a n))"
proof (cases a)
  case (In_message m now)
  then have m: "m_from m \<in> set vs" "m_from m \<noteq> nid n" using assms(2,3) by auto
  have "plain vs (fst (observe_term m n))" using assms(1) by simp
  from away_dispatch[OF this] m have "away vs (nid n) (snd (dispatch m now (fst (observe_term m n))))" by simp
  moreover have "sent (snd (observe_term m n)) = {}" by (simp add: observe_term_def Let_def)
  ultimately show ?thesis using In_message by (simp add: on_message_at_def extend_with_def case_prod_beta away_quiet)
next
  case (In_tick now)
  then show ?thesis
    using away_tick_timers[OF assms(1)] assms(1)
    by (simp add: tick_def resync_transfer_finishing_def transfer_expired_def plain_def)
next
  case (In_timer now k)
  then show ?thesis
    using away_start_pre_vote[OF assms(1)] away_broadcast[OF assms(1) refl] plain_nudge[OF assms(1)]
    by (cases k) (simp_all add: on_timer_def)
next
  case (In_propose payload)
  then show ?thesis using away_propose[OF assms(1)] by (simp add: propose_def)
next
  case (In_batch payload)
  have "away vs (nid n) (snd (ok_effects (n, Inl Busy)))" by (simp add: ok_effects_def)
  then show ?thesis using In_batch away_propose[OF assms(1)] by (simp add: propose_v3_batch_def)
next
  case In_read
  then show ?thesis using away_read[OF assms(1)] by simp
qed (use assms(2) in simp_all)

section \<open>What a node persists\<close>

lemma log_after_quiet [simp]:
  "log_after l (send_append n peer) = l" "log_after l (snd (apply_committed n)) = l"
  "log_after l (snd (advance_commit n)) = l" "log_after l (snd (learn_commit c n)) = l"
  "log_after l (snd (release_read n)) = l" "log_after l (make_append_response n message b i ct ci # es) = log_after l es"
  "log_after l (snd (observe_term message n)) = l"
  by (simp_all add: send_append_def Let_def apply_committed_def advance_commit_def learn_commit_def release_read_def
      make_append_response_def observe_term_def case_prod_beta split: option.splits)

lemma log_after_broadcast [simp]: "log_after l (broadcast_append n) = l"
proof -
  have "log_after l (concat (map (send_append n) ps)) = l" for ps by (induction ps) simp_all
  then show ?thesis by (simp add: broadcast_append_def)
qed

lemma log_after_peers [simp]: "log_after l (peer_messages n t kind) = l"
proof -
  have "log_after l (map (\<lambda>p. Send (f p)) ps) = l" for ps and f :: "nat \<Rightarrow> message" by (induction ps) simp_all
  then show ?thesis by (simp add: peer_messages_def)
qed

lemma persists_become_leader:
  assumes "plain vs n"
  shows "log_after (log n) (snd (become_leader n)) = log (fst (become_leader n))"
  by (simp add: become_leader_plain[OF assms] Let_def)

lemma persists_start_election:
  assumes "plain vs n"
  shows "log_after (log n) (snd (start_election n)) = log (fst (start_election n))"
proof -
  have i: "nid n \<in> set (voters n)" using assms by (simp add: plain_def)
  have p: "plain vs (campaigner n)" using assms by (simp add: campaigner_def plain_update)
  have "log (campaigner n) = log n" by simp
  then show ?thesis
    using persists_become_leader[OF p] by (simp add: start_election_campaigner[OF i] after_effects_def)
qed

lemma persists_start_pre_vote:
  assumes "plain vs n"
  shows "log_after (log n) (snd (start_pre_vote now n)) = log (fst (start_pre_vote now n))"
proof -
  let ?n = "reset_election now (n\<lparr>role := Candidate, pre_votes := [nid n], votes := []\<rparr>)"
  have i: "nid n \<in> set (voters n)" using assms by (simp add: plain_def)
  have p: "plain vs ?n" using assms by (simp add: plain_update)
  have "log ?n = log n" by simp
  then show ?thesis using i persists_start_election[OF p] by (simp add: start_pre_vote_def Let_def)
qed

lemma persists_append_request:
  assumes s: "start_ok vs M s n" and m: "message \<in> M" "m_kind message = AppendReq request" "m_to message = nid n"
    "m_term message \<le> cur_term n"
  shows "log_after (log n) (snd (handle_append_request message request now n)) = log (fst (handle_append_request message request now n))"
proof (cases "m_term message = cur_term n \<and> term_at n (aq_prev_index request) = Some (aq_prev_term request)")
  case True
  note l = linkedD[OF start_okD(3)[OF s]]
  note a = accepted_request[OF s m(1-3)]
  have t: "m_term message = cur_term n" and match: "term_at n (aq_prev_index request) = Some (aq_prev_term request)"
    using True by simp_all
  obtain n1 t xs where "log n1 = log_after (log n) (t @ persist_all xs)"
    "handle_append_request message request now n =
       (fst (learn_commit (aq_leader_commit request) n1),
        t @ persist_all xs @ snd (learn_commit (aq_leader_commit request) n1) @
        [make_append_response (fst (learn_commit (aq_leader_commit request) n1)) message True (last_index n1) None 0])"
  proof (rule handle_append_merge[OF l(2) a(2,3)[OF t match] _ _ match])
    show "cur_term n \<le> m_term message" using t by simp
    show "snapshot_index n \<le> aq_prev_index request" using l(1) by (simp add: plain_def)
  qed
  then show ?thesis by simp
next
  case False
  then show ?thesis using m(4) by (auto simp: handle_append_request_def Let_def)
qed

lemma persists_append_response:
  assumes "plain vs n"
  shows "log_after (log n) (snd (handle_append_response message response now n)) = log (fst (handle_append_response message response now n))"
proof -
  have "log_after (log n) (snd (append_response_from_peer (m_from message) response m)) =
      log (fst (append_response_from_peer (m_from message) response m))" if p: "plain vs m" "log m = log n" for m
  proof -
    let ?r1 = "advance_commit (record_match (m_from message) response m)"
    let ?r2 = "release_read (note_read_ack (m_from message) response (fst ?r1))"
    have "plain vs (fst ?r2)" using p by simp
    then have t: "transfer_trigger (m_from message) response (fst ?r2) = []" by (simp add: transfer_trigger_def plain_def)
    show ?thesis
      using p t by (simp add: append_response_from_peer_def Let_def case_prod_beta split: option.splits)
  qed
  then show ?thesis
    using assms by (simp add: handle_append_response_def Let_def plain_def)
qed

lemma persists_dispatch:
  assumes s: "start_ok vs M s n" and m: "message \<in> M" "m_to message = nid n"
    "\<not> is_pre_vote (m_kind message) \<Longrightarrow> m_term message \<le> cur_term n"
  shows "log_after (log n) (snd (dispatch message now n)) = log (fst (dispatch message now n))"
proof (cases "m_kind message")
  case (PreVoteResp granted)
  have p: "plain vs (n\<lparr>pre_votes := v\<rparr>)" for v using linkedD(1)[OF start_okD(3)[OF s]] by (simp add: plain_update)
  have "log (n\<lparr>pre_votes := v\<rparr>) = log n" for v by simp
  with persists_start_election[OF p] show ?thesis
    using PreVoteResp by (simp add: dispatch_def handle_pre_vote_resp_def Let_def)
next
  case (VoteResp granted)
  have p: "plain vs (n\<lparr>votes := v\<rparr>)" for v using linkedD(1)[OF start_okD(3)[OF s]] by (simp add: plain_update)
  have "log (n\<lparr>votes := v\<rparr>) = log n" for v by simp
  with persists_become_leader[OF p] show ?thesis
    using VoteResp by (simp add: dispatch_def handle_vote_resp_def Let_def)
next
  case (AppendReq request)
  then show ?thesis using persists_append_request[OF s m(1) _ m(2)] m(3) by (simp add: dispatch_def)
next
  case (AppendResp response)
  then show ?thesis using persists_append_response[OF linkedD(1)[OF start_okD(3)[OF s]]] by (simp add: dispatch_def)
next
  case (SnapshotChunk c)
  then show ?thesis
    by (simp add: dispatch_def handle_snapshot_chunk_def snapshot_ack_def split: option.splits)
next
  case (TimeoutNow i)
  then show ?thesis
    using linkedD(1)[OF start_okD(3)[OF s]] by (simp add: dispatch_def timeout_now_valid_def plain_def)
qed (simp_all add: dispatch_def pre_vote_response_def vote_request_def Let_def)

lemma persists_tick_timers:
  assumes "plain vs n"
  shows "log_after (log n) (snd (tick_timers now n)) = log (fst (tick_timers now n))"
proof (cases "check_quorum now n")
  case (Inl r)
  then have "snd r = [Trace ''checkquorum_stepdown'' (last_index (fst r))]" "log (fst r) = log n"
    by (auto simp: check_quorum_def Let_def split: if_splits)
  then show ?thesis using Inl by (simp add: tick_timers_def)
next
  case (Inr n1)
  then have n1: "plain vs n1" "log n1 = log n" using assms by (auto simp: check_quorum_def Let_def split: if_splits)
  let ?n = "n1\<lparr>heartbeat_deadline := now + heartbeat (config n1)\<rparr>"
  have "nudge_effects ?n = []" using n1 by (intro plain_nudge) simp
  then show ?thesis
    using Inr n1(2) persists_start_pre_vote[OF n1(1)] by (simp add: tick_timers_def Let_def)
qed

lemma persists_node_step:
  assumes s: "start_ok vs M s n" and a: "fixed_input n M a"
  shows "log_after (log n) (snd (node_step a n)) = log (fst (node_step a n))"
proof -
  have p: "plain vs n" using linkedD(1)[OF start_okD(3)[OF s]] .
  show ?thesis
  proof (cases a)
    case (In_message m now)
    let ?n = "fst (observe_term m n)"
    obtain s' where s': "start_ok vs M s' ?n" using sim_observe[of vs M n m] s unfolding sim_def by blast
    have "log_after (log ?n) (snd (dispatch m now ?n)) = log (fst (dispatch m now ?n))"
      by (rule persists_dispatch[OF s']) (use a In_message in \<open>auto simp: observe_term_def Let_def\<close>)
    then show ?thesis using In_message by (simp add: on_message_at_def extend_with_def case_prod_beta)
  next
    case (In_tick now)
    then show ?thesis
      using persists_tick_timers[OF p] p by (simp add: tick_def resync_transfer_finishing_def transfer_expired_def plain_def)
  next
    case (In_timer now k)
    then show ?thesis
      using persists_start_pre_vote[OF p] plain_nudge[OF p] by (cases k) (simp_all add: on_timer_def)
  next
    case (In_propose payload)
    then show ?thesis
      by (simp add: propose_def propose_with_kind_def ok_effects_def publish_entry_def case_prod_beta Let_def)
  next
    case (In_batch payload)
    then show ?thesis
      by (simp add: propose_v3_batch_def propose_with_kind_def ok_effects_def publish_entry_def case_prod_beta Let_def)
  next
    case In_read
    then show ?thesis by (simp add: request_read_def ok_effects_def Let_def)
  qed (use a in \<open>simp_all add: rearm_election_def\<close>)
qed

end
