(* ===== verification/RaftCluster.thy ===== *)
theory RaftCluster
  imports RaftFixed
begin

text \<open>
  A cluster of nodes with a fixed set of voters: any node takes any input of its public interface
  (messages are drawn from everything ever sent, so the network may delay, reorder, duplicate and
  lose them) and any node may crash between two inputs and be rebuilt from the hard state and the log
  that its persistence effects have left on disk. The safety
  theorems of the protocol are carried over to these nodes by the simulation.
\<close>

section \<open>The cluster\<close>

record cluster =
  cl_node :: "nat \<Rightarrow> node"
  cl_disk :: "nat \<Rightarrow> hard_state \<times> entry list"
  cl_soup :: "message set"
  cl_led :: "(nat \<times> nat) set"
  cl_applied :: "(nat \<times> nat \<times> entry) set"

text \<open>\<open>cl_disk\<close> is what the persistence effects have written; \<open>cl_led\<close> remembers who ever led which term, and \<open>cl_applied\<close> every entry ever handed to a state
  machine, with the node and its term.\<close>

definition led_by :: "node \<Rightarrow> (nat \<times> nat) set" where
  "led_by n = (if role n = Leader then {(cur_term n, nid n)} else {})"

definition applied_by :: "node \<Rightarrow> raft_effect list \<Rightarrow> (nat \<times> nat \<times> entry) set" where
  "applied_by n es = (\<lambda>e. (nid n, cur_term n, e)) ` set (applied_entries es)"

definition cluster_input :: "nat \<Rightarrow> node_input \<Rightarrow> cluster \<Rightarrow> cluster" where
  "cluster_input i a c =
     (let r = node_step a (cl_node c i)
      in \<lparr>cl_node = (cl_node c)(i := fst r),
          cl_disk = (cl_disk c)(i := (hard_after (fst (cl_disk c i)) (snd r), log_after (snd (cl_disk c i)) (snd r))),
          cl_soup = cl_soup c \<union> sent (snd r),
          cl_led = cl_led c \<union> led_by (fst r), cl_applied = cl_applied c \<union> applied_by (fst r) (snd r)\<rparr>)"

definition recover_raft :: "nat \<Rightarrow> nat bset \<Rightarrow> u64w \<Rightarrow> raft_config \<Rightarrow> hard_state \<Rightarrow> entry list \<Rightarrow> nat \<Rightarrow> node" where
  "recover_raft i vs seed cfg h l now = rearm_election now ((RaftNode_new i vs seed cfg)\<lparr>hard_state := h, log := l\<rparr>)"

definition cluster_crash :: "nat bset \<Rightarrow> (nat \<Rightarrow> u64w) \<Rightarrow> raft_config \<Rightarrow> nat \<Rightarrow> nat \<Rightarrow> cluster \<Rightarrow> cluster" where
  "cluster_crash vs seed cfg i now c =
     c\<lparr>cl_node := (cl_node c)(i := recover_raft i vs (seed i) cfg (fst (cl_disk c i)) (snd (cl_disk c i)) now)\<rparr>"

definition cluster_init :: "nat bset \<Rightarrow> (nat \<Rightarrow> u64w) \<Rightarrow> raft_config \<Rightarrow> cluster" where
  "cluster_init vs seed cfg =
     \<lparr>cl_node = (\<lambda>i. RaftNode_new i vs (seed i) cfg), cl_disk = (\<lambda>_. (\<lparr>hs_term = 0, hs_voted_for = None\<rparr>, [])),
      cl_soup = {}, cl_led = {}, cl_applied = {}\<rparr>"

inductive cluster_run :: "nat bset \<Rightarrow> (nat \<Rightarrow> u64w) \<Rightarrow> raft_config \<Rightarrow> cluster \<Rightarrow> bool" for vs seed cfg where
  run_init: "cluster_run vs seed cfg (cluster_init vs seed cfg)"
| run_input: "cluster_run vs seed cfg c \<Longrightarrow> i \<in> set vs \<Longrightarrow> fixed_input (cl_node c i) (cl_soup c) a \<Longrightarrow>
    last_index (cl_node c i) + 2 \<le> u64_max \<Longrightarrow> cluster_run vs seed cfg (cluster_input i a c)"
| run_crash: "cluster_run vs seed cfg c \<Longrightarrow> i \<in> set vs \<Longrightarrow> cluster_run vs seed cfg (cluster_crash vs seed cfg i now c)"

section \<open>The protocol behind a run\<close>

definition behind :: "nat bset \<Rightarrow> protocol \<Rightarrow> cluster \<Rightarrow> bool" where
  "behind vs s c \<longleftrightarrow>
     reachable (majority_of (set vs)) s \<and> leader_logs_plain s \<and> cl_soup c \<subseteq> p_msgs s \<and>
     (\<forall>i \<in> set vs. nid (cl_node c i) = i \<and> linked vs s (cl_node c i)) \<and>
     (\<forall>i \<in> set vs. cl_disk c i = (hard_state (cl_node c i), log (cl_node c i))) \<and>
     (\<forall>m \<in> cl_soup c. m_from m \<in> set vs \<and> m_to m \<in> set vs \<and> m_from m \<noteq> m_to m) \<and>
     (\<forall>i \<in> set vs. led_by (cl_node c i) \<subseteq> cl_led c) \<and> (\<forall>(t, i) \<in> cl_led c. g_lead s t = Some i) \<and>
     (\<forall>(i, t, e) \<in> cl_applied c. \<exists>l. chosen (majority_of (set vs)) s t l \<and> e \<in> set l \<and> indexed 0 l)"

lemma behindD:
  assumes "behind vs s c"
  shows "reachable (majority_of (set vs)) s" "leader_logs_plain s" "cl_soup c \<subseteq> p_msgs s"
    "i \<in> set vs \<Longrightarrow> nid (cl_node c i) = i" "i \<in> set vs \<Longrightarrow> linked vs s (cl_node c i)"
    "m \<in> cl_soup c \<Longrightarrow> m_from m \<in> set vs \<and> m_to m \<in> set vs \<and> m_from m \<noteq> m_to m"
    "(i, t, e) \<in> cl_applied c \<Longrightarrow> \<exists>l. chosen (majority_of (set vs)) s t l \<and> e \<in> set l \<and> indexed 0 l"
    "i \<in> set vs \<Longrightarrow> led_by (cl_node c i) \<subseteq> cl_led c" "(t, i) \<in> cl_led c \<Longrightarrow> g_lead s t = Some i"
    "i \<in> set vs \<Longrightarrow> cl_disk c i = (hard_state (cl_node c i), log (cl_node c i))"
  using assms unfolding behind_def by blast+

definition idle_protocol :: protocol where
  "idle_protocol =
     \<lparr>p_term = \<lambda>_. 0, p_vote = \<lambda>_. None, p_role = \<lambda>_. Follower, p_log = \<lambda>_. [], p_commit = \<lambda>_. 0, p_votes = \<lambda>_. {},
      p_next = \<lambda>_ _. 0, p_match = \<lambda>_ _. 0, p_msgs = {}, g_votes = {}, g_early = {}, g_clog = \<lambda>_ _. None,
      g_lead = \<lambda>_. None, g_log = \<lambda>_. [], g_noop = \<lambda>_. 0, g_acks = {}\<rparr>"

lemma plain_new:
  assumes "i \<in> set vs" "bset_ok vs" "1 \<le> max_entries_per_append cfg"
  shows "plain vs (RaftNode_new i vs seed cfg)"
  unfolding RaftNode_new_def plain_cong[OF setup_frame(1)] using assms by (simp add: plain_def)

lemma linked_new:
  assumes "i \<in> set vs" "bset_ok vs" "1 \<le> max_entries_per_append cfg"
  shows "linked vs idle_protocol (RaftNode_new i vs seed cfg)"
  using plain_new[OF assms] assms(1)
  by (simp add: linked_def idle_protocol_def wf_new) (simp add: RaftNode_new_def)

lemma behind_init:
  assumes "bset_ok vs" "1 \<le> max_entries_per_append cfg"
  shows "behind vs idle_protocol (cluster_init vs seed cfg)"
proof -
  have "protocol_init idle_protocol" by (simp add: protocol_init_def idle_protocol_def)
  then have "reachable (majority_of (set vs)) idle_protocol" by (rule reachable.intros)
  then show ?thesis
    using linked_new[OF _ assms]
    by (simp add: behind_def cluster_init_def) (simp add: idle_protocol_def leader_logs_plain_def RaftNode_new_def led_by_def)
qed

lemma linked_others: "linked vs s n \<Longrightarrow> others i s s' \<Longrightarrow> nid n \<noteq> i \<Longrightarrow> linked vs s' n"
  by (simp add: linked_def others_def)

lemma leads_kept:
  assumes "(proto vs)\<^sup>*\<^sup>* s s'" "reachable (majority_of (set vs)) s" "g_lead s t = Some i"
  shows "g_lead s' t = Some i"
  using assms
proof (induction rule: rtranclp_induct)
  case (step s1 s2)
  have "reachable (majority_of (set vs)) s1" using step.hyps(1) step.prems(1)
    by (induction rule: rtranclp_induct) (auto intro: reachable.intros)
  then have "grows s1 s2"
    using majority_quorums.step_grows[OF step.hyps(2)] majority_quorums.votes_inv_reachable
      majority_quorums.logs_inv_reachable by blast
  then show ?case using growsD(1)[of s1 s2 t] step by simp
qed simp

lemma leader_leads:
  assumes "reachable (majority_of (set vs)) s" "linked vs s n" "role n = Leader"
  shows "g_lead s (cur_term n) = Some (nid n)"
  using votes_invD(8)[OF majority_quorums.votes_inv_reachable[OF assms(1)]] linkedD(5,7)[OF assms(2)] assms(3)
  unfolding roles_led_def by metis

lemma applied_chosen:
  assumes "progress n r" "linked vs s (fst r)" "reachable (majority_of (set vs)) s" "(i, t, e) \<in> applied_by (fst r) (snd r)"
  shows "\<exists>l. chosen (majority_of (set vs)) s t l \<and> e \<in> set l \<and> indexed 0 l"
proof -
  note l = linkedD[OF assms(2)]
  let ?n = "fst r"
  let ?l = "take (commit_index ?n) (log ?n)"
  have sn: "snapshot_index ?n = 0" using l(1) by (simp add: plain_def)
  have wf: "indexed 0 (log ?n)" "applied_index ?n \<le> commit_index ?n" using l(2) sn by (simp_all add: node_wf_def)
  have "chosen (majority_of (set vs)) s (cur_term ?n) ?l"
    using majority_quorums.chosen_node[OF assms(3), of "nid ?n"] l by simp
  moreover have "e \<in> set (applied_log ?n)" "t = cur_term ?n"
    using assms(1,4) by (auto simp: progress_def applied_by_def)
  moreover have "set (applied_log ?n) \<subseteq> set ?l"
    using sn wf(2) set_take_subset_set_take[of "applied_index ?n" "commit_index ?n"] by (simp add: applied_log_def)
  moreover have "indexed 0 ?l" using wf(1) by (simp add: indexed_iff)
  ultimately show ?thesis by blast
qed

lemma behind_input:
  assumes b: "behind vs s c" and i: "i \<in> set vs" and a: "fixed_input (cl_node c i) (cl_soup c) a"
    and room: "last_index (cl_node c i) + 2 \<le> u64_max"
  shows "\<exists>s'. (proto vs)\<^sup>*\<^sup>* s s' \<and> behind vs s' (cluster_input i a c)"
proof -
  note B = behindD[OF b]
  let ?n = "cl_node c i"
  let ?r = "node_step a ?n"
  note l = linkedD[OF B(5)[OF i]]
  have self: "\<forall>m \<in> cl_soup c. m_from m \<noteq> m_to m" "\<forall>m \<in> cl_soup c. m_from m \<in> set vs \<and> m_from m \<noteq> m_to m"
    using B(6) by blast+
  have st: "start_ok vs (cl_soup c) s ?n" using B i by (simp add: start_ok_def)
  with sim_node_step[OF a self(1), of vs] room obtain s' where s': "(proto vs)\<^sup>*\<^sup>* s s'"
      "start_ok vs (cl_soup c) s' (fst ?r)" "others i s s'" "nid (fst ?r) = i" "sent (snd ?r) \<subseteq> p_msgs s'"
    unfolding sim_def using B(4)[OF i] by fastforce
  note S = start_okD[OF s'(2)]
  have links: "nid (cl_node (cluster_input i a c) j) = j \<and> linked vs s' (cl_node (cluster_input i a c) j)"
    if "j \<in> set vs" for j
    using S(3) s'(4) B(4,5)[OF that] linked_others[OF _ s'(3)] by (simp add: cluster_input_def Let_def)
  have "away vs (nid ?n) (snd ?r)" by (rule away_node_step[OF l(1) a self(2)])
  then have away: "\<forall>m \<in> cl_soup (cluster_input i a c). m_from m \<in> set vs \<and> m_to m \<in> set vs \<and> m_from m \<noteq> m_to m"
    using B(4)[OF i] B(6) i by (auto simp: cluster_input_def Let_def away_def)
  have lead: "g_lead s' t = Some j" if "(t, j) \<in> cl_led (cluster_input i a c)" for t j
    using that leads_kept[OF s'(1) B(1) B(9)] leader_leads[OF S(1,3)] s'(4)
    by (auto simp: cluster_input_def Let_def led_by_def split: if_splits)
  have led: "led_by (cl_node (cluster_input i a c) j) \<subseteq> cl_led (cluster_input i a c)" if "j \<in> set vs" for j
    using B(8)[OF that] by (auto simp: cluster_input_def Let_def)
  have "\<not> retiring_ack ?n a" "\<not> is_install a"
    using a l(1) by (cases a; simp add: plain_def)+
  then have "progress ?n ?r" using progress_step[OF l(2) room] by blast
  then have app: "\<exists>l. chosen (majority_of (set vs)) s' t l \<and> e \<in> set l \<and> indexed 0 l"
    if "(j, t, e) \<in> cl_applied (cluster_input i a c)" for j t e
    using that applied_chosen[OF _ S(3,1), of ?n j t e] B(7)[of j t e] majority_quorums.chosen_steps[OF s'(1) B(1)]
    by (auto simp: cluster_input_def Let_def)
  have "log_after (log ?n) (snd ?r) = log (fst ?r)" by (rule persists_node_step[OF st a])
  then have disk: "cl_disk (cluster_input i a c) j =
      (hard_state (cl_node (cluster_input i a c) j), log (cl_node (cluster_input i a c) j))" if "j \<in> set vs" for j
    using B(10)[OF that] B(10)[OF i] durable_step[of ?n a] by (simp add: cluster_input_def Let_def hard_durable_def)
  have soup: "cl_soup (cluster_input i a c) \<subseteq> p_msgs s'"
    using s'(5) S(4) by (simp add: cluster_input_def Let_def)
  have "behind vs s' (cluster_input i a c)"
    unfolding behind_def using S(1,2) links away soup app lead led disk by blast
  then show ?thesis using s'(1) by blast
qed

lemma behind_crash:
  assumes b: "behind vs s c" and i: "i \<in> set vs" and cfg: "1 \<le> max_entries_per_append cfg"
  shows "\<exists>s'. (proto vs)\<^sup>*\<^sup>* s s' \<and> behind vs s' (cluster_crash vs seed cfg i now c)"
proof -
  note B = behindD[OF b]
  let ?n = "cl_node c i"
  let ?r = "recover_raft i vs (seed i) cfg (hard_state ?n) (log ?n) now"
  have disk: "cl_disk c i = (hard_state ?n, log ?n)" by (rule B(10)[OF i])
  let ?s = "s\<lparr>p_role := (p_role s)(i := Follower), p_votes := (p_votes s)(i := {}), p_commit := (p_commit s)(i := 0)\<rparr>"
  note l = linkedD[OF B(5)[OF i]]
  have step: "proto vs s ?s" by (rule protocol_step.restart) simp
  have r: "reachable (majority_of (set vs)) ?s" using B(1) step by (rule reachable.intros)
  have f: "nid ?r = i" "hard_state ?r = hard_state ?n" "log ?r = log ?n" "role ?r = Follower" "commit_index ?r = 0"
      "applied_index ?r = 0" "snapshot_index ?r = 0" "votes ?r = []"
    using i by (simp_all add: recover_raft_def rearm_election_def RaftNode_new_def)
  have sn: "snapshot_index ?n = 0" "bset_ok vs" using l(1) by (simp_all add: plain_def)
  then have "node_wf ?r" using l(2) f by (simp add: node_wf_def)
  moreover have "setup_of ?r = setup_of ((RaftNode_new i vs (seed i) cfg)\<lparr>hard_state := hard_state ?n, log := log ?n\<rparr>)"
    by (simp add: recover_raft_def rearm_election_def)
  then have "setup_of ?r = setup_of (RaftNode_new i vs (seed i) cfg)" by (simp add: setup_of_def)
  then have "plain vs ?r"
    using plain_cong plain_new[OF i sn(2) cfg] by blast
  ultimately have "linked vs ?s ?r"
    unfolding linked_def using l B(4)[OF i] f by simp
  moreover have "linked vs ?s (cl_node c j)" if "j \<in> set vs" "j \<noteq> i" for j
    using linked_others[OF B(5)[OF that(1)], of i ?s] B(4)[OF that(1)] that(2) by (simp add: others_def)
  moreover have "leader_logs_plain ?s" by (rule leader_logs_plain_cong[OF B(2)]) simp_all
  moreover have "\<exists>l. chosen (majority_of (set vs)) ?s t l \<and> e \<in> set l \<and> indexed 0 l" if "(j, t, e) \<in> cl_applied c" for j t e
    using B(7)[OF that] majority_quorums.chosen_steps[OF r_into_rtranclp[of "proto vs", OF step] B(1)] by blast
  moreover have "cl_disk c j = (hard_state (cl_node (cluster_crash vs seed cfg i now c) j), log (cl_node (cluster_crash vs seed cfg i now c) j))"
    if "j \<in> set vs" for j
    using B(10)[OF that] disk f(2,3) by (simp add: cluster_crash_def)
  moreover have "led_by (cl_node (cluster_crash vs seed cfg i now c) j) \<subseteq> cl_led c" if "j \<in> set vs" for j
    using B(8)[OF that] f(4) disk by (auto simp: cluster_crash_def led_by_def)
  moreover have "g_lead ?s t = Some j" if "(t, j) \<in> cl_led c" for t j using B(9)[OF that] by simp
  ultimately have "behind vs ?s (cluster_crash vs seed cfg i now c)"
    unfolding behind_def using B(3,4,6) r f(1) disk by (simp add: cluster_crash_def) blast
  then show ?thesis using step by blast
qed

text \<open>Every run of the cluster is a run of the protocol.\<close>

lemma run_behind:
  assumes "cluster_run vs seed cfg c" "bset_ok vs" "1 \<le> max_entries_per_append cfg"
  shows "\<exists>s. behind vs s c"
  using assms(1)
proof (induction rule: cluster_run.induct)
  case run_init
  show ?case using behind_init[OF assms(2,3)] by blast
next
  case (run_input c i a)
  then show ?case using behind_input by blast
next
  case (run_crash c i now)
  then show ?case using behind_crash[OF _ _ assms(3)] by blast
qed

section \<open>Safety of the cluster\<close>

lemma run_one_leader:
  assumes "cluster_run vs seed cfg c" "bset_ok vs" "1 \<le> max_entries_per_append cfg"
  shows "i \<in> set vs \<Longrightarrow> role (cl_node c i) = Leader \<Longrightarrow> (cur_term (cl_node c i), i) \<in> cl_led c"
    "(t, i) \<in> cl_led c \<Longrightarrow> (t, j) \<in> cl_led c \<Longrightarrow> i = j"
proof -
  obtain s where b: "behind vs s c" using run_behind[OF assms] by blast
  note B = behindD[OF b]
  show "i \<in> set vs \<Longrightarrow> role (cl_node c i) = Leader \<Longrightarrow> (cur_term (cl_node c i), i) \<in> cl_led c"
    using B(4)[of i] B(8)[of i] by (simp add: led_by_def)
  show "(t, i) \<in> cl_led c \<Longrightarrow> (t, j) \<in> cl_led c \<Longrightarrow> i = j" using B(9)[of t i] B(9)[of t j] by simp
qed

lemma run_log_matching:
  assumes "cluster_run vs seed cfg c" "bset_ok vs" "1 \<le> max_entries_per_append cfg" "i \<in> set vs" "j \<in> set vs"
    "k < length (log (cl_node c i))" "k < length (log (cl_node c j))"
    "e_term (log (cl_node c i) ! k) = e_term (log (cl_node c j) ! k)"
  shows "take (k + 1) (log (cl_node c i)) = take (k + 1) (log (cl_node c j))"
proof -
  obtain s where b: "behind vs s c" using run_behind[OF assms(1-3)] by blast
  note B = behindD[OF b]
  show ?thesis
    using majority_quorums.log_matching[OF B(1), of k i j] assms(6-)
      linkedD(8)[OF B(5)[OF assms(4)]] linkedD(8)[OF B(5)[OF assms(5)]] B(4)[OF assms(4)] B(4)[OF assms(5)] by simp
qed

lemma indexed_inj:
  assumes "indexed 0 l" "e \<in> set l" "e' \<in> set l" "e_index e = e_index e'"
  shows "e = e'"
  using assms by (auto simp: indexed_iff in_set_conv_nth)

lemma run_applied_agree:
  assumes "cluster_run vs seed cfg c" "bset_ok vs" "1 \<le> max_entries_per_append cfg"
    "(i, t, e) \<in> cl_applied c" "(j, t', e') \<in> cl_applied c" "e_index e = e_index e'"
  shows "e = e'"
proof -
  obtain s where b: "behind vs s c" using run_behind[OF assms(1-3)] by blast
  note B = behindD[OF b]
  obtain l l' where l: "chosen (majority_of (set vs)) s t l" "e \<in> set l" "indexed 0 l"
    and l': "chosen (majority_of (set vs)) s t' l'" "e' \<in> set l'" "indexed 0 l'"
    using B(7)[OF assms(4)] B(7)[OF assms(5)] by blast
  from majority_quorums.chosen_agree[OF B(1) l(1) l'(1)] show ?thesis
    using indexed_inj[OF l(3)] indexed_inj[OF l'(3)] l(2) l'(2) assms(6) set_mono_prefix by blast
qed

lemma run_leader_complete:
  assumes "cluster_run vs seed cfg c" "bset_ok vs" "1 \<le> max_entries_per_append cfg" "j \<in> set vs"
    "(i, t, e) \<in> cl_applied c" "role (cl_node c j) = Leader" "t \<le> cur_term (cl_node c j)"
  shows "e \<in> set (log (cl_node c j))"
proof -
  obtain s where b: "behind vs s c" using run_behind[OF assms(1-3)] by blast
  note B = behindD[OF b]
  obtain l where l: "chosen (majority_of (set vs)) s t l" "e \<in> set l" using B(7)[OF assms(5)] by blast
  have "prefix l (p_log s j)"
    using majority_quorums.chosen_leader[OF B(1) l(1), of j] assms(6,7) linkedD(5,7)[OF B(5)[OF assms(4)]] B(4)[OF assms(4)]
    by simp
  then show ?thesis using l(2) linkedD(8)[OF B(5)[OF assms(4)]] B(4)[OF assms(4)] set_mono_prefix by fastforce
qed

lemma run_commits_agree:
  assumes "cluster_run vs seed cfg c" "bset_ok vs" "1 \<le> max_entries_per_append cfg" "i \<in> set vs" "j \<in> set vs"
  shows "prefix (committed_log (cl_node c i)) (committed_log (cl_node c j)) \<or>
    prefix (committed_log (cl_node c j)) (committed_log (cl_node c i))"
proof -
  obtain s where b: "behind vs s c" using run_behind[OF assms(1-3)] by blast
  note B = behindD[OF b]
  have "committed_log (cl_node c k) = take (p_commit s k) (p_log s k)" if "k \<in> set vs" for k
    using linkedD(1,8,9)[OF B(5)[OF that]] B(4)[OF that] by (simp add: committed_log_def plain_def)
  then show ?thesis using majority_quorums.committed_prefixes_agree[OF B(1), of i j] assms(4,5) by simp
qed

end
