(* ===== verification/RaftScript.thy ===== *)
theory RaftScript
  imports RaftCluster
begin

text \<open>
  An executable cluster: a script of inputs and deliveries is played on lists of nodes and messages,
  and whatever it returns is a run of the cluster.
\<close>

section \<open>Scripted runs\<close>

text \<open>A script drives an executable copy of the cluster; what it returns is a run.\<close>

datatype script_step = Deliver nat | Input nat node_input

record played =
  pl_nodes :: "(nat, node) bmap"
  pl_soup :: "message list"
  pl_led :: "(nat \<times> nat) list"
  pl_applied :: "(nat \<times> nat \<times> entry) list"

definition play_start :: "nat bset \<Rightarrow> (nat \<Rightarrow> u64w) \<Rightarrow> raft_config \<Rightarrow> played" where
  "play_start vs seed cfg =
     \<lparr>pl_nodes = map (\<lambda>i. (i, RaftNode_new i vs (seed i) cfg)) vs, pl_soup = [], pl_led = [], pl_applied = []\<rparr>"

fun sent_list :: "raft_effect list \<Rightarrow> message list" where
  "sent_list [] = []"
| "sent_list (Send m # es) = m # sent_list es"
| "sent_list (_ # es) = sent_list es"

definition play_input :: "nat \<Rightarrow> node_input \<Rightarrow> played \<Rightarrow> played option" where
  "play_input i a p =
     (case bmap_get (pl_nodes p) i of
        None \<Rightarrow> None
      | Some n \<Rightarrow>
          if fixed_input n (set (pl_soup p)) a \<and> last_index n + 2 \<le> u64_max then
            let (n1, es) = node_step a n
            in Some \<lparr>pl_nodes = bmap_insert i n1 (pl_nodes p), pl_soup = pl_soup p @ sent_list es,
                     pl_led = (if role n1 = Leader then (cur_term n1, nid n1) # pl_led p else pl_led p),
                     pl_applied = pl_applied p @ map (\<lambda>e. (nid n1, cur_term n1, e)) (applied_entries es)\<rparr>
          else None)"

fun play :: "script_step list \<Rightarrow> played \<Rightarrow> played option" where
  "play [] p = Some p"
| "play (Input i a # ss) p = (case play_input i a p of None \<Rightarrow> None | Some p1 \<Rightarrow> play ss p1)"
| "play (Deliver k # ss) p =
     (if k < length (pl_soup p) then
        let m = pl_soup p ! k
        in case play_input (m_to m) (In_message m 0) p of None \<Rightarrow> None | Some p1 \<Rightarrow> play ss p1
      else None)"

definition plays :: "nat bset \<Rightarrow> cluster \<Rightarrow> played \<Rightarrow> bool" where
  "plays vs c p \<longleftrightarrow>
     (\<forall>i. bmap_get (pl_nodes p) i = (if i \<in> set vs then Some (cl_node c i) else None)) \<and>
     cl_soup c = set (pl_soup p) \<and> cl_led c = set (pl_led p) \<and> cl_applied c = set (pl_applied p)"

lemma sent_list_set [simp]: "set (sent_list es) = sent es"
  by (induction es rule: sent_list.induct) (auto simp: sent_def)

lemma play_input_run:
  assumes "play_input i a p = Some p'" "plays vs c p" "cluster_run vs seed cfg c"
  shows "\<exists>c'. plays vs c' p' \<and> cluster_run vs seed cfg c'"
proof -
  obtain n where n: "bmap_get (pl_nodes p) i = Some n" "fixed_input n (set (pl_soup p)) a" "last_index n + 2 \<le> u64_max"
    using assms(1) by (auto simp: play_input_def split: option.splits if_splits)
  have i: "i \<in> set vs" and c: "n = cl_node c i" "cl_soup c = set (pl_soup p)"
    using n(1) assms(2) by (auto simp: plays_def split: if_splits)
  have "cluster_run vs seed cfg (cluster_input i a c)"
    by (rule run_input[OF assms(3) i]) (use n c in simp_all)
  moreover have "plays vs (cluster_input i a c) p'"
    using assms(1,2) n i c
    by (auto simp: plays_def play_input_def cluster_input_def Let_def case_prod_beta applied_by_def led_by_def)
  ultimately show ?thesis by blast
qed

lemma play_run:
  assumes "play ss p = Some p'" "plays vs c p" "cluster_run vs seed cfg c"
  shows "\<exists>c'. plays vs c' p' \<and> cluster_run vs seed cfg c'"
  using assms
proof (induction ss p arbitrary: c rule: play.induct)
  case (2 i a ss p)
  then obtain p1 where "play_input i a p = Some p1" "play ss p1 = Some p'" by (auto split: option.splits)
  then show ?case using 2 play_input_run by blast
next
  case (3 k ss p)
  then obtain p1 where p1: "play_input (m_to (pl_soup p ! k)) (In_message (pl_soup p ! k) 0) p = Some p1"
      "play ss p1 = Some p'" "k < length (pl_soup p)"
    by (auto simp: Let_def split: option.splits if_splits)
  then show ?case using 3(1)[OF p1(3) refl p1(1) p1(2)] play_input_run[OF p1(1) 3(3,4)] by blast
qed auto

lemma play_start_run:
  assumes "play ss (play_start vs seed cfg) = Some p'"
  shows "\<exists>c'. plays vs c' p' \<and> cluster_run vs seed cfg c'"
proof (rule play_run[OF assms _ run_init])
  have "map_of (map (\<lambda>i. (i, f i)) vs) i = (if i \<in> set vs then Some (f i) else None)" for f :: "nat \<Rightarrow> node" and i
    by (induction vs) auto
  then show "plays vs (cluster_init vs seed cfg) (play_start vs seed cfg)"
    by (simp add: plays_def play_start_def cluster_init_def)
qed

end
