(* ===== verification/ModelCheck.thy ===== *)
theory ModelCheck
  imports RaftCluster "HOL-Library.Multiset"
begin

text \<open>
  The bounded model checker of the Raft crate (\<open>cc-raft/src/model.rs\<close>): its states, its transition
  enumeration, its invariant checks and its breadth-first search. A value \<open>None\<close> is a panic.
  Every state the search visits is backed by a run of the cluster, so the search never panics and its
  election, state-machine and log-matching checks never fail.
\<close>

section \<open>Configuration, report and errors\<close>

record model_config =
  mc_max_log :: nat
  mc_max_term :: nat
  mc_max_messages :: nat
  mc_max_depth :: nat
  mc_max_states :: nat

definition ModelConfig_default :: model_config where
  "ModelConfig_default =
     \<lparr>mc_max_log = 4, mc_max_term = 3, mc_max_messages = 8, mc_max_depth = 8, mc_max_states = 2000000\<rparr>"

record model_report =
  mr_explored_states :: nat
  mr_explored_transitions :: nat
  mr_max_frontier :: nat
  mr_max_depth :: nat

text \<open>The reasons are the formatted strings of the source, one constructor per format.\<close>

datatype invariant_reason =
    Node_violation nat "string list"
  | Election_safety nat nat nat
  | State_machine_safety nat
  | Log_matching nat
  | Leader_completeness nat

datatype model_error =
    InvalidModelConfig
  | StateLimit nat nat nat
  | InvariantFailed nat invariant_reason

record model_state =
  md_nodes :: "(nat, node) bmap"
  md_soup :: "message list"
  md_leaders :: "(nat, nat) bmap"
  md_committed :: "(nat, entry) bmap"

section \<open>Transitions\<close>

fun route :: "nat \<Rightarrow> raft_effect list \<Rightarrow> message list \<Rightarrow> message list" where
  "route max_messages [] soup = soup"
| "route max_messages (Send m # es) soup =
     route max_messages es (if length soup < max_messages \<and> m \<notin> set soup then soup @ [m] else soup)"
| "route max_messages (_ # es) soup = route max_messages es soup"

definition in_bounds :: "model_config \<Rightarrow> model_state \<Rightarrow> bool" where
  "in_bounds cfg st \<longleftrightarrow>
     length (md_soup st) \<le> mc_max_messages cfg \<and>
     (\<forall>(i, n) \<in> set (md_nodes st). length (log n) \<le> mc_max_log cfg \<and> cur_term n \<le> mc_max_term cfg)"

definition model_now :: nat where "model_now = 1000000"

text \<open>The clone of a state in which node \<open>i\<close> has moved to \<open>fst r\<close> and its effects are routed.\<close>

definition with_node :: "model_config \<Rightarrow> nat \<Rightarrow> node \<times> raft_effect list \<Rightarrow> model_state \<Rightarrow> model_state" where
  "with_node cfg i r st =
     st\<lparr>md_nodes := bmap_insert i (fst r) (md_nodes st),
        md_soup := route (mc_max_messages cfg) (snd r) (md_soup st)\<rparr>"

definition keep :: "model_config \<Rightarrow> model_state \<Rightarrow> model_state list" where
  "keep cfg st = (if in_bounds cfg st then [st] else [])"

definition propose_move :: "model_config \<Rightarrow> model_state \<Rightarrow> nat \<Rightarrow> node \<Rightarrow> model_state list" where
  "propose_move cfg st i n =
     (case propose (enc_u64 (sat_add (last_index n) 1)) n of
        (n1, Inr es) \<Rightarrow> keep cfg (with_node cfg i (n1, es) st)
      | (n1, Inl _) \<Rightarrow> [])"

definition node_moves :: "model_config \<Rightarrow> model_state \<Rightarrow> nat \<times> node \<Rightarrow> model_state list" where
  "node_moves cfg st = (\<lambda>(i, n).
     (if cur_term n \<le> mc_max_term cfg
      then keep cfg (with_node cfg i (on_timer model_now Election n) st) else []) @
     (if role n = Leader
      then keep cfg (with_node cfg i (on_timer model_now Heartbeat n) st) @
           (if length (log n) < mc_max_log cfg then propose_move cfg st i n else [])
      else []))"

definition deliver :: "model_config \<Rightarrow> message \<Rightarrow> model_state \<Rightarrow> model_state option" where
  "deliver cfg m st =
     (case bmap_get (md_nodes st) (m_to m) of
        None \<Rightarrow> None
      | Some n \<Rightarrow> Some (with_node cfg (m_to m) (on_message_at m model_now n) st))"

definition message_moves :: "model_config \<Rightarrow> model_state \<Rightarrow> nat \<Rightarrow> model_state list option" where
  "message_moves cfg st k =
     (let m = md_soup st ! k;
          dropped = st\<lparr>md_soup := take k (md_soup st) @ drop (Suc k) (md_soup st)\<rparr>
      in case deliver cfg m dropped of
           None \<Rightarrow> None
         | Some delivered \<Rightarrow>
             if length (md_soup st) < mc_max_messages cfg
             then case deliver cfg m st of
                    None \<Rightarrow> None
                  | Some duplicated \<Rightarrow> Some (dropped # keep cfg delivered @ keep cfg duplicated)
             else Some (dropped # keep cfg delivered))"

fun all_messages :: "model_config \<Rightarrow> model_state \<Rightarrow> nat list \<Rightarrow> model_state list option" where
  "all_messages cfg st [] = Some []"
| "all_messages cfg st (k # ks) =
     (case message_moves cfg st k of
        None \<Rightarrow> None
      | Some xs \<Rightarrow> (case all_messages cfg st ks of None \<Rightarrow> None | Some ys \<Rightarrow> Some (xs @ ys)))"

definition successors :: "model_config \<Rightarrow> model_state \<Rightarrow> model_state list option" where
  "successors cfg st =
     (case all_messages cfg st [0..<length (md_soup st)] of
        None \<Rightarrow> None
      | Some ys \<Rightarrow> Some (concat (map (node_moves cfg st) (md_nodes st)) @ ys))"

section \<open>Invariant checks\<close>

fun record_committed :: "entry list \<Rightarrow> (nat, entry) bmap \<Rightarrow> invariant_reason + (nat, entry) bmap" where
  "record_committed [] c = Inr c"
| "record_committed (e # es) c =
     (case bmap_get c (e_index e) of
        Some existing \<Rightarrow>
          if existing \<noteq> e then Inl (State_machine_safety (e_index e))
          else record_committed es (bmap_insert (e_index e) e c)
      | None \<Rightarrow> record_committed es (bmap_insert (e_index e) e c))"

definition record_leader :: "node \<Rightarrow> (nat, nat) bmap \<Rightarrow> invariant_reason + (nat, nat) bmap" where
  "record_leader n leaders =
     (if role n = Leader then
        case bmap_get leaders (cur_term n) of
          Some existing \<Rightarrow>
            if existing \<noteq> nid n then Inl (Election_safety (cur_term n) existing (nid n))
            else Inr (bmap_insert (cur_term n) (nid n) leaders)
        | None \<Rightarrow> Inr (bmap_insert (cur_term n) (nid n) leaders)
      else Inr leaders)"

fun check_nodes ::
  "node list \<Rightarrow> (nat, nat) bmap \<Rightarrow> (nat, entry) bmap \<Rightarrow> invariant_reason + (nat, nat) bmap \<times> (nat, entry) bmap" where
  "check_nodes [] leaders com = Inr (leaders, com)"
| "check_nodes (n # ns) leaders com =
     (if node_invariants n \<noteq> [] then Inl (Node_violation (nid n) (node_invariants n))
      else case record_leader n leaders of
             Inl reason \<Rightarrow> Inl reason
           | Inr leaders1 \<Rightarrow>
               (case record_committed (filter (\<lambda>e. e_index e \<le> commit_index n) (log n)) com of
                  Inl reason \<Rightarrow> Inl reason
                | Inr com1 \<Rightarrow> check_nodes ns leaders1 com1))"

text \<open>A slice \<open>[..k]\<close> panics out of range.\<close>

definition slice_to :: "nat \<Rightarrow> 'a list \<Rightarrow> 'a list option" where
  "slice_to k xs = (if k \<le> length xs then Some (take k xs) else None)"

datatype verdict = Pass | Fail invariant_reason | Panic

fun check_all :: "('a \<Rightarrow> verdict) \<Rightarrow> 'a list \<Rightarrow> verdict" where
  "check_all f [] = Pass"
| "check_all f (x # xs) = (case f x of Pass \<Rightarrow> check_all f xs | v \<Rightarrow> v)"

definition match_entry :: "entry list \<Rightarrow> entry list \<Rightarrow> entry \<Rightarrow> verdict" where
  "match_entry left right e =
     (case find (\<lambda>x. e_index x = e_index e \<and> e_term x = e_term e) right of
        None \<Rightarrow> Pass
      | Some x \<Rightarrow>
          (case (slice_to (e_index e) left, slice_to (e_index e) right) of
             (Some l, Some r) \<Rightarrow> if l \<noteq> r \<or> x \<noteq> e then Fail (Log_matching (e_index e)) else Pass
           | _ \<Rightarrow> Panic))"

definition match_logs :: "node \<Rightarrow> node \<Rightarrow> verdict" where
  "match_logs left right = check_all (match_entry (log left) (log right)) (log left)"

fun check_matching :: "node list \<Rightarrow> verdict" where
  "check_matching [] = Pass"
| "check_matching (n # ns) = (case check_all (match_logs n) ns of Pass \<Rightarrow> check_matching ns | v \<Rightarrow> v)"

definition leader_complete_at :: "node \<Rightarrow> entry \<Rightarrow> verdict" where
  "leader_complete_at leader e =
     (if e_index e - 1 < length (log leader) \<and> log leader ! (e_index e - 1) = e then Pass
      else Fail (Leader_completeness (e_index e)))"

definition check_leader :: "(nat, entry) bmap \<Rightarrow> node \<Rightarrow> verdict" where
  "check_leader com leader =
     check_all (leader_complete_at leader) (filter (\<lambda>e. e_term e < cur_term leader) (map snd com))"

definition check_invariants :: "model_state \<Rightarrow> (invariant_reason + model_state) option" where
  "check_invariants st =
     (let nodes = map snd (md_nodes st)
      in case check_nodes nodes (md_leaders st) (md_committed st) of
           Inl reason \<Rightarrow> Some (Inl reason)
         | Inr (leaders, com) \<Rightarrow>
             (case check_matching nodes of
                Panic \<Rightarrow> None
              | Fail reason \<Rightarrow> Some (Inl reason)
              | Pass \<Rightarrow>
                  (case check_all (check_leader com) (filter (\<lambda>n. role n = Leader) nodes) of
                     Panic \<Rightarrow> None
                   | Fail reason \<Rightarrow> Some (Inl reason)
                   | Pass \<Rightarrow> Some (Inr (st\<lparr>md_leaders := leaders, md_committed := com\<rparr>)))))"

section \<open>The search\<close>

text \<open>The fingerprint is the tuple of the fields the source formats; the sorted list of formatted
  messages is their multiset.\<close>

definition node_key where
  "node_key (n :: node) =
     ((nid n, role n, hard_state n, log n, commit_index n, applied_index n),
      (next_index n, match_index n, votes n, pre_votes n, heard_quorum n, read_acks n),
      (leader_id n, joint n, read_round n, read_index n),
      (snapshot_index n, snapshot_term n, election_deadline n, heartbeat_deadline n, rng n))"

definition fingerprint where
  "fingerprint st = (map (node_key \<circ> snd) (md_nodes st), mset (md_soup st), md_leaders st, md_committed st)"

definition model_raft_config :: raft_config where
  "model_raft_config =
     RaftConfig_default\<lparr>election_min := 100000000, election_max := 101000000, heartbeat := 25000000\<rparr>"

definition model_voters :: "nat bset" where "model_voters = [1, 2, 3]"

definition model_initial :: model_state where
  "model_initial =
     \<lparr>md_nodes = map (\<lambda>i. (i, RaftNode_new i model_voters (word_of_nat i) model_raft_config)) model_voters,
      md_soup = [], md_leaders = [], md_committed = []\<rparr>"

text \<open>One pass over the successors of a state: the states seen, the queue and the transition count,
  or the state limit.\<close>

fun expand where
  "expand cfg explored depth [] seen queue transitions = Inr (seen, queue, transitions)"
| "expand cfg explored depth (next # rest) seen queue transitions =
     (let transitions = sat_add transitions 1
      in if fingerprint next \<in> set seen then expand cfg explored depth rest seen queue transitions
         else
           let seen = fingerprint next # seen
           in if mc_max_states cfg < length seen
              then Inl (StateLimit (length seen) explored (mc_max_states cfg))
              else expand cfg explored depth rest seen (queue @ [(next, sat_add depth 1)]) transitions)"

lemma expand_measure:
  assumes "expand cfg explored depth ns seen queue t = Inr (seen', queue', t')"
  shows "2 * (mc_max_states cfg - length seen') + length queue' \<le> 2 * (mc_max_states cfg - length seen) + length queue"
  using assms
  by (induction cfg explored depth ns seen queue t rule: expand.induct) (fastforce simp: Let_def split: if_splits)+

function search where
  "search cfg seen [] explored transitions frontier depth0 =
     Some (Inr \<lparr>mr_explored_states = explored, mr_explored_transitions = transitions,
                mr_max_frontier = frontier, mr_max_depth = depth0\<rparr>)"
| "search cfg seen ((st, depth) # queue) explored transitions frontier depth0 =
     (let explored = sat_add explored 1; depth0 = max depth0 depth
      in case check_invariants st of
           None \<Rightarrow> None
         | Some (Inl reason) \<Rightarrow> Some (Inl (InvariantFailed explored reason))
         | Some (Inr st1) \<Rightarrow>
             if depth = mc_max_depth cfg then search cfg seen queue explored transitions frontier depth0
             else
               case successors cfg st1 of
                 None \<Rightarrow> None
               | Some ns \<Rightarrow>
                   (case expand cfg explored depth ns seen queue transitions of
                      Inl limit \<Rightarrow> Some (Inl limit)
                    | Inr (seen1, queue1, transitions1) \<Rightarrow>
                        search cfg seen1 queue1 explored transitions1 (max frontier (length queue1)) depth0))"
  by pat_completeness auto
termination
  by (relation "measure (\<lambda>(cfg, seen, queue, _). 2 * (mc_max_states cfg - length seen) + length queue)")
    (auto dest!: expand_measure)

definition model_check :: "model_config \<Rightarrow> (model_error + model_report) option" where
  "model_check cfg =
     (if mc_max_log cfg = 0 \<or> mc_max_term cfg = 0 \<or> mc_max_messages cfg = 0 \<or> mc_max_depth cfg = 0 \<or>
         mc_max_states cfg = 0
      then Some (Inl InvalidModelConfig)
      else search cfg [fingerprint model_initial] [(model_initial, 0)] 0 0 1 0)"

section \<open>Bounds of the search\<close>

lemma expand_bounds:
  assumes "expand cfg explored depth ns seen queue t = Inr (seen', queue', t')" "length seen \<le> mc_max_states cfg"
    "explored + length queue \<le> length seen"
    "\<forall>(st, d) \<in> set queue. d \<le> mc_max_depth cfg" "depth < mc_max_depth cfg"
  shows "length seen' \<le> mc_max_states cfg \<and> explored + length queue' \<le> length seen' \<and>
    (\<forall>(st, d) \<in> set queue'. d \<le> mc_max_depth cfg)"
  using assms
proof (induction cfg explored depth ns seen queue t rule: expand.induct)
  case (2 cfg explored depth st rest seen queue t)
  show ?case
  proof (cases "fingerprint st \<in> set seen")
    case True
    then show ?thesis using 2 by (simp add: Let_def)
  next
    case False
    have "sat_add depth 1 \<le> mc_max_depth cfg" using 2(7) by (simp add: sat_add_def)
    then show ?thesis
      using False 2(2)[OF refl _ refl] 2(3-) by (auto simp: Let_def split: if_splits)
  qed
qed simp

lemma search_bounds:
  assumes "search cfg seen queue explored t frontier d0 = Some (Inr r)" "length seen \<le> mc_max_states cfg"
    "explored + length queue \<le> length seen" "\<forall>(st, d) \<in> set queue. d \<le> mc_max_depth cfg"
    "frontier \<le> mc_max_states cfg" "d0 \<le> mc_max_depth cfg"
  shows "mr_explored_states r \<le> mc_max_states cfg \<and> mr_max_frontier r \<le> mc_max_states cfg \<and>
    mr_max_depth r \<le> mc_max_depth cfg"
  using assms
proof (induction cfg seen queue explored t frontier d0 rule: search.induct)
  case (1 cfg seen explored t frontier d0)
  then show ?case by auto
next
  case (2 cfg seen st depth queue explored t frontier d0)
  let ?e = "sat_add explored 1" and ?d = "max d0 depth"
  have e: "?e + length queue \<le> length seen" using 2(5) by (simp add: sat_add_def)
  have d: "depth \<le> mc_max_depth cfg" "\<forall>(st, d) \<in> set queue. d \<le> mc_max_depth cfg" using 2(6) by auto
  obtain st1 where inv: "check_invariants st = Some (Inr st1)"
    using 2(3) by (auto simp: Let_def split: option.splits sum.splits)
  show ?case
  proof (cases "depth = mc_max_depth cfg")
    case True
    then show ?thesis using 2(1)[OF refl refl inv refl True] 2(3-) inv e d by (simp add: Let_def)
  next
    case False
    obtain ns where ns: "successors cfg st1 = Some ns"
      using 2(3) inv False by (auto simp: Let_def split: option.splits)
    obtain seen1 queue1 t1 where ex: "expand cfg ?e depth ns seen queue t = Inr (seen1, queue1, t1)"
      using 2(3) inv False ns by (auto simp: Let_def split: sum.splits)
    note b = expand_bounds[OF ex 2(4) e d(2)]
    have b: "length seen1 \<le> mc_max_states cfg" "?e + length queue1 \<le> length seen1"
        "\<forall>(st, d) \<in> set queue1. d \<le> mc_max_depth cfg"
      using b d(1) False by auto
    show ?thesis
      using 2(2)[OF refl refl inv refl False ns ex refl refl] 2(3,7,8) inv False ns ex b d(1) by (simp add: Let_def)
  qed
qed

lemma model_check_bounds:
  assumes "model_check cfg = Some (Inr r)"
  shows "mr_explored_states r \<le> mc_max_states cfg \<and> mr_max_frontier r \<le> mc_max_states cfg \<and>
    mr_max_depth r \<le> mc_max_depth cfg"
proof -
  have "search cfg [fingerprint model_initial] [(model_initial, 0)] 0 0 1 0 = Some (Inr r)" "0 < mc_max_states cfg"
    using assms by (auto simp: model_check_def split: if_splits)
  from search_bounds[OF this(1)] this(2) show ?thesis by simp
qed

section \<open>States of the search and runs of the cluster\<close>

definition recorded :: "protocol \<Rightarrow> entry \<Rightarrow> bool" where
  "recorded s e \<longleftrightarrow> (\<exists>t l. chosen (majority_of (set model_voters)) s t l \<and> e \<in> set l \<and> indexed 0 l)"

definition backed :: "protocol \<Rightarrow> cluster \<Rightarrow> model_state \<Rightarrow> bool" where
  "backed s c st \<longleftrightarrow>
     behind model_voters s c \<and> md_nodes st = map (\<lambda>i. (i, cl_node c i)) model_voters \<and>
     set (md_soup st) \<subseteq> cl_soup c \<and>
     (\<forall>t i. bmap_get (md_leaders st) t = Some i \<longrightarrow> g_lead s t = Some i) \<and>
     (\<forall>k e. bmap_get (md_committed st) k = Some e \<longrightarrow> e_index e = k \<and> recorded s e)"

definition model_ok :: "model_config \<Rightarrow> model_state \<Rightarrow> bool" where
  "model_ok cfg st \<longleftrightarrow>
     (\<exists>s c. backed s c st) \<and> (\<forall>(i, n) \<in> set (md_nodes st). length (log n) \<le> mc_max_log cfg)"

lemma backedD:
  assumes "backed s c st"
  shows "behind model_voters s c" "md_nodes st = map (\<lambda>i. (i, cl_node c i)) model_voters"
    "set (md_soup st) \<subseteq> cl_soup c" "bmap_get (md_leaders st) t = Some i \<Longrightarrow> g_lead s t = Some i"
    "bmap_get (md_committed st) k = Some e \<Longrightarrow> e_index e = k" "bmap_get (md_committed st) k = Some e \<Longrightarrow> recorded s e"
  using assms unfolding backed_def by blast+

lemma model_initial_ok: "model_ok cfg model_initial"
proof -
  let ?c = "cluster_init model_voters word_of_nat model_raft_config"
  have "behind model_voters idle_protocol ?c"
    by (rule behind_init) (simp_all add: model_voters_def bset_ok_def model_raft_config_def RaftConfig_default_def MAX_ENTRIES_PER_APPEND_def)
  then have "backed idle_protocol ?c model_initial"
    by (simp add: backed_def model_initial_def cluster_init_def)
  moreover have "length (log (RaftNode_new i vs seed rc)) = 0" for i vs seed rc by (simp add: RaftNode_new_def)
  ultimately show ?thesis by (auto simp: model_ok_def model_initial_def)
qed

lemma route_sent: "set (route k es soup) \<subseteq> set soup \<union> sent es"
  by (induction k es soup rule: route.induct) (auto simp: sent_def split: if_splits)

lemma insert_voter:
  "i \<in> set model_voters \<Longrightarrow>
   bmap_insert i x (map (\<lambda>j. (j, f j)) model_voters) = map (\<lambda>j. (j, (f(i := x)) j)) model_voters"
  by (auto simp: model_voters_def)

lemma get_voter: "bmap_get (map (\<lambda>j. (j, f j)) model_voters) i = (if i \<in> set model_voters then Some (f i) else None)"
  by (auto simp: model_voters_def)

text \<open>One input of one node, with any part of the soup kept.\<close>

lemma backed_move:
  assumes b: "backed s c st" and i: "i \<in> set model_voters" and a: "fixed_input (cl_node c i) (cl_soup c) a"
    and room: "last_index (cl_node c i) + 2 \<le> u64_max" and soup: "set soup \<subseteq> cl_soup c"
  shows "\<exists>s'. backed s' (cluster_input i a c) (with_node cfg i (node_step a (cl_node c i)) (st\<lparr>md_soup := soup\<rparr>))"
proof -
  note B = backedD[OF b]
  obtain s' where s': "(proto model_voters)\<^sup>*\<^sup>* s s'" "behind model_voters s' (cluster_input i a c)"
    using behind_input[OF B(1) i a room] by blast
  have r: "reachable (majority_of (set model_voters)) s" using behindD(1)[OF B(1)] .
  have "recorded s' e" if "recorded s e" for e
    using that majority_quorums.chosen_steps[OF s'(1) r] unfolding recorded_def by blast
  moreover have "g_lead s' t = Some j" if "g_lead s t = Some j" for t j using leads_kept[OF s'(1) r that] .
  ultimately have "backed s' (cluster_input i a c) (with_node cfg i (node_step a (cl_node c i)) (st\<lparr>md_soup := soup\<rparr>))"
    unfolding backed_def using s'(2) B(2,4,5,6) soup route_sent[of "mc_max_messages cfg" "snd (node_step a (cl_node c i))" soup]
    by (auto simp: with_node_def insert_voter[OF i] cluster_input_def Let_def)
  then show ?thesis by blast
qed

lemma backed_room:
  assumes "backed s c st" "\<forall>(i, n) \<in> set (md_nodes st). length (log n) \<le> mc_max_log cfg"
    "mc_max_log cfg + 2 \<le> u64_max" "i \<in> set model_voters"
  shows "last_index (cl_node c i) + 2 \<le> u64_max"
proof -
  note B = backedD[OF assms(1)]
  note l = linkedD[OF behindD(5)[OF B(1) assms(4)]]
  have "length (log (cl_node c i)) \<le> mc_max_log cfg" using assms(2,4) B(2) by auto
  then show ?thesis using plain_last[OF l(1,2)] assms(3) by simp
qed

lemma move_ok:
  assumes "model_ok cfg st" "mc_max_log cfg + 2 \<le> u64_max" "bmap_get (md_nodes st) i = Some n"
    "\<And>M. set (md_soup st) \<subseteq> M \<Longrightarrow> nid n = i \<Longrightarrow> fixed_input n M a" "set soup \<subseteq> set (md_soup st)"
    "st' \<in> set (keep cfg (with_node cfg i (node_step a n) (st\<lparr>md_soup := soup\<rparr>)))"
  shows "model_ok cfg st'"
proof -
  obtain s c where b: "backed s c st" and len: "\<forall>(i, n) \<in> set (md_nodes st). length (log n) \<le> mc_max_log cfg"
    using assms(1) by (auto simp: model_ok_def)
  note B = backedD[OF b]
  have i: "i \<in> set model_voters" and n: "n = cl_node c i" using assms(3) B(2) by (auto simp: get_voter split: if_splits)
  have "\<exists>s'. backed s' (cluster_input i a c) (with_node cfg i (node_step a (cl_node c i)) (st\<lparr>md_soup := soup\<rparr>))"
  proof (rule backed_move[OF b i _ backed_room[OF b len assms(2) i]])
    show "fixed_input (cl_node c i) (cl_soup c) a" using assms(4) B(3) behindD(4)[OF B(1) i] n by blast
    show "set soup \<subseteq> cl_soup c" using assms(5) B(3) by blast
  qed
  then show ?thesis
    using assms(6) n by (auto simp: keep_def in_bounds_def model_ok_def split: if_splits)
qed

lemma node_moves_ok:
  assumes "model_ok cfg st" "mc_max_log cfg + 2 \<le> u64_max" "(i, n) \<in> set (md_nodes st)" "st' \<in> set (node_moves cfg st (i, n))"
  shows "model_ok cfg st'"
proof -
  obtain s c where "backed s c st" using assms(1) by (auto simp: model_ok_def)
  then have get: "bmap_get (md_nodes st) i = Some n" using assms(3) backedD(2) by (fastforce simp: get_voter)
  have upd: "st\<lparr>md_soup := md_soup st\<rparr> = st" by simp
  have step: "model_ok cfg st'" if "\<And>M. fixed_input n M a" "st' \<in> set (keep cfg (with_node cfg i (node_step a n) st))" for a
    using move_ok[OF assms(1,2) get, of a "md_soup st" st'] that upd by simp
  let ?p = "propose (enc_u64 (sat_add (last_index n) 1)) n"
  have p: "propose_move cfg st i n = [] \<or> propose_move cfg st i n = keep cfg (with_node cfg i (ok_effects ?p) st)"
    by (cases ?p; cases "snd ?p") (simp_all add: propose_move_def ok_effects_def)
  have "st' \<in> set (keep cfg (with_node cfg i (node_step (In_timer model_now Election) n) st)) \<or>
    st' \<in> set (keep cfg (with_node cfg i (node_step (In_timer model_now Heartbeat) n) st)) \<or>
    st' \<in> set (keep cfg (with_node cfg i (node_step (In_propose (enc_u64 (sat_add (last_index n) 1))) n) st))"
    using assms(4) p by (auto simp: node_moves_def split: if_splits)
  then show ?thesis
    using step[of "In_timer model_now Election"] step[of "In_timer model_now Heartbeat"]
      step[of "In_propose (enc_u64 (sat_add (last_index n) 1))"] by auto
qed

lemma dropped_ok:
  assumes "model_ok cfg st" "set soup \<subseteq> set (md_soup st)"
  shows "model_ok cfg (st\<lparr>md_soup := soup\<rparr>)"
proof -
  obtain s c where "backed s c st" and len: "\<forall>(i, n) \<in> set (md_nodes st). length (log n) \<le> mc_max_log cfg"
    using assms(1) by (auto simp: model_ok_def)
  then have "backed s c (st\<lparr>md_soup := soup\<rparr>)" using assms(2) by (auto simp: backed_def)
  moreover have "\<forall>(i, n) \<in> set (md_nodes (st\<lparr>md_soup := soup\<rparr>)). length (log n) \<le> mc_max_log cfg" using len by simp
  ultimately show ?thesis unfolding model_ok_def by blast
qed

lemma message_moves_ok:
  assumes ok: "model_ok cfg st" "mc_max_log cfg + 2 \<le> u64_max" and k: "k < length (md_soup st)"
  shows "\<exists>ys. message_moves cfg st k = Some ys \<and> (\<forall>st' \<in> set ys. model_ok cfg st')"
proof -
  let ?m = "md_soup st ! k" and ?soup = "take k (md_soup st) @ drop (Suc k) (md_soup st)"
  obtain s c where b: "backed s c st" using ok(1) by (auto simp: model_ok_def)
  note B = backedD[OF b]
  have m: "?m \<in> set (md_soup st)" using k by simp
  have sub: "set ?soup \<subseteq> set (md_soup st)" using set_take_subset[of k "md_soup st"] set_drop_subset[of "Suc k" "md_soup st"] by auto
  have "m_to ?m \<in> set model_voters" using behindD(6)[OF B(1)] m B(3) by blast
  then obtain n where n: "bmap_get (md_nodes st) (m_to ?m) = Some n" using B(2) by (simp add: get_voter)
  have move: "model_ok cfg st'"
    if "set soup \<subseteq> set (md_soup st)" "st' \<in> set (keep cfg (with_node cfg (m_to ?m) (on_message_at ?m model_now n) (st\<lparr>md_soup := soup\<rparr>)))"
    for soup st'
    by (rule move_ok[OF ok n, of "In_message ?m model_now" soup]) (use that m in auto)
  have "model_ok cfg (st\<lparr>md_soup := ?soup\<rparr>)" using dropped_ok[OF ok(1) sub] .
  moreover have "deliver cfg ?m (st\<lparr>md_soup := soup\<rparr>) =
      Some (with_node cfg (m_to ?m) (on_message_at ?m model_now n) (st\<lparr>md_soup := soup\<rparr>))" for soup
    using n by (simp add: deliver_def)
  moreover note this[of "md_soup st"]
  ultimately show ?thesis
    using move[OF sub] move[of "md_soup st"] by (auto simp: message_moves_def Let_def)
qed

lemma successors_ok:
  assumes "model_ok cfg st" "mc_max_log cfg + 2 \<le> u64_max"
  shows "\<exists>ns. successors cfg st = Some ns \<and> (\<forall>st' \<in> set ns. model_ok cfg st')"
proof -
  have "\<exists>ys. all_messages cfg st ks = Some ys \<and> (\<forall>st' \<in> set ys. model_ok cfg st')"
    if "\<forall>k \<in> set ks. k < length (md_soup st)" for ks
    using that
  proof (induction ks)
    case (Cons k ks)
    then show ?case using message_moves_ok[OF assms, of k] by fastforce
  qed simp
  from this[of "[0..<length (md_soup st)]"] obtain ys where
      "all_messages cfg st [0..<length (md_soup st)] = Some ys" "\<forall>st' \<in> set ys. model_ok cfg st'" by auto
  then show ?thesis using node_moves_ok[OF assms] by (fastforce simp: successors_def)
qed

section \<open>The checks pass\<close>

lemma recorded_same:
  assumes "reachable (majority_of (set model_voters)) s" "recorded s e" "recorded s e'" "e_index e = e_index e'"
  shows "e = e'"
proof -
  obtain t l t' l' where l: "chosen (majority_of (set model_voters)) s t l" "e \<in> set l" "indexed 0 l"
    and l': "chosen (majority_of (set model_voters)) s t' l'" "e' \<in> set l'" "indexed 0 l'"
    using assms(2,3) by (auto simp: recorded_def)
  from majority_quorums.chosen_agree[OF assms(1) l(1) l'(1)] show ?thesis
    using indexed_inj[OF l(3)] indexed_inj[OF l'(3)] l(2) l'(2) assms(4) set_mono_prefix by blast
qed

definition leaders_ok :: "protocol \<Rightarrow> (nat, nat) bmap \<Rightarrow> bool" where
  "leaders_ok s m \<longleftrightarrow> (\<forall>t i. bmap_get m t = Some i \<longrightarrow> g_lead s t = Some i)"

definition committed_ok :: "protocol \<Rightarrow> (nat, entry) bmap \<Rightarrow> bool" where
  "committed_ok s m \<longleftrightarrow> (\<forall>k e. bmap_get m k = Some e \<longrightarrow> e_index e = k \<and> recorded s e)"

lemma record_committed_ok:
  assumes "reachable (majority_of (set model_voters)) s" "\<forall>e \<in> set es. recorded s e" "committed_ok s m"
  shows "\<exists>m'. record_committed es m = Inr m' \<and> committed_ok s m'"
  using assms(2,3)
proof (induction es arbitrary: m)
  case (Cons e es)
  have e: "recorded s e" using Cons.prems(1) by simp
  have same: "x = e" if "bmap_get m (e_index e) = Some x" for x
    using recorded_same[OF assms(1) _ e, of x] that Cons.prems(2) by (simp add: committed_ok_def)
  have "committed_ok s (bmap_insert (e_index e) e m)" using Cons.prems(2) e by (simp add: committed_ok_def)
  with Cons.IH[of "bmap_insert (e_index e) e m"] Cons.prems(1) show ?case using same by (auto split: option.splits)
qed simp

lemma node_recorded:
  assumes "reachable (majority_of (set model_voters)) s" "linked model_voters s n"
    "e \<in> set (log n)" "e_index e \<le> commit_index n"
  shows "recorded s e"
proof -
  note l = linkedD[OF assms(2)]
  have idx: "indexed 0 (log n)" using l(1,2) by (simp add: node_wf_def plain_def)
  obtain k where k: "k < length (log n)" "e = log n ! k" using assms(3) by (auto simp: in_set_conv_nth)
  then have "k < commit_index n" using indexed_nth[OF idx k(1)] assms(4) by simp
  then have "e \<in> set (take (commit_index n) (log n))" using k by (auto simp: in_set_conv_nth intro!: exI[of _ k])
  moreover have "indexed 0 (take (commit_index n) (log n))" using idx by (simp add: indexed_iff)
  moreover have "chosen (majority_of (set model_voters)) s (cur_term n) (take (commit_index n) (log n))"
    using majority_quorums.chosen_node[OF assms(1), of "nid n"] l by simp
  ultimately show ?thesis unfolding recorded_def by blast
qed

lemma check_nodes_ok:
  assumes r: "reachable (majority_of (set model_voters)) s" and "\<forall>n \<in> set ns. linked model_voters s n"
    "leaders_ok s leaders" "committed_ok s com"
  shows "\<exists>leaders' com'. check_nodes ns leaders com = Inr (leaders', com') \<and> leaders_ok s leaders' \<and> committed_ok s com'"
  using assms(2-)
proof (induction ns arbitrary: leaders com)
  case (Cons n ns)
  have l: "linked model_voters s n" using Cons.prems(1) by simp
  have inv: "node_invariants n = []" using node_wf_invariants[OF linkedD(2)[OF l]] .
  have lead: "g_lead s (cur_term n) = Some (nid n)" if "role n = Leader" using leader_leads[OF r l that] .
  then have same: "x = nid n" if "role n = Leader" "bmap_get leaders (cur_term n) = Some x" for x
    using that Cons.prems(2) by (simp add: leaders_ok_def)
  let ?m = "if role n = Leader then bmap_insert (cur_term n) (nid n) leaders else leaders"
  have 1: "record_leader n leaders = Inr ?m"
    using same by (simp add: record_leader_def split: option.splits)
  have 3: "leaders_ok s ?m" using Cons.prems(2) lead by (simp add: leaders_ok_def)
  obtain com1 where 2: "record_committed (filter (\<lambda>e. e_index e \<le> commit_index n) (log n)) com = Inr com1" "committed_ok s com1"
    using record_committed_ok[OF r _ Cons.prems(3), of "filter (\<lambda>e. e_index e \<le> commit_index n) (log n)"]
      node_recorded[OF r l] by auto
  show ?case using Cons.IH[OF _ 3 2(2)] Cons.prems(1) inv 1 2(1) by simp
qed simp

lemma check_all_pass: "(\<And>x. x \<in> set xs \<Longrightarrow> f x = Pass) \<Longrightarrow> check_all f xs = Pass"
  by (induction xs) auto

lemma match_logs_pass:
  assumes r: "reachable (majority_of (set model_voters)) s" and l: "linked model_voters s a" "linked model_voters s b"
  shows "match_logs a b = Pass"
  unfolding match_logs_def
proof (rule check_all_pass)
  fix e assume e: "e \<in> set (log a)"
  have idx: "indexed 0 (log a)" "indexed 0 (log b)"
    using linkedD(1,2)[OF l(1)] linkedD(1,2)[OF l(2)] by (simp_all add: node_wf_def plain_def)
  show "match_entry (log a) (log b) e = Pass"
  proof (cases "find (\<lambda>x. e_index x = e_index e \<and> e_term x = e_term e) (log b)")
    case (Some x)
    obtain k where k: "k < length (log a)" "e = log a ! k" using e by (auto simp: in_set_conv_nth)
    obtain j where j: "j < length (log b)" "x = log b ! j" "e_index x = e_index e" "e_term x = e_term e"
      using Some by (auto simp: find_Some_iff)
    have "j = k" using indexed_nth[OF idx(1) k(1)] indexed_nth[OF idx(2) j(1)] j(2,3) k(2) by simp
    have "take (k + 1) (log a) = take (k + 1) (log b)"
      using majority_quorums.log_matching[OF r, of k "nid a" "nid b"] linkedD(8)[OF l(1)] linkedD(8)[OF l(2)] k j \<open>j = k\<close> by simp
    moreover from this have "x = e" using k(2) j(2) \<open>j = k\<close> by (metis less_add_one nth_take)
    moreover have "e_index e = k + 1" using indexed_nth[OF idx(1) k(1)] k(2) by simp
    ultimately show ?thesis using Some k(1) j(1) \<open>j = k\<close> by (simp add: match_entry_def slice_to_def)
  qed (simp add: match_entry_def)
qed

lemma check_matching_pass:
  assumes "reachable (majority_of (set model_voters)) s" "\<forall>n \<in> set ns. linked model_voters s n"
  shows "check_matching ns = Pass"
  using assms(2)
proof (induction ns)
  case (Cons n ns)
  have "check_all (match_logs n) ns = Pass" by (rule check_all_pass) (use match_logs_pass[OF assms(1)] Cons.prems in simp)
  then show ?case using Cons by simp
qed simp

lemma check_all_fails: "check_all f xs = Fail r \<Longrightarrow> \<exists>x \<in> set xs. f x = Fail r"
  by (induction xs) (auto split: verdict.splits)

lemma check_all_panics: "check_all f xs = Panic \<Longrightarrow> \<exists>x \<in> set xs. f x = Panic"
  by (induction xs) (auto split: verdict.splits)

lemma check_leader_verdict:
  "check_leader com n \<noteq> Panic" "check_leader com n = Fail r \<Longrightarrow> \<exists>k. r = Leader_completeness k"
  unfolding check_leader_def
  by (auto dest!: check_all_panics check_all_fails simp: leader_complete_at_def split: if_splits)

text \<open>On a state backed by a run, the only check that can fail is the last one.\<close>

lemma check_invariants_ok:
  assumes "model_ok cfg st"
  shows "(\<exists>st'. check_invariants st = Some (Inr st') \<and> model_ok cfg st') \<or>
    (\<exists>k. check_invariants st = Some (Inl (Leader_completeness k)))"
proof -
  obtain s c where b: "backed s c st" and len: "\<forall>(i, n) \<in> set (md_nodes st). length (log n) \<le> mc_max_log cfg"
    using assms by (auto simp: model_ok_def)
  note B = backedD[OF b]
  let ?ns = "map snd (md_nodes st)"
  have r: "reachable (majority_of (set model_voters)) s" using behindD(1)[OF B(1)] .
  have l: "\<forall>n \<in> set ?ns. linked model_voters s n" using B(2) behindD(5)[OF B(1)] by auto
  obtain leaders com where 1: "check_nodes ?ns (md_leaders st) (md_committed st) = Inr (leaders, com)"
      "leaders_ok s leaders" "committed_ok s com"
    using check_nodes_ok[OF r l, of "md_leaders st" "md_committed st"] B(4,5,6) unfolding leaders_ok_def committed_ok_def
    by blast
  have 2: "check_matching ?ns = Pass" using check_matching_pass[OF r l] .
  have "backed s c (st\<lparr>md_leaders := leaders, md_committed := com\<rparr>)"
    using 1(2,3) B(1,2,3) by (simp add: backed_def leaders_ok_def committed_ok_def)
  moreover have "\<forall>(i, n) \<in> set (md_nodes (st\<lparr>md_leaders := leaders, md_committed := com\<rparr>)). length (log n) \<le> mc_max_log cfg"
    using len by simp
  ultimately have "model_ok cfg (st\<lparr>md_leaders := leaders, md_committed := com\<rparr>)" unfolding model_ok_def by blast
  then show ?thesis
    using 1(1) 2 check_leader_verdict
    by (cases "check_all (check_leader com) (filter (\<lambda>n. role n = Leader) ?ns)")
      (fastforce simp: check_invariants_def Let_def dest: check_all_fails check_all_panics)+
qed

lemma expand_ok:
  assumes "expand cfg explored depth ns seen queue t = Inr (seen', queue', t')"
    "\<forall>st \<in> set ns. P st" "\<forall>(st, d) \<in> set queue. P st"
  shows "\<forall>(st, d) \<in> set queue'. P st"
  using assms
  by (induction cfg explored depth ns seen queue t rule: expand.induct) (auto simp: Let_def split: if_splits)

lemma expand_limit: "expand cfg explored depth ns seen queue t = Inl err \<Longrightarrow> \<exists>a b c. err = StateLimit a b c"
  by (induction cfg explored depth ns seen queue t rule: expand.induct) (auto simp: Let_def split: if_splits)

definition sound_outcome :: "(model_error + model_report) option \<Rightarrow> bool" where
  "sound_outcome r \<longleftrightarrow> r \<noteq> None \<and>
     (\<forall>k reason. r = Some (Inl (InvariantFailed k reason)) \<longrightarrow> (\<exists>i. reason = Leader_completeness i))"

lemma search_safe:
  assumes "mc_max_log cfg + 2 \<le> u64_max" "\<forall>(st, d) \<in> set queue. model_ok cfg st"
  shows "sound_outcome (search cfg seen queue explored t frontier d0)"
  using assms
proof (induction cfg seen queue explored t frontier d0 rule: search.induct)
  case (2 cfg seen st depth queue explored t frontier d0)
  let ?s = "search cfg seen ((st, depth) # queue) explored t frontier d0"
  have st: "model_ok cfg st" and q: "\<forall>(st, d) \<in> set queue. model_ok cfg st" using 2(4) by auto
  from check_invariants_ok[OF st] consider k where "check_invariants st = Some (Inl (Leader_completeness k))"
    | st1 where "check_invariants st = Some (Inr st1)" "model_ok cfg st1" by blast
  then show ?case
  proof cases
    case (1 k)
    then have "?s = Some (Inl (InvariantFailed (sat_add explored 1) (Leader_completeness k)))" by (simp add: Let_def)
    then show ?thesis by (simp only: sound_outcome_def) simp
  next
    case st1: (2 st1)
    show ?thesis
    proof (cases "depth = mc_max_depth cfg")
      case True
      have "?s = search cfg seen queue (sat_add explored 1) t frontier (max d0 depth)" using st1(1) True by (simp add: Let_def)
      then show ?thesis using 2(1)[OF refl refl st1(1) refl True 2(3) q] by (simp only:)
    next
      case False
      obtain ns where ns: "successors cfg st1 = Some ns" "\<forall>st' \<in> set ns. model_ok cfg st'"
        using successors_ok[OF st1(2) 2(3)] by blast
      show ?thesis
      proof (cases "expand cfg (sat_add explored 1) depth ns seen queue t")
        case (Inl err)
        then have "?s = Some (Inl err)" using st1(1) False ns(1) by (simp add: Let_def)
        then show ?thesis using expand_limit[OF Inl] by (auto simp only: sound_outcome_def)
      next
        case (Inr r)
        obtain seen1 queue1 t1 where r: "r = (seen1, queue1, t1)" by (cases r) auto
        have ok: "\<forall>(st, d) \<in> set queue1. model_ok cfg st" using expand_ok[OF Inr[unfolded r] ns(2) q] .
        have "?s = search cfg seen1 queue1 (sat_add explored 1) t1 (max frontier (length queue1)) (max d0 depth)"
          using st1(1) False ns(1) Inr r by (simp add: Let_def)
        then show ?thesis
          using 2(2)[OF refl refl st1(1) refl False ns(1) Inr r[symmetric] refl 2(3) ok] by (simp only:)
      qed
    qed
  qed
qed (simp add: sound_outcome_def)

lemma model_check_safe:
  assumes "mc_max_log cfg + 2 \<le> u64_max"
  shows "sound_outcome (model_check cfg)"
proof -
  have "sound_outcome (search cfg [fingerprint model_initial] [(model_initial, 0)] 0 0 1 0)"
    using model_initial_ok by (intro search_safe[OF assms]) simp
  then show ?thesis
    unfolding model_check_def by (simp add: sound_outcome_def del: search.simps)
qed

end
