(* ===== verification/RaftSample.thy ===== *)
theory RaftSample
  imports RaftScript ModelCheck
begin

text \<open>
  A concrete run of three nodes, evaluated step by step. Node 1 leads term 1 with an entry nobody
  else has; node 2 is elected for term 2 without hearing of it and keeps believing it leads; node 1
  returns for term 3, replicates its log to node 3 and commits. At the end two nodes believe they
  lead, with different terms and different logs.
\<close>

section \<open>Nodes as explicit records\<close>

definition next_rng where
  "next_rng c g = snd (range_u64 g (election_min c) (max (election_max c) (election_min c + 1) + 1))"

definition next_deadline where
  "next_deadline c g now = now + fst (range_u64 g (election_min c) (max (election_max c) (election_min c + 1) + 1))"

lemma reset_form:
  "reset_election now n =
     n\<lparr>rng := next_rng (config n) (rng n), election_deadline := next_deadline (config n) (rng n) now\<rparr>"
  by (simp add: reset_election_def next_rng_def next_deadline_def Let_def case_prod_beta)

definition new_rng where "new_rng i = Xoshiro_stream (word_of_nat i) raft_domain (word_of_nat i)"

lemma new_form:
  "RaftNode_new i [1, 2, 3] (word_of_nat i) c =
     \<lparr>nid = i, role = (if i \<in> {1, 2, 3} then Follower else Learner),
      hard_state = \<lparr>hs_term = 0, hs_voted_for = None\<rparr>,
      voters = [1, 2, 3], learners = [], joint = None, joint_enter_index = None,
      base_voters = [1, 2, 3], base_learners = [], base_joint = None, base_joint_enter_index = None,
      base_addresses = [], addresses = [], active_features = 0, base_active_features = 0,
      log = [], commit_index = 0, applied_index = 0, leader_id = None,
      next_index = [], match_index = [], last_contact = [], retiring_peers = [],
      election_deadline = next_deadline c (new_rng i) 0, heartbeat_deadline = 0, config = c,
      rng = next_rng c (new_rng i), votes = [], pre_votes = [], heard_quorum = [], quorum_deadline = 0,
      read_acks = [], read_round = 0, read_index = None, snapshot_index = 0, snapshot_term = 0,
      next_snapshot_transfer_id = 1, transfer = None\<rparr>"
  by (simp add: RaftNode_new_def reset_form new_rng_def)

lemma model_raft_batch: "max_entries_per_append model_raft_config = 64"
  by (simp add: model_raft_config_def RaftConfig_default_def MAX_ENTRIES_PER_APPEND_def)

lemmas node_eval =
  new_form[unfolded One_nat_def] new_form reset_form Let_def on_timer_def start_pre_vote_def peer_messages_def
  has_majority_def majority_def count_in_def last_index_def last_term_def u64_max_def on_message_at_def
  supports_protocol_version_def PROTOCOL_VERSION_def extend_with_def observe_term_def dispatch_def
  pre_vote_response_def log_is_up_to_date_def handle_pre_vote_resp_def start_election_def vote_request_def
  vote_granted_def handle_vote_resp_def become_leader_def assume_leadership_def next_entry_def push_entry_def
  set_peer_progress_def reset_quorum_def advance_commit_def commit_scan_def commit_quorum_def acked_def
  apply_committed_def apply_scan.simps broadcast_append_def send_append_def term_at_def find_index_def
  append_semantic_version_def requires_semantic_v3_def resume_leave_joint_def finish_inherited_transfer_def
  resync_transfer_finishing_def handle_append_request_def follow_leader_def append_conflict_index_def
  make_append_response_def handle_append_response_def append_response_from_peer_def record_match_def
  release_read_def note_read_ack_def transfer_trigger_def accept_entry_def learn_commit_def is_config_def
  model_raft_batch

section \<open>The run\<close>

definition split_script :: "script_step list" where
  "split_script =
     [Input 1 (In_timer 0 Election), Deliver 0, Deliver 2, Deliver 3, Deliver 5,
      Input 2 (In_timer 0 Election), Deliver 9, Deliver 10, Deliver 12, Deliver 13,
      Deliver 11, Input 1 (In_timer 0 Election), Deliver 18, Deliver 19, Deliver 21, Deliver 22,
      Deliver 24, Deliver 25, Deliver 26, Deliver 27]"

definition noop_entry :: "nat \<Rightarrow> nat \<Rightarrow> entry" where
  "noop_entry t i = \<lparr>e_term = t, e_index = i, e_kind = Noop, e_payload = []\<rparr>"

definition node_view where "node_view (n :: node) = (nid n, role n, cur_term n, log n, commit_index n, applied_index n, snapshot_index n)"

definition played_view where
  "played_view p = (map (\<lambda>(i, n). (i, node_view n)) (pl_nodes p), set (pl_led p), set (pl_applied p))"

lemma split_plays:
  "map_option played_view (play split_script (play_start [1, 2, 3] word_of_nat model_raft_config)) =
     Some ([(1, 1, Leader, 3, [noop_entry 1 1, noop_entry 3 2], 2, 2, 0),
            (2, 2, Leader, 2, [noop_entry 2 1], 0, 0, 0),
            (3, 3, Follower, 3, [noop_entry 1 1, noop_entry 3 2], 0, 0, 0)],
           {(3, 1), (2, 2), (1, 1)}, {(1, 3, noop_entry 1 1), (1, 3, noop_entry 3 2)})"
  by (simp add: split_script_def play_start_def play_input_def node_eval played_view_def node_view_def noop_entry_def)
    (simp add: eval_nat_numeral)

lemma split_run:
  "\<exists>c. cluster_run model_voters word_of_nat model_raft_config c \<and>
     node_view (cl_node c 1) = (1, Leader, 3, [noop_entry 1 1, noop_entry 3 2], 2, 2, 0) \<and>
     node_view (cl_node c 2) = (2, Leader, 2, [noop_entry 2 1], 0, 0, 0) \<and>
     node_view (cl_node c 3) = (3, Follower, 3, [noop_entry 1 1, noop_entry 3 2], 0, 0, 0) \<and>
     cl_led c = {(3, 1), (2, 2), (1, 1)} \<and> cl_applied c = {(1, 3, noop_entry 1 1), (1, 3, noop_entry 3 2)}"
proof -
  obtain p where p: "play split_script (play_start [1, 2, 3] word_of_nat model_raft_config) = Some p"
      "played_view p =
        ([(1, 1, Leader, 3, [noop_entry 1 1, noop_entry 3 2], 2, 2, 0),
          (2, 2, Leader, 2, [noop_entry 2 1], 0, 0, 0),
          (3, 3, Follower, 3, [noop_entry 1 1, noop_entry 3 2], 0, 0, 0)],
         {(3, 1), (2, 2), (1, 1)}, {(1, 3, noop_entry 1 1), (1, 3, noop_entry 3 2)})"
    using split_plays by auto
  obtain c where c: "plays [1, 2, 3] c p" "cluster_run [1, 2, 3] word_of_nat model_raft_config c"
    using play_start_run[OF p(1)] by blast
  obtain n1 n2 n3 where n: "pl_nodes p = [(1, n1), (2, n2), (3, n3)]"
    "node_view n1 = (1, Leader, 3, [noop_entry 1 1, noop_entry 3 2], 2, 2, 0)"
    "node_view n2 = (2, Leader, 2, [noop_entry 2 1], 0, 0, 0)"
    "node_view n3 = (3, Follower, 3, [noop_entry 1 1, noop_entry 3 2], 0, 0, 0)"
    using p(2) by (auto simp: played_view_def map_eq_Cons_conv)
  have get: "bmap_get (pl_nodes p) i = Some (cl_node c i)" if "i \<in> set [1, 2, 3]" for i
    using c(1) that unfolding plays_def by presburger
  have "cl_node c 1 = n1" "cl_node c 2 = n2" "cl_node c 3 = n3"
    using get[of 1] get[of 2] get[of 3] n(1) by simp_all
  moreover have "cl_led c = {(3, 1), (2, 2), (1, 1)}" "cl_applied c = {(1, 3, noop_entry 1 1), (1, 3, noop_entry 3 2)}"
    using c(1) p(2) by (simp_all add: plays_def played_view_def)
  ultimately show ?thesis using c(2) n unfolding model_voters_def by blast
qed

lemma model_setup_ok: "bset_ok model_voters" "1 \<le> max_entries_per_append model_raft_config"
  by (simp_all add: model_voters_def bset_ok_def model_raft_batch)

section \<open>A complete search\<close>

definition tiny_bounds :: model_config where
  "tiny_bounds = \<lparr>mc_max_log = 1, mc_max_term = 1, mc_max_messages = 1, mc_max_depth = 1, mc_max_states = 10\<rparr>"

lemmas model_eval =
  model_initial_def model_voters_def fingerprint_def node_key_def check_invariants_def successors_def
  node_moves_def keep_def with_node_def in_bounds_def node_invariants_def log_windows_def record_leader_def
  match_logs_def check_leader_def

lemma tiny_search:
  "model_check tiny_bounds =
     Some (Inr \<lparr>mr_explored_states = 4, mr_explored_transitions = 3, mr_max_frontier = 3, mr_max_depth = 1\<rparr>)"
  by (simp add: model_check_def tiny_bounds_def model_eval node_eval sat_add_def)

end
