(* ===== verification/Outcome.thy ===== *)
theory Outcome
  imports Codec
begin

text \<open>
  How the storage crates return: a call panics (an \<open>expect\<close>, an arithmetic overflow of a checked
  build), fails with an error value, or returns.  A method on \<open>&mut self\<close> is an \<open>action\<close>: it gives
  back the outcome together with the state it leaves behind, so that a failure after a partial
  update shows what the update already did.
\<close>

datatype ('e, 'a) run = Panicked | Failed 'e | Returned 'a

type_synonym ('s, 'e, 'a) action = "'s \<Rightarrow> ('e, 'a) run \<times> 's"

primrec run_bind :: "('e, 'a) run \<Rightarrow> ('a \<Rightarrow> ('e, 'b) run) \<Rightarrow> ('e, 'b) run" where
  "run_bind Panicked f = Panicked"
| "run_bind (Failed e) f = Failed e"
| "run_bind (Returned x) f = f x"

primrec run_map_err :: "('e \<Rightarrow> 'f) \<Rightarrow> ('e, 'a) run \<Rightarrow> ('f, 'a) run" where
  "run_map_err g Panicked = Panicked"
| "run_map_err g (Failed e) = Failed (g e)"
| "run_map_err g (Returned x) = Returned x"

text \<open>\<open>expect\<close>, and a \<open>Result\<close> that cannot panic.\<close>

primrec expect :: "'a option \<Rightarrow> ('e, 'a) run" where
  "expect None = Panicked"
| "expect (Some x) = Returned x"

primrec run_result :: "'e + 'a \<Rightarrow> ('e, 'a) run" where
  "run_result (Inl e) = Failed e"
| "run_result (Inr x) = Returned x"

text \<open>Statements on \<open>&mut self\<close>: \<open>?\<close> between two of them, and the three ways to end.\<close>

definition act :: "('s, 'e, 'a) action \<Rightarrow> ('a \<Rightarrow> ('s, 'e, 'b) action) \<Rightarrow> ('s, 'e, 'b) action" where
  "act m f s =
     (case m s of
        (Panicked, s') \<Rightarrow> (Panicked, s')
      | (Failed e, s') \<Rightarrow> (Failed e, s')
      | (Returned x, s') \<Rightarrow> f x s')"

definition act_ret :: "'a \<Rightarrow> ('s, 'e, 'a) action" where
  "act_ret x s = (Returned x, s)"

definition act_fail :: "'e \<Rightarrow> ('s, 'e, 'a) action" where
  "act_fail e s = (Failed e, s)"

definition act_run :: "('e, 'a) run \<Rightarrow> ('s, 'e, 'a) action" where
  "act_run r s = (r, s)"

lemma act_ret_run [simp]: "act_ret x s = (Returned x, s)"
  by (simp add: act_ret_def)

lemma act_fail_run [simp]: "act_fail e s = (Failed e, s)"
  by (simp add: act_fail_def)

lemma act_run_run [simp]: "act_run r s = (r, s)"
  by (simp add: act_run_def)

lemma act_Returned: "m s = (Returned x, s') \<Longrightarrow> act m f s = f x s'"
  by (simp add: act_def)

lemma act_Failed: "m s = (Failed e, s') \<Longrightarrow> act m f s = (Failed e, s')"
  by (simp add: act_def)

lemma act_Returned_iff:
  "act m f s = (Returned y, t) \<longleftrightarrow> (\<exists>x s'. m s = (Returned x, s') \<and> f x s' = (Returned y, t))"
  by (auto simp: act_def split: run.splits prod.splits)

lemma act_Failed_iff:
  "act m f s = (Failed e, t) \<longleftrightarrow>
     m s = (Failed e, t) \<or> (\<exists>x s'. m s = (Returned x, s') \<and> f x s' = (Failed e, t))"
  by (auto simp: act_def split: run.splits prod.splits)

lemma act_Panicked_iff:
  "act m f s = (Panicked, t) \<longleftrightarrow>
     m s = (Panicked, t) \<or> (\<exists>x s'. m s = (Returned x, s') \<and> f x s' = (Panicked, t))"
  by (auto simp: act_def split: run.splits prod.splits)

lemma run_bind_Returned_iff:
  "run_bind r f = Returned y \<longleftrightarrow> (\<exists>x. r = Returned x \<and> f x = Returned y)"
  by (cases r) auto

lemma run_map_err_Returned [simp]: "run_map_err g r = Returned x \<longleftrightarrow> r = Returned x"
  by (cases r) auto

lemma expect_Returned [simp]: "expect o1 = Returned x \<longleftrightarrow> o1 = Some x"
  by (cases o1) auto

lemma run_result_Returned [simp]: "run_result r = Returned x \<longleftrightarrow> r = Inr x"
  by (cases r) auto

text \<open>A property of the state that a statement keeps whatever its outcome.\<close>

definition act_keeps :: "('s \<Rightarrow> bool) \<Rightarrow> ('s, 'e, 'a) action \<Rightarrow> bool" where
  "act_keeps P m \<longleftrightarrow> (\<forall>s. P s \<longrightarrow> P (snd (m s)))"

lemma act_keepsD: "act_keeps P m \<Longrightarrow> P s \<Longrightarrow> m s = (r, s') \<Longrightarrow> P s'"
  by (metis act_keeps_def snd_conv)

lemma act_keepsI: "(\<And>s r s'. P s \<Longrightarrow> m s = (r, s') \<Longrightarrow> P s') \<Longrightarrow> act_keeps P m"
  by (simp add: act_keeps_def prod_eq_iff)

lemma act_keeps_act [intro]:
  assumes "act_keeps P m" and "\<And>x. act_keeps P (f x)"
  shows "act_keeps P (act m f)"
proof (rule act_keepsI)
  fix s r s'
  assume "P s" and step: "act m f s = (r, s')"
  obtain r1 s1 where m: "m s = (r1, s1)" by fastforce
  then have P1: "P s1" using assms(1) \<open>P s\<close> by (metis act_keepsD)
  show "P s'"
  proof (cases r1)
    case (Returned x)
    then have "f x s1 = (r, s')" using step m by (simp add: act_def)
    then show ?thesis using assms(2) P1 by (metis act_keepsD)
  qed (use step m P1 in \<open>auto simp: act_def\<close>)
qed

lemma act_keeps_ends [intro, simp]:
  "act_keeps P (act_ret x)" "act_keeps P (act_fail e)" "act_keeps P (act_run r)"
  by (simp_all add: act_keeps_def)

end
