(* ===== verification/Wal.thy ===== *)
theory Wal
  imports Outcome
begin

text \<open>
  The write-ahead log of \<open>crates/cc-wal/src/lib.rs\<close>: the record and segment formats, the log that
  keeps what is written apart from what is durable, and recovery from segment images.

  The lemmas lay a segment out as its header, the encodings of its records and zero filling, and
  show what recovery makes of such an image, whole or torn; the reachability relation \<open>wal_run\<close>
  carries the layout through every operation.
\<close>

section \<open>Formats\<close>

definition Wal_FORMAT_VERSION :: nat where "Wal_FORMAT_VERSION = 1"
definition WAL_MAGIC :: bytes where "WAL_MAGIC = [0x43, 0x43, 0x57, 0x4c]"
definition DEFAULT_SEGMENT_SIZE :: nat where "DEFAULT_SEGMENT_SIZE = 16 * 1024 * 1024"
definition MAX_RECORD_SIZE :: nat where "MAX_RECORD_SIZE = 2 * 1024 * 1024"
definition RECORD_HEADER_SIZE :: nat where "RECORD_HEADER_SIZE = 9"
definition SEGMENT_HEADER_SIZE :: nat where "SEGMENT_HEADER_SIZE = 14"

datatype record_type = Data | Pad | SegmentSeal

primrec RecordType_byte :: "record_type \<Rightarrow> byte" where
  "RecordType_byte Data = 1"
| "RecordType_byte Pad = 2"
| "RecordType_byte SegmentSeal = 3"

definition RecordType_from_byte :: "byte \<Rightarrow> record_type option" where
  "RecordType_from_byte value =
     (if value = 1 then Some Data else if value = 2 then Some Pad
      else if value = 3 then Some SegmentSeal else None)"

record lsn =
  lsn_segment :: nat
  lsn_offset :: nat

record lsn_range =
  range_first :: lsn
  range_end :: lsn

record log_record =
  rec_lsn :: lsn
  rec_kind :: record_type
  rec_payload :: bytes

record wal_config =
  segment_size :: nat
  max_record_size :: nat

definition WalConfig_default :: wal_config where
  "WalConfig_default =
     \<lparr>segment_size = DEFAULT_SEGMENT_SIZE, max_record_size = MAX_RECORD_SIZE\<rparr>"

record segment_image =
  img_sequence :: nat
  img_bytes :: bytes

datatype wal_error =
    WalInvalidConfig
  | RecordTooLarge nat nat
  | InvalidRecord nat nat string
  | MidLogCorruption nat nat
  | InvalidSegmentSequence nat nat

record segment =
  seg_sequence :: nat
  seg_bytes :: bytes
  seg_written :: nat
  seg_durable :: nat

record wal =
  wal_cfg :: wal_config
  wal_segments :: "segment list"
  wal_records :: "log_record list"
  wal_pending_first :: "lsn option"

definition Segment_new :: "nat \<Rightarrow> segment" where
  "Segment_new sq =
     \<lparr>seg_sequence = sq,
      seg_bytes = WAL_MAGIC @ to_le 2 Wal_FORMAT_VERSION @ to_le 8 sq,
      seg_written = SEGMENT_HEADER_SIZE, seg_durable = SEGMENT_HEADER_SIZE\<rparr>"

text \<open>\<open>u32::try_from(..).expect(..)\<close> on a segment offset.\<close>

definition offset_u32 :: "nat \<Rightarrow> ('e, nat) run" where
  "offset_u32 n = (if n \<le> u32_max then Returned n else Panicked)"

definition encode_record :: "record_type \<Rightarrow> bytes \<Rightarrow> nat \<Rightarrow> (wal_error, bytes) run" where
  "encode_record kind payload max_size =
     (let size = RECORD_HEADER_SIZE + length payload
      in if max_size < size \<or> u32_max < length payload then Failed (RecordTooLarge size max_size)
         else let body = RecordType_byte kind # payload
              in Returned (to_le 4 (length payload) @ to_le 4 (crc32c body) @ body))"

text \<open>
  \<open>parse_record\<close>, called with \<open>offset\<close> inside the slice.  The \<open>checked_add\<close> of the header size to a
  32-bit length cannot overflow.
\<close>

definition parse_record ::
  "bytes \<Rightarrow> nat \<Rightarrow> nat \<Rightarrow> nat \<Rightarrow> (wal_error, (log_record \<times> nat) option) run" where
  "parse_record bs sq offset max_size =
     (let rest = drop offset bs
      in if list_all (\<lambda>byte. byte = 0) rest then Returned None
         else if length bs - offset < RECORD_HEADER_SIZE
         then Failed (InvalidRecord sq offset ''truncated header'')
         else let payload_len = from_le (take 4 rest);
                  total = RECORD_HEADER_SIZE + payload_len
              in if max_size < total \<or> length bs - offset < total
                 then Failed (InvalidRecord sq offset ''length outside segment'')
                 else let expected_crc = from_le (take 4 (drop 4 rest))
                      in case RecordType_from_byte (rest ! 8) of
                           None \<Rightarrow> Failed (InvalidRecord sq offset ''unknown record type'')
                         | Some kind \<Rightarrow>
                             let body = take (total - 8) (drop 8 rest)
                             in if crc32c body \<noteq> expected_crc
                                then Failed (InvalidRecord sq offset ''CRC mismatch'')
                                else run_bind (offset_u32 offset) (\<lambda>off. Returned (Some
                                  (\<lparr>rec_lsn = \<lparr>lsn_segment = sq, lsn_offset = off\<rparr>,
                                    rec_kind = kind, rec_payload = tl body\<rparr>,
                                   offset + total))))"

section \<open>The log\<close>

definition Wal_new :: "wal_config \<Rightarrow> (wal_error, wal) run" where
  "Wal_new config =
     (if segment_size config < SEGMENT_HEADER_SIZE + RECORD_HEADER_SIZE
         \<or> max_record_size config < RECORD_HEADER_SIZE
         \<or> MAX_RECORD_SIZE < max_record_size config
      then Failed WalInvalidConfig
      else Returned \<lparr>wal_cfg = config, wal_segments = [Segment_new 0], wal_records = [],
                     wal_pending_first = None\<rparr>)"

definition segment_images :: "wal \<Rightarrow> segment_image list" where
  "segment_images w =
     map (\<lambda>s. \<lparr>img_sequence = seg_sequence s, img_bytes = seg_bytes s\<rparr>) (wal_segments w)"

definition durable_images :: "wal \<Rightarrow> segment_image list" where
  "durable_images w =
     map (\<lambda>s. \<lparr>img_sequence = seg_sequence s, img_bytes = take (seg_durable s) (seg_bytes s)\<rparr>)
       (wal_segments w)"

definition Wal_active :: "wal \<Rightarrow> (wal_error, segment) run" where
  "Wal_active w = (if wal_segments w = [] then Panicked else Returned (last (wal_segments w)))"

definition Wal_active_mut :: "(segment \<Rightarrow> segment) \<Rightarrow> wal \<Rightarrow> wal" where
  "Wal_active_mut f w =
     w\<lparr>wal_segments := butlast (wal_segments w) @ [f (last (wal_segments w))]\<rparr>"

text \<open>The bytes a writer adds to the active segment, visible at once.\<close>

definition Segment_extend :: "bytes \<Rightarrow> segment \<Rightarrow> segment" where
  "Segment_extend bs s =
     s\<lparr>seg_bytes := seg_bytes s @ bs, seg_written := length (seg_bytes s @ bs)\<rparr>"

definition pad_active :: "nat \<Rightarrow> (wal, wal_error, unit) action" where
  "pad_active available w =
     (if available = 0 then (Returned (), w)
      else if available < RECORD_HEADER_SIZE \<or> max_record_size (wal_cfg w) < available
      then (Returned (), Wal_active_mut (Segment_extend (replicate available 0)) w)
      else let payload_len = available - RECORD_HEADER_SIZE
           in act (act_run (encode_record Pad (replicate payload_len 0) (max_record_size (wal_cfg w))))
                (\<lambda>padding w.
                   if length padding \<noteq> available then (Failed WalInvalidConfig, w)
                   else (Returned (), Wal_active_mut (Segment_extend padding) w)) w)"

definition roll_segment :: "(wal, wal_error, unit) action" where
  "roll_segment w =
     act (act_run (Wal_active w)) (\<lambda>active.
       act (act_run (expect (checked_add (seg_sequence active) 1))) (\<lambda>next w.
         (Returned (), w\<lparr>wal_segments := wal_segments w @ [Segment_new next]\<rparr>))) w"

text \<open>The tail of \<open>append\<close>: the record enters the active segment and the record list.\<close>

definition push_record :: "record_type \<Rightarrow> bytes \<Rightarrow> bytes \<Rightarrow> (wal, wal_error, lsn_range) action" where
  "push_record kind payload encoded w =
     act (act_run (Wal_active w)) (\<lambda>segment.
       let offset = length (seg_bytes segment);
           end = offset + length encoded
       in act (act_run (offset_u32 offset)) (\<lambda>off.
          act (act_run (offset_u32 end)) (\<lambda>end w.
            let lsn = \<lparr>lsn_segment = seg_sequence segment, lsn_offset = off\<rparr>
            in (Returned \<lparr>range_first = lsn,
                          range_end = \<lparr>lsn_segment = seg_sequence segment, lsn_offset = end\<rparr>\<rparr>,
                (Wal_active_mut (Segment_extend encoded) w)
                  \<lparr>wal_records := wal_records w
                     @ [\<lparr>rec_lsn = lsn, rec_kind = kind, rec_payload = payload\<rparr>],
                   wal_pending_first := (case wal_pending_first w of
                      None \<Rightarrow> Some lsn | Some first \<Rightarrow> Some first)\<rparr>)))) w"

definition Wal_append :: "record_type \<Rightarrow> bytes \<Rightarrow> (wal, wal_error, lsn_range) action" where
  "Wal_append kind payload w =
     act (act_run (encode_record kind payload (max_record_size (wal_cfg w)))) (\<lambda>encoded.
       let room = segment_size (wal_cfg w) - SEGMENT_HEADER_SIZE
       in if room < length encoded then act_fail (RecordTooLarge (length encoded) room)
          else act (act_run (Wal_active w)) (\<lambda>active.
            let available = segment_size (wal_cfg w) - length (seg_bytes active)
            in act (if available < length encoded
                    then act (pad_active available) (\<lambda>_. roll_segment)
                    else act_ret ())
                 (\<lambda>_. push_record kind payload encoded))) w"

definition Wal_flush :: "wal \<Rightarrow> wal" where
  "Wal_flush w =
     w\<lparr>wal_segments := map (\<lambda>s. s\<lparr>seg_written := length (seg_bytes s)\<rparr>) (wal_segments w)\<rparr>"

definition Wal_commit :: "wal \<Rightarrow> lsn_range option \<times> wal" where
  "Wal_commit w =
     (let w1 = Wal_flush w;
          w2 = w1\<lparr>wal_segments := map (\<lambda>s. s\<lparr>seg_durable := seg_written s\<rparr>) (wal_segments w1)\<rparr>
      in case wal_pending_first w2 of
           None \<Rightarrow> (None, w2)
         | Some first \<Rightarrow>
             (let w3 = w2\<lparr>wal_pending_first := None\<rparr>
              in if wal_records w3 = [] then (None, w3)
                 else (Some \<lparr>range_first = first, range_end = rec_lsn (last (wal_records w3))\<rparr>, w3)))"

definition is_durable :: "wal \<Rightarrow> lsn \<Rightarrow> bool" where
  "is_durable w l =
     (case find (\<lambda>s. seg_sequence s = lsn_segment l) (wal_segments w) of
        None \<Rightarrow> False | Some s \<Rightarrow> lsn_offset l < seg_durable s)"

section \<open>Recovery\<close>

primrec any_valid_record :: "bytes \<Rightarrow> nat \<Rightarrow> nat \<Rightarrow> nat list \<Rightarrow> (wal_error, bool) run" where
  "any_valid_record bs sq max_size [] = Returned False"
| "any_valid_record bs sq max_size (offset # offsets) =
     (case parse_record bs sq offset max_size of
        Panicked \<Rightarrow> Panicked
      | Returned (Some _) \<Rightarrow> Returned True
      | _ \<Rightarrow> any_valid_record bs sq max_size offsets)"

definition has_valid_record_after :: "bytes \<Rightarrow> nat \<Rightarrow> nat \<Rightarrow> nat \<Rightarrow> (wal_error, bool) run" where
  "has_valid_record_after bs sq start max_size =
     any_valid_record bs sq max_size [start + 1 ..< length bs]"

record recovered_wal =
  rw_records :: "log_record list"
  rw_segments :: "segment_image list"
  rw_truncated_at :: "lsn option"

definition durable_payloads :: "recovered_wal \<Rightarrow> bytes list" where
  "durable_payloads r = map rec_payload (filter (\<lambda>record. rec_kind record = Data) (rw_records r))"

lemma parse_record_advances:
  assumes "parse_record bs sq offset mx = Returned (Some (r, nxt))"
  shows "offset < nxt \<and> nxt \<le> length bs"
  using assms
  by (auto simp: parse_record_def Let_def RECORD_HEADER_SIZE_def offset_u32_def
      split: if_splits option.splits)

text \<open>The record loop over one segment: the records kept, the normalized bytes, the truncation.\<close>

function recover_segment ::
  "bytes \<Rightarrow> nat \<Rightarrow> nat \<Rightarrow> bool \<Rightarrow> nat \<Rightarrow> log_record list
     \<Rightarrow> (wal_error, log_record list \<times> bytes \<times> lsn option) run" where
  "recover_segment bs sq max_size later_segment_exists offset records =
     (if length bs \<le> offset then Returned (records, bs, None)
      else case parse_record bs sq offset max_size of
        Panicked \<Rightarrow> Panicked
      | Returned (Some (record, next)) \<Rightarrow>
          recover_segment bs sq max_size later_segment_exists next
            (if rec_kind record \<noteq> Pad then records @ [record] else records)
      | Returned None \<Rightarrow> Returned (records, take offset bs, None)
      | Failed _ \<Rightarrow>
          run_bind (has_valid_record_after bs sq offset max_size) (\<lambda>valid_after.
            if later_segment_exists \<or> valid_after then Failed (MidLogCorruption sq offset)
            else run_bind (offset_u32 offset) (\<lambda>off.
              Returned (records, take offset bs,
                Some \<lparr>lsn_segment = sq, lsn_offset = off\<rparr>))))"
  by pat_completeness auto
termination
  by (relation "measure (\<lambda>(bs, _, _, _, offset, _). length bs - offset)")
    (auto dest!: parse_record_advances)

declare recover_segment.simps [simp del]

definition check_segment_header :: "nat \<Rightarrow> segment_image \<Rightarrow> (wal_error, unit) run" where
  "check_segment_header expected img =
     (if img_sequence img \<noteq> expected
      then Failed (InvalidSegmentSequence expected (img_sequence img))
      else if length (img_bytes img) < SEGMENT_HEADER_SIZE
      then Failed (InvalidRecord (img_sequence img) 0 ''missing segment header'')
      else if take 4 (img_bytes img) \<noteq> WAL_MAGIC
              \<or> from_le (take 2 (drop 4 (img_bytes img))) \<noteq> Wal_FORMAT_VERSION
      then Failed (InvalidRecord (img_sequence img) 0 ''invalid segment header'')
      else let header_sequence = from_le (take 8 (drop 6 (img_bytes img)))
           in if header_sequence \<noteq> img_sequence img
              then Failed (InvalidSegmentSequence (img_sequence img) header_sequence)
              else Returned ())"

primrec recover_images ::
  "nat \<Rightarrow> nat \<Rightarrow> segment_image list \<Rightarrow> log_record list \<Rightarrow> segment_image list
     \<Rightarrow> (wal_error, recovered_wal) run" where
  "recover_images max_size index [] records normalized =
     Returned \<lparr>rw_records = records, rw_segments = normalized, rw_truncated_at = None\<rparr>"
| "recover_images max_size index (img # images) records normalized =
     run_bind (check_segment_header index img) (\<lambda>_.
     run_bind (recover_segment (img_bytes img) (img_sequence img) max_size (images \<noteq> []) 14 records)
       (\<lambda>(records, output, truncated).
          let normalized = normalized @ [\<lparr>img_sequence = img_sequence img, img_bytes = output\<rparr>]
          in case truncated of
               Some lsn \<Rightarrow> Returned \<lparr>rw_records = records, rw_segments = normalized,
                                     rw_truncated_at = Some lsn\<rparr>
             | None \<Rightarrow> recover_images max_size (Suc index) images records normalized))"

text \<open>The last check of the source, on an empty \<open>normalized\<close>, cannot fire: there is an image.\<close>

definition recover :: "segment_image list \<Rightarrow> wal_config \<Rightarrow> (wal_error, recovered_wal) run" where
  "recover images config =
     (if images = [] \<or> segment_size config < SEGMENT_HEADER_SIZE + RECORD_HEADER_SIZE
      then Failed WalInvalidConfig
      else recover_images (max_record_size config) 0 images [] [])"


section \<open>The layout of a segment\<close>

definition record_bytes :: "record_type \<Rightarrow> bytes \<Rightarrow> bytes" where
  "record_bytes kind payload =
     to_le 4 (length payload) @ to_le 4 (crc32c (RecordType_byte kind # payload))
       @ RecordType_byte kind # payload"

definition record_fits :: "nat \<Rightarrow> bytes \<Rightarrow> bool" where
  "record_fits mx payload \<longleftrightarrow> 9 + length payload \<le> mx \<and> length payload \<le> u32_max"

definition encoded_records :: "log_record list \<Rightarrow> bytes" where
  "encoded_records rs = concat (map (\<lambda>r. record_bytes (rec_kind r) (rec_payload r)) rs)"

fun placed :: "nat \<Rightarrow> nat \<Rightarrow> nat \<Rightarrow> log_record list \<Rightarrow> bool" where
  "placed mx sq off [] \<longleftrightarrow> True"
| "placed mx sq off (r # rs) \<longleftrightarrow>
     rec_lsn r = \<lparr>lsn_segment = sq, lsn_offset = off\<rparr> \<and> record_fits mx (rec_payload r) \<and>
     placed mx sq (off + 9 + length (rec_payload r)) rs"

definition kept :: "log_record list \<Rightarrow> log_record list" where
  "kept rs = filter (\<lambda>r. rec_kind r \<noteq> Pad) rs"

definition segment_header :: "nat \<Rightarrow> bytes" where
  "segment_header sq = WAL_MAGIC @ to_le 2 Wal_FORMAT_VERSION @ to_le 8 sq"

lemma kept_simps [simp]:
  "kept [] = []" "kept (r # rs) = (if rec_kind r = Pad then kept rs else r # kept rs)"
  "kept (xs @ ys) = kept xs @ kept ys"
  by (simp_all add: kept_def)

lemma encode_record_eq:
  "encode_record kind payload mx =
     (if record_fits mx payload then Returned (record_bytes kind payload)
      else Failed (RecordTooLarge (9 + length payload) mx))"
  by (auto simp: encode_record_def record_fits_def record_bytes_def Let_def RECORD_HEADER_SIZE_def)

lemma length_record_bytes [simp]: "length (record_bytes kind payload) = 9 + length payload"
  by (simp add: record_bytes_def)

lemma RecordType_roundtrip [simp]: "RecordType_from_byte (RecordType_byte k) = Some k"
  by (cases k) (simp_all add: RecordType_from_byte_def)

lemma RecordType_byte_nonzero [simp]: "RecordType_byte k \<noteq> 0"
  by (cases k) simp_all

lemma record_bytes_nonzero: "\<not> list_all (\<lambda>b. b = 0) (record_bytes kind payload @ rest)"
  by (simp add: record_bytes_def)

lemma encoded_records_simps [simp]:
  "encoded_records [] = []"
  "encoded_records (r # rs) = record_bytes (rec_kind r) (rec_payload r) @ encoded_records rs"
  "encoded_records (xs @ ys) = encoded_records xs @ encoded_records ys"
  by (simp_all add: encoded_records_def)

lemma placed_append:
  "placed mx sq off (xs @ ys) \<longleftrightarrow>
     placed mx sq off xs \<and> placed mx sq (off + length (encoded_records xs)) ys"
  by (induction xs arbitrary: off) (auto simp: add.assoc)

lemma length_segment_header [simp]: "length (segment_header sq) = 14"
  by (simp add: segment_header_def WAL_MAGIC_def)

lemma Segment_new_bytes [simp]: "seg_bytes (Segment_new sq) = segment_header sq"
  by (simp add: Segment_new_def segment_header_def)

lemma parse_at_record:
  assumes "record_fits mx payload" and "length pre \<le> u32_max"
  shows "parse_record (pre @ record_bytes kind payload @ rest) sq (length pre) mx
     = Returned (Some (\<lparr>rec_lsn = \<lparr>lsn_segment = sq, lsn_offset = length pre\<rparr>,
                        rec_kind = kind, rec_payload = payload\<rparr>,
                       length pre + 9 + length payload))"
proof -
  have len: "length payload < 256 ^ 4" using assms(1) by (simp add: record_fits_def u32_max_def)
  have crc: "crc32c (RecordType_byte kind # payload) < 256 ^ 4"
    using crc32c_less[of "RecordType_byte kind # payload"] by simp
  have nz: "\<not> list_all (\<lambda>b. b = 0) (record_bytes kind payload @ rest)" by (rule record_bytes_nonzero)
  have f1: "from_le (take 4 (record_bytes kind payload @ rest)) = length payload"
    and f2: "from_le (take 4 (drop 4 (record_bytes kind payload @ rest)))
          = crc32c (RecordType_byte kind # payload)"
    and f3: "(record_bytes kind payload @ rest) ! 8 = RecordType_byte kind"
    and f4: "take (Suc (length payload)) (drop 8 (record_bytes kind payload @ rest))
          = RecordType_byte kind # payload"
    using len crc by (simp_all add: record_bytes_def nth_append)
  show ?thesis
    using nz f1 f2 f3 f4 assms
    by (simp add: parse_record_def Let_def RECORD_HEADER_SIZE_def record_fits_def offset_u32_def)
qed

lemma parse_zeros:
  "parse_record (pre @ replicate z 0) sq (length pre) mx = Returned None"
  by (simp add: parse_record_def list_all_iff)

text \<open>A record cut short never parses.\<close>

lemma parse_torn:
  assumes "record_bytes kind payload = q @ missing" and "missing \<noteq> []" and "record_fits mx payload"
  shows "parse_record (pre @ q) sq (length pre) mx =
     (if list_all (\<lambda>b. b = 0) q then Returned None
      else if length q < 9 then Failed (InvalidRecord sq (length pre) ''truncated header'')
      else Failed (InvalidRecord sq (length pre) ''length outside segment''))"
proof (cases "length q < 9")
  case True
  then show ?thesis by (simp add: parse_record_def Let_def RECORD_HEADER_SIZE_def)
next
  case False
  have "length (record_bytes kind payload) = length q + length missing" using assms(1) by simp
  then have short: "length q < 9 + length payload" using assms(2) by (cases missing) simp_all
  have "length payload < 256 ^ 4" using assms(3) by (simp add: record_fits_def u32_max_def)
  then have "from_le (take 4 (record_bytes kind payload)) = length payload"
    by (simp add: record_bytes_def)
  then have "from_le (take 4 q) = length payload" using assms(1) False by simp
  then show ?thesis using False short
    by (simp add: parse_record_def Let_def RECORD_HEADER_SIZE_def)
qed

section \<open>Recovery of a segment\<close>

lemma recover_segment_records:
  assumes "placed mx sq (length pre) rs"
    and "length (pre @ encoded_records rs) \<le> u32_max"
  shows "recover_segment (pre @ encoded_records rs @ tail) sq mx later (length pre) acc
     = recover_segment (pre @ encoded_records rs @ tail) sq mx later
         (length (pre @ encoded_records rs)) (acc @ kept rs)"
  using assms
proof (induction rs arbitrary: pre acc)
  case (Cons r rs)
  let ?b = "record_bytes (rec_kind r) (rec_payload r)"
  let ?bs = "pre @ ?b @ encoded_records rs @ tail"
  have fits: "record_fits mx (rec_payload r)" and pre: "length pre \<le> u32_max"
    and lsn: "rec_lsn r = \<lparr>lsn_segment = sq, lsn_offset = length pre\<rparr>"
    using Cons.prems by simp_all
  have r: "\<lparr>rec_lsn = \<lparr>lsn_segment = sq, lsn_offset = length pre\<rparr>, rec_kind = rec_kind r,
             rec_payload = rec_payload r\<rparr> = r"
    using lsn by simp
  have p: "parse_record ?bs sq (length pre) mx = Returned (Some (r, length pre + 9 + length (rec_payload r)))"
    using parse_at_record[OF fits pre, of "rec_kind r" "encoded_records rs @ tail" sq] unfolding r .
  have "recover_segment ?bs sq mx later (length pre) acc
      = recover_segment ((pre @ ?b) @ encoded_records rs @ tail) sq mx later (length (pre @ ?b))
          (acc @ kept [r])"
    by (subst recover_segment.simps) (simp add: p add.assoc)
  also have "\<dots> = recover_segment ((pre @ ?b) @ encoded_records rs @ tail) sq mx later
      (length ((pre @ ?b) @ encoded_records rs)) ((acc @ kept [r]) @ kept rs)"
    using Cons.prems by (intro Cons.IH) (simp_all add: add.assoc)
  finally show ?case by (simp add: add.assoc)
qed simp

lemma recover_segment_whole:
  assumes "placed mx sq 14 rs" and "length hdr = 14" and "length (hdr @ encoded_records rs) \<le> u32_max"
  shows "recover_segment (hdr @ encoded_records rs @ replicate z 0) sq mx later 14 acc
     = Returned (acc @ kept rs, hdr @ encoded_records rs, None)"
proof -
  have "recover_segment (hdr @ encoded_records rs @ replicate z 0) sq mx later (length hdr) acc
      = recover_segment ((hdr @ encoded_records rs) @ replicate z 0) sq mx later
         (length (hdr @ encoded_records rs)) (acc @ kept rs)"
    using recover_segment_records[of mx sq hdr rs "replicate z 0"] assms by simp
  also have "\<dots> = Returned (acc @ kept rs, hdr @ encoded_records rs, None)"
    by (subst recover_segment.simps) (simp only: parse_zeros, simp)
  finally show ?thesis using assms(2) by simp
qed

lemma recover_segment_torn:
  assumes "placed mx sq 14 rs" and "length hdr = 14"
    and "length (hdr @ encoded_records rs) \<le> u32_max"
    and torn: "record_bytes kind payload = q @ missing" "missing \<noteq> []" "record_fits mx payload"
  shows "recover_segment (hdr @ encoded_records rs @ q) sq mx later 14 acc =
     (if list_all (\<lambda>b. b = 0) q then Returned (acc @ kept rs, hdr @ encoded_records rs, None)
      else run_bind (has_valid_record_after (hdr @ encoded_records rs @ q) sq
             (length (hdr @ encoded_records rs)) mx)
        (\<lambda>valid_after.
          if later \<or> valid_after
          then Failed (MidLogCorruption sq (length (hdr @ encoded_records rs)))
          else Returned (acc @ kept rs, hdr @ encoded_records rs,
                 Some \<lparr>lsn_segment = sq, lsn_offset = length (hdr @ encoded_records rs)\<rparr>)))"
    (is "_ = ?rhs")
proof -
  let ?h = "hdr @ encoded_records rs"
  have p: "parse_record (?h @ q) sq (length ?h) mx =
     (if list_all (\<lambda>b. b = 0) q then Returned None
      else if length q < 9 then Failed (InvalidRecord sq (length ?h) ''truncated header'')
      else Failed (InvalidRecord sq (length ?h) ''length outside segment''))"
    using torn by (rule parse_torn)
  have off: "offset_u32 (length ?h) = Returned (length ?h)" using assms(3) by (simp add: offset_u32_def)
  have "recover_segment (hdr @ encoded_records rs @ q) sq mx later (length hdr) acc
      = recover_segment (?h @ q) sq mx later (length ?h) (acc @ kept rs)"
    using recover_segment_records[of mx sq hdr rs q] assms by simp
  also have "\<dots> = ?rhs"
  proof (cases "q = []")
    case False
    then have "\<not> length (?h @ q) \<le> length ?h" by simp
    then show ?thesis by (subst recover_segment.simps) (simp only: p if_False, simp add: off[simplified] cong: if_cong)
  qed (subst recover_segment.simps, simp)
  finally show ?thesis using assms(2) by simp
qed

section \<open>Recovery of whole and torn images\<close>

definition image_holds :: "nat \<Rightarrow> nat \<Rightarrow> segment_image \<Rightarrow> log_record list \<Rightarrow> bool" where
  "image_holds mx i im g \<longleftrightarrow>
     img_sequence im = i \<and> i \<le> u64_max \<and> placed mx i 14 g \<and> length (img_bytes im) \<le> u32_max \<and>
     (\<exists>z. img_bytes im = segment_header i @ encoded_records g @ replicate z 0)"

fun images_hold :: "nat \<Rightarrow> nat \<Rightarrow> segment_image list \<Rightarrow> log_record list list \<Rightarrow> bool" where
  "images_hold mx i [] gs \<longleftrightarrow> gs = []"
| "images_hold mx i (im # ims) [] \<longleftrightarrow> False"
| "images_hold mx i (im # ims) (g # gs) \<longleftrightarrow> image_holds mx i im g \<and> images_hold mx (Suc i) ims gs"

lemma images_hold_snoc:
  "images_hold mx i (ims @ [im]) gs \<longleftrightarrow>
     (\<exists>hs g. gs = hs @ [g] \<and> images_hold mx i ims hs \<and> image_holds mx (i + length ims) im g)"
proof (induction ims arbitrary: i gs)
  case Nil
  show ?case by (cases gs) (auto simp: Cons_eq_append_conv)
next
  case outer: (Cons a ims)
  show ?case
  proof (cases gs)
    case (Cons h t)
    have "(\<exists>hs g. h # t = hs @ [g] \<and> images_hold mx i (a # ims) hs \<and> image_holds mx (i + length (a # ims)) im g)
        \<longleftrightarrow> (\<exists>hs g. t = hs @ [g] \<and> image_holds mx i a h \<and> images_hold mx (Suc i) ims hs
              \<and> image_holds mx (Suc i + length ims) im g)" (is "?l \<longleftrightarrow> ?r")
    proof
      assume ?l
      then obtain hs g where "h # t = hs @ [g]" "images_hold mx i (a # ims) hs"
        "image_holds mx (i + length (a # ims)) im g" by blast
      then show ?r by (cases hs) auto
    next
      assume ?r
      then obtain hs g where "t = hs @ [g]" "image_holds mx i a h" "images_hold mx (Suc i) ims hs"
        "image_holds mx (Suc i + length ims) im g" by blast
      then show ?l by (intro exI[of _ "h # hs"] exI[of _ g]) simp
    qed
    then show ?thesis unfolding Cons by (simp add: outer) blast
  qed simp
qed

lemma check_segment_header_ok:
  assumes "i \<le> u64_max"
  shows "check_segment_header i \<lparr>img_sequence = i, img_bytes = segment_header i @ rest\<rparr> = Returned ()"
proof -
  have "i < 256 ^ 8" using assms by (simp add: u64_max_def)
  then show ?thesis
    by (simp add: check_segment_header_def segment_header_def SEGMENT_HEADER_SIZE_def WAL_MAGIC_def
        Wal_FORMAT_VERSION_def Let_def)
qed

lemma image_holdsE:
  assumes "image_holds mx i im g"
  obtains z where "im = \<lparr>img_sequence = i, img_bytes = segment_header i @ encoded_records g @ replicate z 0\<rparr>"
    and "i \<le> u64_max" and "placed mx i 14 g" and "length (segment_header i @ encoded_records g) \<le> u32_max"
proof -
  from assms obtain z where z: "img_bytes im = segment_header i @ encoded_records g @ replicate z 0"
    by (auto simp: image_holds_def)
  moreover have "im = \<lparr>img_sequence = i, img_bytes = img_bytes im\<rparr>"
    using assms by (simp add: image_holds_def)
  ultimately show ?thesis using assms that[of z] by (simp add: image_holds_def)
qed

text \<open>The images a list of record groups normalizes to.\<close>

fun normal_images :: "nat \<Rightarrow> log_record list list \<Rightarrow> segment_image list" where
  "normal_images i [] = []"
| "normal_images i (g # gs) =
     \<lparr>img_sequence = i, img_bytes = segment_header i @ encoded_records g\<rparr> # normal_images (Suc i) gs"

lemma recover_images_prefix:
  assumes "images_hold mx i ims gs"
  shows "recover_images mx i (ims @ rest) recs nrm
     = recover_images mx (i + length ims) rest (recs @ kept (concat gs)) (nrm @ normal_images i gs)"
  using assms
proof (induction ims arbitrary: i gs recs nrm)
  case (Cons im ims)
  then obtain g gs' where gs: "gs = g # gs'" and im: "image_holds mx i im g"
    and rest: "images_hold mx (Suc i) ims gs'"
    by (cases gs) auto
  from im obtain z where z: "im = \<lparr>img_sequence = i, img_bytes = segment_header i @ encoded_records g @ replicate z 0\<rparr>"
    and i: "i \<le> u64_max" and p: "placed mx i 14 g" and l: "length (segment_header i @ encoded_records g) \<le> u32_max"
    by (rule image_holdsE)
  have h: "check_segment_header i im = Returned ()"
    unfolding z by (rule check_segment_header_ok[OF i])
  have r: "recover_segment (img_bytes im) (img_sequence im) mx later 14 recs
      = Returned (recs @ kept g, segment_header i @ encoded_records g, None)" for later
    unfolding z using recover_segment_whole[OF p _ l, where z = z] by simp
  have im_seq: "img_sequence im = i" using z by simp
  show ?case
    using Cons.IH[OF rest, of "recs @ kept g"] by (simp add: h r[unfolded im_seq] im_seq gs)
qed simp

lemma recover_images_whole:
  "images_hold mx 0 ims gs \<Longrightarrow>
   recover_images mx 0 ims [] [] = Returned \<lparr>rw_records = kept (concat gs),
     rw_segments = normal_images 0 gs, rw_truncated_at = None\<rparr>"
  using recover_images_prefix[where rest = "[]" and recs = "[]" and nrm = "[]"] by simp

lemma recover_images_torn:
  assumes ims: "images_hold mx 0 ims gs" and n: "length ims \<le> u64_max" and p: "placed mx (length ims) 14 rs"
    and l: "length (segment_header (length ims) @ encoded_records rs) \<le> u32_max"
    and torn: "record_bytes kind payload = q @ missing" "missing \<noteq> []" "record_fits mx payload"
  defines "bs \<equiv> segment_header (length ims) @ encoded_records rs @ q"
    and "stop \<equiv> length (segment_header (length ims) @ encoded_records rs)"
  shows "recover_images mx 0 (ims @ [\<lparr>img_sequence = length ims, img_bytes = bs\<rparr>]) [] [] =
     run_bind (if list_all (\<lambda>b. b = 0) q then Returned None
               else run_bind (has_valid_record_after bs (length ims) stop mx) (\<lambda>valid_after.
                 if valid_after then Failed (MidLogCorruption (length ims) stop)
                 else Returned (Some \<lparr>lsn_segment = length ims, lsn_offset = stop\<rparr>)))
       (\<lambda>truncated. Returned \<lparr>rw_records = kept (concat gs @ rs),
          rw_segments = normal_images 0 gs
            @ [\<lparr>img_sequence = length ims, img_bytes = segment_header (length ims) @ encoded_records rs\<rparr>],
          rw_truncated_at = truncated\<rparr>)"
proof -
  let ?im = "\<lparr>img_sequence = length ims, img_bytes = bs\<rparr>"
  have h: "check_segment_header (length ims) ?im = Returned ()"
    unfolding bs_def using n by (rule check_segment_header_ok)
  have pre: "recover_images mx 0 (ims @ [?im]) [] []
      = recover_images mx (length ims) [?im] (kept (concat gs)) (normal_images 0 gs)"
    using recover_images_prefix[OF ims, of "[?im]" "[]" "[]"] by simp
  have seg: "recover_segment bs (length ims) mx False 14 acc =
     (if list_all (\<lambda>b. b = 0) q then Returned (acc @ kept rs, segment_header (length ims) @ encoded_records rs, None)
      else run_bind (has_valid_record_after bs (length ims) stop mx)
        (\<lambda>valid_after.
          if valid_after then Failed (MidLogCorruption (length ims) stop)
          else Returned (acc @ kept rs, segment_header (length ims) @ encoded_records rs,
                 Some \<lparr>lsn_segment = length ims, lsn_offset = stop\<rparr>)))" for acc
    unfolding bs_def stop_def using recover_segment_torn[OF p _ l torn, of False acc] by simp
  show ?thesis
    by (cases "list_all (\<lambda>b. b = 0) q"; cases "has_valid_record_after bs (length ims) stop mx")
      (simp_all add: pre h seg)
qed

section \<open>The layout of the log\<close>

definition wal_config_ok :: "wal_config \<Rightarrow> bool" where
  "wal_config_ok cfg \<longleftrightarrow>
     23 \<le> segment_size cfg \<and> segment_size cfg \<le> u32_max \<and>
     9 \<le> max_record_size cfg \<and> max_record_size cfg \<le> MAX_RECORD_SIZE"

text \<open>
  \<open>wal_layout opn w n\<close>: every segment of \<open>w\<close> holds its records, the first \<open>n\<close> records are the
  durable ones, and (with \<open>opn\<close>) the active segment ends with a record.
\<close>

definition wal_layout :: "bool \<Rightarrow> wal \<Rightarrow> nat \<Rightarrow> bool" where
  "wal_layout opn w n \<longleftrightarrow>
     wal_config_ok (wal_cfg w) \<and> wal_segments w \<noteq> [] \<and> n \<le> length (wal_records w) \<and>
     (\<forall>s \<in> set (wal_segments w). 14 \<le> seg_durable s \<and> seg_durable s \<le> length (seg_bytes s)
        \<and> length (seg_bytes s) \<le> segment_size (wal_cfg w)) \<and>
     (\<exists>gs. images_hold (max_record_size (wal_cfg w)) 0 (segment_images w) gs \<and>
        kept (concat gs) = kept (wal_records w) \<and>
        (opn \<longrightarrow> seg_bytes (last (wal_segments w))
           = segment_header (seg_sequence (last (wal_segments w))) @ encoded_records (last gs))) \<and>
     (\<exists>ds. images_hold (max_record_size (wal_cfg w)) 0 (durable_images w) ds \<and>
        kept (concat ds) = kept (take n (wal_records w)))"

text \<open>The same, with the active segment and the two groups of records laid open.\<close>

lemma wal_layoutE:
  assumes "wal_layout opn w n"
  obtains ss s gs g ds where "wal_segments w = ss @ [s]" and "seg_sequence s = length ss"
    and "length ss \<le> u64_max"
    and "images_hold (max_record_size (wal_cfg w)) 0
           (map (\<lambda>s. \<lparr>img_sequence = seg_sequence s, img_bytes = seg_bytes s\<rparr>) ss) gs"
    and "image_holds (max_record_size (wal_cfg w)) (length ss)
           \<lparr>img_sequence = seg_sequence s, img_bytes = seg_bytes s\<rparr> g"
    and "kept (concat gs @ g) = kept (wal_records w)"
    and "opn \<longrightarrow> seg_bytes s = segment_header (length ss) @ encoded_records g"
    and "images_hold (max_record_size (wal_cfg w)) 0 (durable_images w) ds"
    and "kept (concat ds) = kept (take n (wal_records w))"
proof -
  let ?mx = "max_record_size (wal_cfg w)"
  from assms obtain ss s where ss: "wal_segments w = ss @ [s]"
    by (auto simp: wal_layout_def intro: rev_exhaust[of "wal_segments w"])
  from assms obtain hs where hs: "images_hold ?mx 0 (segment_images w) hs"
      "kept (concat hs) = kept (wal_records w)"
      "opn \<longrightarrow> seg_bytes s = segment_header (seg_sequence s) @ encoded_records (last hs)"
    unfolding wal_layout_def ss by auto
  from assms obtain ds where ds: "images_hold ?mx 0 (durable_images w) ds"
      "kept (concat ds) = kept (take n (wal_records w))"
    by (auto simp: wal_layout_def)
  from hs(1) obtain gs g where g: "hs = gs @ [g]"
      "images_hold ?mx 0 (map (\<lambda>s. \<lparr>img_sequence = seg_sequence s, img_bytes = seg_bytes s\<rparr>) ss) gs"
      "image_holds ?mx (length ss) \<lparr>img_sequence = seg_sequence s, img_bytes = seg_bytes s\<rparr> g"
    by (auto simp: segment_images_def ss images_hold_snoc)
  then have "seg_sequence s = length ss" "length ss \<le> u64_max" by (auto simp: image_holds_def)
  with that[OF ss _ _ g(2,3) _ _ ds] hs g(1) show ?thesis by auto
qed

lemma wal_layout_new:
  assumes "Wal_new cfg = Returned w" and "segment_size cfg \<le> u32_max"
  shows "wal_layout True w 0"
proof -
  have cfg: "wal_config_ok cfg" and w: "w = \<lparr>wal_cfg = cfg, wal_segments = [Segment_new 0],
      wal_records = [], wal_pending_first = None\<rparr>"
    using assms by (auto simp: Wal_new_def wal_config_ok_def SEGMENT_HEADER_SIZE_def
        RECORD_HEADER_SIZE_def split: if_splits)
  have im: "image_holds mx 0 \<lparr>img_sequence = 0, img_bytes = segment_header 0\<rparr> []" for mx
    by (simp add: image_holds_def u32_max_def)
  have "seg_sequence (Segment_new 0) = 0" "seg_durable (Segment_new 0) = 14"
    by (simp_all add: Segment_new_def SEGMENT_HEADER_SIZE_def)
  then show ?thesis
    using cfg im by (auto simp: wal_layout_def w segment_images_def durable_images_def wal_config_ok_def
        intro!: exI[of _ "[[]]"])
qed

text \<open>Extending the active segment leaves the durable images as they are.\<close>

lemma durable_images_extend:
  assumes "\<forall>s \<in> set (wal_segments w). seg_durable s \<le> length (seg_bytes s)" and "wal_segments w \<noteq> []"
  shows "durable_images (Wal_active_mut (Segment_extend bs) w) = durable_images w"
proof -
  obtain ss s where ss: "wal_segments w = ss @ [s]" using assms(2) by (metis rev_exhaust)
  then show ?thesis using assms(1)
    by (simp add: durable_images_def Wal_active_mut_def Segment_extend_def)
qed

lemma durable_images_only:
  "wal_segments w' = wal_segments w \<Longrightarrow> durable_images w' = durable_images w"
  by (simp add: durable_images_def)

text \<open>
  What every write to the active segment has in common: the record \<open>r\<close> (a padding record when the
  record list does not grow) or zero bytes behind the last record.
\<close>

lemma wal_layout_extend:
  assumes lay: "wal_layout True w n"
    and room: "length (seg_bytes (last (wal_segments w))) + length bs \<le> segment_size (wal_cfg w)"
    and bs: "bs = encoded_records rs @ replicate z 0" "opn \<longrightarrow> z = 0"
    and placed: "placed (max_record_size (wal_cfg w)) (seg_sequence (last (wal_segments w)))
          (length (seg_bytes (last (wal_segments w)))) rs"
    and w': "wal_segments w' = wal_segments (Wal_active_mut (Segment_extend bs) w)"
      "wal_cfg w' = wal_cfg w" "wal_records w' = wal_records w @ added" "kept added = kept rs"
  shows "wal_layout opn w' n"
proof -
  let ?mx = "max_record_size (wal_cfg w)"
  from lay obtain ss s gs g ds where ss: "wal_segments w = ss @ [s]" "seg_sequence s = length ss" "length ss \<le> u64_max"
    and gs: "images_hold ?mx 0 (map (\<lambda>s. \<lparr>img_sequence = seg_sequence s, img_bytes = seg_bytes s\<rparr>) ss) gs"
    and g: "image_holds ?mx (length ss) \<lparr>img_sequence = seg_sequence s, img_bytes = seg_bytes s\<rparr> g"
    and kept: "kept (concat gs @ g) = kept (wal_records w)"
    and s: "seg_bytes s = segment_header (length ss) @ encoded_records g"
    and ds: "images_hold ?mx 0 (durable_images w) ds" "kept (concat ds) = kept (take n (wal_records w))"
    by (rule wal_layoutE) blast
  have cfg: "wal_config_ok (wal_cfg w)" and n: "n \<le> length (wal_records w)"
    and segs: "\<forall>s \<in> set (wal_segments w). 14 \<le> seg_durable s \<and> seg_durable s \<le> length (seg_bytes s)
        \<and> length (seg_bytes s) \<le> segment_size (wal_cfg w)"
    using lay by (auto simp: wal_layout_def)
  have segs': "wal_segments w' = ss @ [Segment_extend bs s]"
    by (simp add: w'(1) Wal_active_mut_def ss)
  have u32: "length (seg_bytes s @ bs) \<le> u32_max"
    using room cfg by (simp add: ss wal_config_ok_def)
  have hold: "image_holds ?mx (length ss) \<lparr>img_sequence = seg_sequence s, img_bytes = seg_bytes s @ bs\<rparr> (g @ rs)"
    using g placed u32 by (auto simp: image_holds_def ss s bs(1) placed_append)
  have "images_hold ?mx 0 (segment_images w') (gs @ [g @ rs])"
    using gs hold by (simp add: segment_images_def segs' Segment_extend_def images_hold_snoc)
  moreover have "kept (concat (gs @ [g @ rs])) = kept (wal_records w')"
    using kept w'(3,4) by simp
  moreover have "opn \<longrightarrow> seg_bytes (last (wal_segments w'))
      = segment_header (seg_sequence (last (wal_segments w'))) @ encoded_records (last (gs @ [g @ rs]))"
    using bs by (simp add: segs' Segment_extend_def s ss)
  moreover have "durable_images w' = durable_images w"
    using durable_images_extend[of w bs] durable_images_only[OF w'(1)] segs ss by simp
  moreover have "kept (concat ds) = kept (take n (wal_records w'))"
    using ds(2) w'(3) n by simp
  moreover have "\<forall>s \<in> set (wal_segments w'). 14 \<le> seg_durable s \<and> seg_durable s \<le> length (seg_bytes s)
        \<and> length (seg_bytes s) \<le> segment_size (wal_cfg w)"
    using segs room by (auto simp: segs' ss Segment_extend_def)
  ultimately show ?thesis
    unfolding wal_layout_def using cfg n w' ds(1) segs' by fastforce
qed

section \<open>Operations keep the layout\<close>

lemma Wal_active_eq: "wal_layout opn w n \<Longrightarrow> Wal_active w = Returned (last (wal_segments w))"
  by (simp add: Wal_active_def wal_layout_def)

lemma wal_layout_room:
  "wal_layout opn w n \<Longrightarrow> length (seg_bytes (last (wal_segments w))) \<le> segment_size (wal_cfg w)"
  by (simp add: wal_layout_def)

lemma Wal_active_mut_fields [simp]:
  "wal_cfg (Wal_active_mut f w) = wal_cfg w" "wal_records (Wal_active_mut f w) = wal_records w"
  by (simp_all add: Wal_active_mut_def)

text \<open>Padding always succeeds and closes the active segment.\<close>

lemma pad_active_layout:
  assumes lay: "wal_layout True w n"
    and available: "available = segment_size (wal_cfg w) - length (seg_bytes (last (wal_segments w)))"
  shows "\<exists>w'. pad_active available w = (Returned (), w') \<and> wal_layout False w' n \<and> wal_cfg w' = wal_cfg w"
proof -
  let ?mx = "max_record_size (wal_cfg w)"
  have cfg: "wal_config_ok (wal_cfg w)" using lay by (simp add: wal_layout_def)
  note room = wal_layout_room[OF lay]
  consider (none) "available = 0"
    | (zeros) "available \<noteq> 0" "available < 9 \<or> ?mx < available"
    | (pad) "9 \<le> available" "available \<le> ?mx"
    by linarith
  then show ?thesis
  proof cases
    case none
    have "wal_layout False w n" using lay by (auto simp: wal_layout_def)
    then show ?thesis using none by (simp add: pad_active_def)
  next
    case zeros
    have "wal_layout False (Wal_active_mut (Segment_extend (replicate available 0)) w) n"
      using lay by (rule wal_layout_extend[where rs = "[]" and added = "[]" and z = available])
        (use room available in simp_all)
    then show ?thesis using zeros by (simp add: pad_active_def RECORD_HEADER_SIZE_def)
  next
    case pad
    define payload :: bytes where "payload = replicate (available - 9) 0"
    define r where "r = \<lparr>rec_lsn = \<lparr>lsn_segment = seg_sequence (last (wal_segments w)),
      lsn_offset = length (seg_bytes (last (wal_segments w)))\<rparr>, rec_kind = Pad, rec_payload = payload\<rparr>"
    have "available \<le> u32_max" using available cfg unfolding wal_config_ok_def by linarith
    then have fits: "record_fits ?mx payload" using pad by (simp add: record_fits_def payload_def)
    have len: "length (record_bytes Pad payload) = available" using pad by (simp add: payload_def)
    have "wal_layout False (Wal_active_mut (Segment_extend (record_bytes Pad payload)) w) n"
      using lay by (rule wal_layout_extend[where rs = "[r]" and added = "[]" and z = 0])
        (use room available len fits in \<open>simp_all add: r_def\<close>)
    moreover have "pad_active available w
        = (Returned (), Wal_active_mut (Segment_extend (record_bytes Pad payload)) w)"
      using pad fits len
      by (simp add: pad_active_def RECORD_HEADER_SIZE_def encode_record_eq act_def flip: payload_def)
    ultimately show ?thesis by simp
  qed
qed

lemma roll_segment_layout:
  assumes lay: "wal_layout False w n" and roll: "roll_segment w = (Returned (), w')"
  shows "wal_layout True w' n \<and> wal_cfg w' = wal_cfg w \<and>
     length (seg_bytes (last (wal_segments w'))) = 14"
proof -
  let ?mx = "max_record_size (wal_cfg w)"
  from lay obtain ss s gs g ds where ss: "wal_segments w = ss @ [s]" "seg_sequence s = length ss" "length ss \<le> u64_max"
    and gs: "images_hold ?mx 0 (map (\<lambda>s. \<lparr>img_sequence = seg_sequence s, img_bytes = seg_bytes s\<rparr>) ss) gs"
    and g: "image_holds ?mx (length ss) \<lparr>img_sequence = seg_sequence s, img_bytes = seg_bytes s\<rparr> g"
    and kept: "kept (concat gs @ g) = kept (wal_records w)"
    and ds: "images_hold ?mx 0 (durable_images w) ds" "kept (concat ds) = kept (take n (wal_records w))"
    by (rule wal_layoutE) blast
  let ?new = "Segment_new (Suc (length ss))"
  have le: "Suc (length ss) \<le> u64_max" and w': "w' = w\<lparr>wal_segments := ss @ [s, ?new]\<rparr>"
    using roll by (auto simp: roll_segment_def act_Returned_iff Wal_active_eq[OF lay] ss checked_add_def
        split: if_splits)
  have im: "image_holds ?mx (Suc (length ss)) \<lparr>img_sequence = Suc (length ss), img_bytes = segment_header (Suc (length ss))\<rparr> []"
    using le by (simp add: image_holds_def u32_max_def)
  have new: "seg_sequence ?new = Suc (length ss)" "seg_durable ?new = 14"
    by (simp_all add: Segment_new_def SEGMENT_HEADER_SIZE_def)
  have "images_hold ?mx 0 (segment_images w') ((gs @ [g]) @ [[]])"
    using gs g im images_hold_snoc[of ?mx 0 "map (\<lambda>s. \<lparr>img_sequence = seg_sequence s, img_bytes = seg_bytes s\<rparr>) (ss @ [s])"]
    by (simp add: segment_images_def w' new images_hold_snoc)
  moreover have dur: "durable_images w' = durable_images w
      @ [\<lparr>img_sequence = Suc (length ss), img_bytes = segment_header (Suc (length ss))\<rparr>]"
    by (simp add: durable_images_def w' ss new)
  then have "images_hold ?mx 0 (durable_images w') (ds @ [[]])"
    using ds(1) im by (simp add: dur images_hold_snoc) (simp add: durable_images_def ss)
  moreover have "\<forall>s \<in> set (wal_segments w'). 14 \<le> seg_durable s \<and> seg_durable s \<le> length (seg_bytes s)
        \<and> length (seg_bytes s) \<le> segment_size (wal_cfg w)"
    using lay by (auto simp: wal_layout_def ss w' new wal_config_ok_def)
  moreover have "wal_config_ok (wal_cfg w)" "n \<le> length (wal_records w)" using lay by (auto simp: wal_layout_def)
  ultimately have "wal_layout True w' n"
    unfolding wal_layout_def using kept ds(2) w'
    by (intro conjI exI[of _ "(gs @ [g]) @ [[]]"] exI[of _ "ds @ [[]]"]) (simp_all add: new)
  then show ?thesis by (simp add: w')
qed

lemma push_record_layout:
  assumes lay: "wal_layout True w n" and fits: "record_fits (max_record_size (wal_cfg w)) payload"
    and room: "length (seg_bytes (last (wal_segments w))) + (9 + length payload) \<le> segment_size (wal_cfg w)"
  shows "\<exists>r w'. push_record kind payload (record_bytes kind payload) w = (Returned r, w') \<and>
     wal_layout True w' n \<and> wal_cfg w' = wal_cfg w \<and>
     wal_records w' = wal_records w @ [\<lparr>rec_lsn = range_first r, rec_kind = kind, rec_payload = payload\<rparr>]"
proof -
  let ?s = "last (wal_segments w)"
  let ?lsn = "\<lparr>lsn_segment = seg_sequence ?s, lsn_offset = length (seg_bytes ?s)\<rparr>"
  let ?r = "\<lparr>rec_lsn = ?lsn, rec_kind = kind, rec_payload = payload\<rparr>"
  let ?w = "(Wal_active_mut (Segment_extend (record_bytes kind payload)) w)
     \<lparr>wal_records := wal_records w @ [?r],
      wal_pending_first := (case wal_pending_first w of None \<Rightarrow> Some ?lsn | Some first \<Rightarrow> Some first)\<rparr>"
  have "segment_size (wal_cfg w) \<le> u32_max" using lay by (simp add: wal_layout_def wal_config_ok_def)
  then have u32: "length (seg_bytes ?s) \<le> u32_max" "length (seg_bytes ?s) + (9 + length payload) \<le> u32_max"
    using room by simp_all
  have "wal_layout True ?w n"
    using lay by (rule wal_layout_extend[where rs = "[?r]" and added = "[?r]" and z = 0])
      (use room fits in simp_all)
  moreover have "push_record kind payload (record_bytes kind payload) w
      = (Returned \<lparr>range_first = ?lsn, range_end = \<lparr>lsn_segment = seg_sequence ?s,
           lsn_offset = length (seg_bytes ?s) + (9 + length payload)\<rparr>\<rparr>, ?w)"
    using u32 by (simp add: push_record_def act_def Wal_active_eq[OF lay] offset_u32_def Let_def)
  ultimately show ?thesis by simp
qed

text \<open>
  \<open>append\<close>: it fails exactly when the record is too large, and then changes nothing; it panics only
  when the segment numbers run out; otherwise the record is the last one of the log.
\<close>

lemma Wal_append_cases:
  assumes lay: "wal_layout True w n" and app: "Wal_append kind payload w = (r, w')"
  shows "case r of
      Failed e \<Rightarrow> w' = w \<and> \<not> (record_fits (max_record_size (wal_cfg w)) payload
                              \<and> 9 + length payload \<le> segment_size (wal_cfg w) - 14)
    | Returned rng \<Rightarrow> wal_layout True w' n \<and> wal_cfg w' = wal_cfg w \<and>
        wal_records w' = wal_records w @ [\<lparr>rec_lsn = range_first rng, rec_kind = kind, rec_payload = payload\<rparr>]
    | Panicked \<Rightarrow> u64_max \<le> seg_sequence (last (wal_segments w))"
proof -
  let ?mx = "max_record_size (wal_cfg w)" and ?ss = "segment_size (wal_cfg w)"
  let ?av = "?ss - length (seg_bytes (last (wal_segments w)))"
  consider (large) "\<not> record_fits ?mx payload" | (room) "record_fits ?mx payload" "?ss - 14 < 9 + length payload"
    | (stay) "record_fits ?mx payload" "\<not> ?ss - 14 < 9 + length payload" "9 + length payload \<le> ?av"
    | (roll) "record_fits ?mx payload" "\<not> ?ss - 14 < 9 + length payload" "?av < 9 + length payload"
    by linarith
  then show ?thesis
  proof cases
    case large
    then show ?thesis using app by (auto simp: Wal_append_def act_def encode_record_eq)
  next
    case room
    then show ?thesis using app
      by (auto simp: Wal_append_def act_def encode_record_eq SEGMENT_HEADER_SIZE_def Let_def)
  next
    case stay
    have step: "Wal_append kind payload w = push_record kind payload (record_bytes kind payload) w"
      using stay by (simp add: Wal_append_def act_def encode_record_eq SEGMENT_HEADER_SIZE_def Let_def
          Wal_active_eq[OF lay])
    have "length (seg_bytes (last (wal_segments w))) + (9 + length payload) \<le> ?ss"
      using stay wal_layout_room[OF lay] by linarith
    from push_record_layout[OF lay stay(1) this, of kind] step app show ?thesis by auto
  next
    case roll
    from pad_active_layout[OF lay refl] obtain w1 where pad: "pad_active ?av w = (Returned (), w1)"
      and lay1: "wal_layout False w1 n" and cfg1: "wal_cfg w1 = wal_cfg w" by blast
    have segs1: "seg_sequence (last (wal_segments w1)) = seg_sequence (last (wal_segments w))"
      and recs1: "wal_records w1 = wal_records w"
      using pad by (auto simp: pad_active_def act_def Wal_active_mut_def Segment_extend_def Let_def
          split: if_splits run.splits)
    have step: "Wal_append kind payload w =
        act roll_segment (\<lambda>_. push_record kind payload (record_bytes kind payload)) w1"
      using roll pad
      by (simp add: Wal_append_def act_def encode_record_eq SEGMENT_HEADER_SIZE_def Let_def
          Wal_active_eq[OF lay])
    show ?thesis
    proof (cases "Suc (seg_sequence (last (wal_segments w))) \<le> u64_max")
      case True
      then obtain w2 where r2: "roll_segment w1 = (Returned (), w2)" "wal_records w2 = wal_records w1"
        by (auto simp: roll_segment_def act_def Wal_active_eq[OF lay1] checked_add_def segs1)
      have lay2: "wal_layout True w2 n" "wal_cfg w2 = wal_cfg w" "length (seg_bytes (last (wal_segments w2))) = 14"
        using roll_segment_layout[OF lay1 r2(1)] cfg1 by simp_all
      have "length (seg_bytes (last (wal_segments w2))) + (9 + length payload) \<le> segment_size (wal_cfg w2)"
        using roll(2) lay2 lay by (simp add: wal_layout_def wal_config_ok_def)
      moreover have "record_fits (max_record_size (wal_cfg w2)) payload" using roll(1) lay2 by simp
      ultimately have "\<exists>r w'. push_record kind payload (record_bytes kind payload) w2 = (Returned r, w') \<and>
         wal_layout True w' n \<and> wal_cfg w' = wal_cfg w2 \<and>
         wal_records w' = wal_records w2 @ [\<lparr>rec_lsn = range_first r, rec_kind = kind, rec_payload = payload\<rparr>]"
        using push_record_layout[OF lay2(1)] by blast
      then show ?thesis using app step r2 lay2(2) recs1 by (auto simp: act_def)
    next
      case False
      then have "fst (roll_segment w1) = Panicked"
        by (simp add: roll_segment_def act_def Wal_active_eq[OF lay1] checked_add_def segs1)
      then have "r = Panicked" using app step by (auto simp: act_def split: run.splits prod.splits)
      then show ?thesis using False by simp
    qed
  qed
qed

lemma Wal_flush_layout:
  assumes "wal_layout opn w n" shows "wal_layout opn (Wal_flush w) n"
proof -
  have "segment_images (Wal_flush w) = segment_images w" "durable_images (Wal_flush w) = durable_images w"
    by (simp_all add: Wal_flush_def segment_images_def durable_images_def)
  then show ?thesis using assms
    by (simp add: wal_layout_def Wal_flush_def last_map)
qed

text \<open>After a commit every record is durable.\<close>

lemma Wal_commit_segments:
  "wal_segments (snd (Wal_commit w)) =
     map (\<lambda>s. s\<lparr>seg_written := length (seg_bytes s), seg_durable := length (seg_bytes s)\<rparr>) (wal_segments w)"
  "wal_cfg (snd (Wal_commit w)) = wal_cfg w" "wal_records (snd (Wal_commit w)) = wal_records w"
  by (simp_all add: Wal_commit_def Wal_flush_def Let_def split: option.splits)

lemma Wal_commit_layout:
  assumes lay: "wal_layout opn w n" and c: "Wal_commit w = (r, w')"
  shows "wal_layout opn w' (length (wal_records w'))"
proof -
  have w': "wal_segments w' =
     map (\<lambda>s. s\<lparr>seg_written := length (seg_bytes s), seg_durable := length (seg_bytes s)\<rparr>) (wal_segments w)"
    "wal_cfg w' = wal_cfg w" "wal_records w' = wal_records w"
    using Wal_commit_segments[of w] c by simp_all
  have "segment_images w' = segment_images w" "durable_images w' = segment_images w"
    by (simp_all add: segment_images_def durable_images_def w')
  moreover from lay have "\<forall>s \<in> set (wal_segments w). 14 \<le> length (seg_bytes s) \<and>
      length (seg_bytes s) \<le> segment_size (wal_cfg w)"
    by (auto simp: wal_layout_def intro: le_trans)
  ultimately show ?thesis using lay w' by (auto simp: wal_layout_def last_map)
qed

section \<open>Reachable logs\<close>

text \<open>
  \<open>wal_run cfg w n\<close>: \<open>w\<close> is reached from a new log by any operations, and \<open>n\<close> records had been
  appended when the last commit completed.
\<close>

inductive wal_run :: "wal_config \<Rightarrow> wal \<Rightarrow> nat \<Rightarrow> bool" for cfg where
  run_new: "Wal_new cfg = Returned w \<Longrightarrow> wal_run cfg w 0"
| run_append: "wal_run cfg w n \<Longrightarrow> Wal_append kind payload w = (Returned r, w') \<Longrightarrow> wal_run cfg w' n"
| run_append_failed: "wal_run cfg w n \<Longrightarrow> Wal_append kind payload w = (Failed e, w') \<Longrightarrow> wal_run cfg w' n"
| run_flush: "wal_run cfg w n \<Longrightarrow> wal_run cfg (Wal_flush w) n"
| run_commit: "wal_run cfg w n \<Longrightarrow> Wal_commit w = (r, w') \<Longrightarrow> wal_run cfg w' (length (wal_records w'))"

lemma wal_run_layout:
  assumes "wal_run cfg w n" and "segment_size cfg \<le> u32_max"
  shows "wal_layout True w n \<and> wal_cfg w = cfg"
  using assms
proof (induction rule: wal_run.induct)
  case (run_new w)
  then show ?case using wal_layout_new by (auto simp: Wal_new_def split: if_splits)
next
  case (run_append w n kind payload r w')
  then show ?case using Wal_append_cases[of w n kind payload "Returned r" w'] by simp
next
  case (run_append_failed w n kind payload e w')
  then show ?case using Wal_append_cases[of w n kind payload "Failed e" w'] by simp
next
  case (run_flush w n)
  then show ?case using Wal_flush_layout by (simp add: Wal_flush_def)
next
  case (run_commit w n r w')
  then show ?case using Wal_commit_layout[of True w n r w'] Wal_commit_segments(2)[of w] by simp
qed

lemma wal_run_recover_durable:
  assumes "wal_run cfg w n" and "segment_size cfg \<le> u32_max"
  shows "\<exists>segs. recover (durable_images w) cfg = Returned \<lparr>rw_records = kept (take n (wal_records w)),
     rw_segments = segs, rw_truncated_at = None\<rparr>"
proof -
  have lay: "wal_layout True w n" and cfg: "wal_cfg w = cfg" using wal_run_layout[OF assms] by simp_all
  then obtain ds where ds: "images_hold (max_record_size cfg) 0 (durable_images w) ds"
      "kept (concat ds) = kept (take n (wal_records w))" by (auto simp: wal_layout_def)
  have "durable_images w \<noteq> []" "\<not> segment_size cfg < 23"
    using lay cfg by (auto simp: wal_layout_def durable_images_def wal_config_ok_def)
  then show ?thesis
    using recover_images_whole[OF ds(1)] ds(2)
    by (simp add: recover_def SEGMENT_HEADER_SIZE_def RECORD_HEADER_SIZE_def)
qed

text \<open>The position of a committed record is durable.\<close>

lemma placed_lsn:
  "placed mx sq off rs \<Longrightarrow> r \<in> set rs \<Longrightarrow>
   lsn_segment (rec_lsn r) = sq \<and> lsn_offset (rec_lsn r) < off + length (encoded_records rs)"
  by (induction rs arbitrary: off) (fastforce simp: add.assoc)+

lemma images_hold_member:
  "images_hold mx i ims gs \<Longrightarrow> r \<in> set (concat gs) \<Longrightarrow>
   \<exists>k < length ims. \<exists>g. r \<in> set g \<and> image_holds mx (i + k) (ims ! k) g"
proof (induction mx i ims gs rule: images_hold.induct)
  case (3 mx i im ims g gs)
  show ?case
  proof (cases "r \<in> set g")
    case True
    then show ?thesis using 3(2) by (intro exI[of _ 0]) auto
  next
    case False
    then obtain k g' where "k < length ims" "r \<in> set g'" "image_holds mx (Suc i + k) (ims ! k) g'"
      using 3 by auto
    then show ?thesis by (intro exI[of _ "Suc k"]) auto
  qed
qed simp_all

lemma images_hold_sequence:
  "images_hold mx i ims gs \<Longrightarrow> k < length ims \<Longrightarrow> img_sequence (ims ! k) = i + k"
  by (induction mx i ims gs arbitrary: k rule: images_hold.induct)
    (auto simp: image_holds_def nth_Cons split: nat.splits)

lemma find_at_index:
  "k < length xs \<Longrightarrow> \<forall>j < length xs. f (xs ! j) = j \<Longrightarrow> find (\<lambda>x. f x = k) xs = Some (xs ! k)"
  by (rule find_Some_iff[THEN iffD2], rule exI[of _ k]) simp

lemma wal_run_is_durable:
  assumes run: "wal_run cfg w n" and ss: "segment_size cfg \<le> u32_max"
    and r: "r \<in> set (kept (take n (wal_records w)))"
  shows "is_durable w (rec_lsn r)"
proof -
  from wal_run_layout[OF run ss] obtain ds where ds: "images_hold (max_record_size cfg) 0 (durable_images w) ds"
      "kept (concat ds) = kept (take n (wal_records w))" by (auto simp: wal_layout_def)
  from r ds(2) have "r \<in> set (concat ds)" by (metis filter_is_subset kept_def subsetD)
  from images_hold_member[OF ds(1) this] obtain k g where k: "k < length (wal_segments w)" and g: "r \<in> set g"
      and h: "image_holds (max_record_size cfg) k (durable_images w ! k) g"
    by (auto simp: durable_images_def)
  let ?s = "wal_segments w ! k"
  from h obtain z where z: "take (seg_durable ?s) (seg_bytes ?s) = segment_header k @ encoded_records g @ replicate z 0"
      and p: "placed (max_record_size cfg) k 14 g"
    using k by (auto simp: image_holds_def durable_images_def)
  have "14 + length (encoded_records g) \<le> seg_durable ?s"
    using arg_cong[OF z, of length] by simp
  moreover have "\<forall>j < length (wal_segments w). seg_sequence (wal_segments w ! j) = j"
    using images_hold_sequence[OF ds(1)] by (simp add: durable_images_def)
  then have "find (\<lambda>s. seg_sequence s = k) (wal_segments w) = Some ?s" using k by (rule find_at_index[rotated])
  ultimately show ?thesis using placed_lsn[OF p g] by (simp add: is_durable_def)
qed

text \<open>A write of one record torn at any byte.\<close>

definition torn_images :: "wal \<Rightarrow> bytes \<Rightarrow> segment_image list" where
  "torn_images w q = segment_images (Wal_active_mut (Segment_extend q) w)"

lemma any_valid_no_panic:
  "length bs \<le> u32_max \<Longrightarrow> \<forall>k \<in> set offs. k < length bs \<Longrightarrow> any_valid_record bs sq mx offs \<noteq> Panicked"
proof (induction offs)
  case (Cons k offs)
  then have "parse_record bs sq k mx \<noteq> Panicked"
    by (auto simp: parse_record_def Let_def offset_u32_def split: option.splits)
  then show ?case using Cons by (auto split: run.splits option.splits)
qed simp

lemma any_valid_no_failure: "any_valid_record bs sq mx offs \<noteq> Failed e"
  by (induction offs) (auto split: run.splits option.splits)

lemma has_valid_returns:
  "length bs \<le> u32_max \<Longrightarrow> \<exists>b. has_valid_record_after bs sq start mx = Returned b"
  using any_valid_no_panic[of bs "[start + 1 ..< length bs]" sq mx] any_valid_no_failure
  unfolding has_valid_record_after_def
  by (cases "any_valid_record bs sq mx [start + 1 ..< length bs]") auto

lemma wal_run_torn_eq:
  assumes run: "wal_run cfg w n" and ss: "segment_size cfg \<le> u32_max"
    and fits: "record_fits (max_record_size cfg) payload"
    and room: "length (seg_bytes (last (wal_segments w))) + (9 + length payload) \<le> segment_size cfg"
    and torn: "record_bytes kind payload = q @ missing" "missing \<noteq> []"
  defines "s \<equiv> last (wal_segments w)"
  shows "\<exists>b segs. length (seg_bytes s @ q) \<le> u32_max \<and>
     has_valid_record_after (seg_bytes s @ q) (seg_sequence s) (length (seg_bytes s)) (max_record_size cfg)
       = Returned b \<and>
     recover (torn_images w q) cfg =
       (if list_all (\<lambda>b. b = 0) q
        then Returned \<lparr>rw_records = kept (wal_records w), rw_segments = segs, rw_truncated_at = None\<rparr>
        else if b then Failed (MidLogCorruption (seg_sequence s) (length (seg_bytes s)))
        else Returned \<lparr>rw_records = kept (wal_records w), rw_segments = segs,
               rw_truncated_at = Some \<lparr>lsn_segment = seg_sequence s, lsn_offset = length (seg_bytes s)\<rparr>\<rparr>)"
proof -
  let ?mx = "max_record_size cfg"
  have lay: "wal_layout True w n" and cfg: "wal_cfg w = cfg" using wal_run_layout[OF run ss] by simp_all
  from lay obtain rest t gs g ds where rest: "wal_segments w = rest @ [t]" "seg_sequence t = length rest" "length rest \<le> u64_max"
    and gs: "images_hold ?mx 0 (map (\<lambda>s. \<lparr>img_sequence = seg_sequence s, img_bytes = seg_bytes s\<rparr>) rest) gs"
    and g: "image_holds ?mx (length rest) \<lparr>img_sequence = seg_sequence t, img_bytes = seg_bytes t\<rparr> g"
    and kept: "kept (concat gs @ g) = kept (wal_records w)"
    and t: "seg_bytes t = segment_header (length rest) @ encoded_records g"
    unfolding cfg[symmetric] by (rule wal_layoutE) blast
  have s: "s = t" by (simp add: s_def rest)
  let ?ims = "map (\<lambda>s. \<lparr>img_sequence = seg_sequence s, img_bytes = seg_bytes s\<rparr>) rest"
  have q: "length q \<le> 9 + length payload" using arg_cong[OF torn(1), of length] by simp
  have len: "length (seg_bytes t @ q) \<le> u32_max" using q room ss by (simp add: rest)
  have imgs: "torn_images w q = ?ims @ [\<lparr>img_sequence = length ?ims, img_bytes = segment_header (length ?ims) @ encoded_records g @ q\<rparr>]"
    by (simp add: torn_images_def segment_images_def Wal_active_mut_def Segment_extend_def rest t)
  have "23 \<le> segment_size cfg" using lay cfg by (simp add: wal_layout_def wal_config_ok_def)
  then have rec: "recover (torn_images w q) cfg = recover_images ?mx 0 (torn_images w q) [] []"
    by (simp add: recover_def imgs SEGMENT_HEADER_SIZE_def RECORD_HEADER_SIZE_def)
  from has_valid_returns[OF len] obtain b where
    b: "has_valid_record_after (seg_bytes t @ q) (length rest) (length (seg_bytes t)) ?mx = Returned b" by blast
  moreover have "placed ?mx (length ?ims) 14 g" using g by (simp add: image_holds_def)
  moreover have "length (segment_header (length ?ims) @ encoded_records g) \<le> u32_max" using len by (simp add: t)
  ultimately show ?thesis
    unfolding s
    using recover_images_torn[OF gs _ _ _ torn(1,2) fits, of g] rest(3) kept len
    by (intro exI[of _ b] exI[of _ "normal_images 0 gs
         @ [\<lparr>img_sequence = length rest, img_bytes = segment_header (length rest) @ encoded_records g\<rparr>]"])
      (cases "list_all (\<lambda>b. b = 0) q"; cases b; simp add: rec[unfolded imgs, simplified] imgs t rest)
qed

lemma any_valid_hit:
  "any_valid_record bs sq mx offs \<noteq> Panicked \<Longrightarrow> off \<in> set offs \<Longrightarrow>
   parse_record bs sq off mx = Returned (Some r) \<Longrightarrow> any_valid_record bs sq mx offs = Returned True"
  by (induction offs) (auto split: run.splits option.splits)

text \<open>
  Recovery refuses a torn record whose payload holds a complete record encoding in front of the
  tear: the search for a later record looks inside the torn payload.
\<close>

lemma wal_run_embedded_record:
  assumes run: "wal_run cfg w n" and ss: "segment_size cfg \<le> u32_max"
    and fits: "record_fits (max_record_size cfg) payload"
    and room: "length (seg_bytes (last (wal_segments w))) + (9 + length payload) \<le> segment_size cfg"
    and torn: "record_bytes kind payload = q @ missing" "missing \<noteq> []"
    and inner: "payload = a @ record_bytes k p @ b" "length missing \<le> length b"
  shows "recover (torn_images w q) cfg = Failed (MidLogCorruption (seg_sequence (last (wal_segments w)))
           (length (seg_bytes (last (wal_segments w)))))"
proof -
  let ?mx = "max_record_size cfg" and ?s = "last (wal_segments w)"
  define front where "front = to_le 4 (length payload)
    @ to_le 4 (crc32c (RecordType_byte kind # payload)) @ RecordType_byte kind # a"
  have "record_bytes kind payload = front @ record_bytes k p @ b"
    unfolding record_bytes_def[of kind payload] front_def by (simp add: inner(1))
  then have split: "q @ missing = (front @ record_bytes k p) @ b" using torn(1) by simp
  from arg_cong[OF split, of length]
  have "length q + length missing = length (front @ record_bytes k p) + length b" by simp
  then have "length (front @ record_bytes k p) \<le> length q" using inner(2) by linarith
  then have "take (length (front @ record_bytes k p)) q = front @ record_bytes k p"
    using arg_cong[OF split, of "take (length (front @ record_bytes k p))"] by simp
  then obtain c where q: "q = front @ record_bytes k p @ c"
    by (metis append.assoc append_take_drop_id)
  have nz: "\<not> list_all (\<lambda>b. b = 0) q" by (simp add: q front_def)
  from wal_run_torn_eq[OF run ss fits room torn] obtain v segs where
    len: "length (seg_bytes ?s @ q) \<le> u32_max" and
    v: "has_valid_record_after (seg_bytes ?s @ q) (seg_sequence ?s) (length (seg_bytes ?s)) ?mx = Returned v"
    and rec: "recover (torn_images w q) cfg =
       (if list_all (\<lambda>b. b = 0) q
        then Returned \<lparr>rw_records = kept (wal_records w), rw_segments = segs, rw_truncated_at = None\<rparr>
        else if v then Failed (MidLogCorruption (seg_sequence ?s) (length (seg_bytes ?s)))
        else Returned \<lparr>rw_records = kept (wal_records w), rw_segments = segs,
               rw_truncated_at = Some \<lparr>lsn_segment = seg_sequence ?s, lsn_offset = length (seg_bytes ?s)\<rparr>\<rparr>)"
    by blast
  have "record_fits ?mx p" using fits inner(1) by (simp add: record_fits_def)
  moreover have "length (seg_bytes ?s @ front) \<le> u32_max" using len by (simp add: q)
  ultimately have hit: "parse_record (seg_bytes ?s @ q) (seg_sequence ?s) (length (seg_bytes ?s @ front)) ?mx
      = Returned (Some (\<lparr>rec_lsn = \<lparr>lsn_segment = seg_sequence ?s, lsn_offset = length (seg_bytes ?s @ front)\<rparr>,
           rec_kind = k, rec_payload = p\<rparr>, length (seg_bytes ?s @ front) + 9 + length p))"
    using parse_at_record[of ?mx p "seg_bytes ?s @ front" k c] by (simp add: q)
  have "length (seg_bytes ?s @ front) \<in> set [length (seg_bytes ?s) + 1 ..< length (seg_bytes ?s @ q)]"
    by (simp add: q front_def)
  from any_valid_hit[OF any_valid_no_panic[OF len] this hit] v have v
    by (simp add: has_valid_record_after_def)
  then show ?thesis using rec nz by simp
qed

text \<open>Nothing is pending exactly when every record is committed.\<close>

lemma Wal_append_pending:
  "Wal_append kind payload w = (Returned r, w') \<Longrightarrow> wal_pending_first w' \<noteq> None"
  by (auto simp: Wal_append_def act_Returned_iff push_record_def Let_def
      split: if_splits option.splits)

lemma wal_run_pending:
  assumes "wal_run cfg w n" and "segment_size cfg \<le> u32_max"
  shows "wal_pending_first w = None \<longleftrightarrow> n = length (wal_records w)"
  using assms
proof (induction rule: wal_run.induct)
  case (run_new w)
  then show ?case by (auto simp: Wal_new_def split: if_splits)
next
  case (run_append w n kind payload r w')
  have lay: "wal_layout True w n" using wal_run_layout[OF run_append(1,4)] by simp
  then have "n \<le> length (wal_records w)" by (simp add: wal_layout_def)
  then show ?case
    using Wal_append_cases[OF lay run_append(2)] Wal_append_pending[OF run_append(2)] by simp
next
  case (run_append_failed w n kind payload e w')
  have "wal_layout True w n" using wal_run_layout[OF run_append_failed(1,4)] by simp
  from Wal_append_cases[OF this run_append_failed(2)] run_append_failed(3)[OF run_append_failed(4)]
  show ?case by simp
next
  case (run_flush w n)
  then show ?case by (simp add: Wal_flush_def)
next
  case (run_commit w n r w')
  have "wal_pending_first (snd (Wal_commit w)) = None"
    by (auto simp: Wal_commit_def Wal_flush_def Let_def split: option.splits)
  then show ?case using run_commit(2) by simp
qed

end
