(* ===== verification/DurableLog.thy ===== *)
theory DurableLog
  imports Wal RaftTypes
begin

text \<open>
  The durable Raft log of \<open>crates/cc-log/src/lib.rs\<close>: its record vocabulary and codec, the state a
  record history stands for (\<open>apply_record\<close>), the planner \<open>Log\<close> over the write-ahead log, and both
  recoveries (segment images and the framed record stream).

  The lemmas give the record round trip and follow every planner operation on the history of
  records in the write-ahead log, so that recovery of the durable images is the committed state.
\<close>

section \<open>Records and state\<close>

definition LOG_RECORD_MAGIC :: nat where
  "LOG_RECORD_MAGIC = from_le [0x43, 0x43, 0x4c, 0x52]"

definition LOG_RECORD_VERSION :: nat where "LOG_RECORD_VERSION = 1"

datatype log_error =
    LogWal wal_error
  | LogDecode decode_error
  | LogInvalidTag byte
  | LogInvalid string

datatype origin = Bootstrap | Join | Restore

primrec Origin_byte :: "origin \<Rightarrow> byte" where
  "Origin_byte Bootstrap = 1"
| "Origin_byte Join = 2"
| "Origin_byte Restore = 3"

definition Origin_decode :: "byte \<Rightarrow> log_error + origin" where
  "Origin_decode value =
     (if value = 1 then Inr Bootstrap else if value = 2 then Inr Join
      else if value = 3 then Inr Restore else Inl (LogInvalidTag value))"

record genesis =
  gn_origin :: origin
  gn_cluster_id :: bytes
  gn_policy :: cluster_policy
  gn_membership :: membership_state

record snapshot_mark =
  mark_index :: nat
  mark_term :: nat
  mark_generation :: nat
  mark_crc32c :: nat

datatype durable_record =
    Genesis genesis
  | Hard hard_state
  | Append entry
  | Truncate nat
  | SnapshotMark snapshot_mark
  | InstalledSnapshotMark snapshot_mark

record log_state =
  ls_genesis :: genesis
  ls_hard_state :: hard_state
  ls_base_index :: nat
  ls_base_term :: nat
  ls_entries :: "entry list"
  ls_snapshot :: "snapshot_mark option"

definition LogState_last_index :: "log_state \<Rightarrow> nat" where
  "LogState_last_index s =
     (if ls_entries s = [] then ls_base_index s else e_index (last (ls_entries s)))"

definition LogState_last_term :: "log_state \<Rightarrow> nat" where
  "LogState_last_term s =
     (if ls_entries s = [] then ls_base_term s else e_term (last (ls_entries s)))"

definition LogState_term_at :: "log_state \<Rightarrow> nat \<Rightarrow> nat option" where
  "LogState_term_at s index =
     (if index = ls_base_index s then Some (ls_base_term s)
      else map_option e_term (find (\<lambda>entry. e_index entry = index) (ls_entries s)))"

text \<open>The state right behind a genesis record.\<close>

definition LogState_initial :: "genesis \<Rightarrow> log_state" where
  "LogState_initial g =
     \<lparr>ls_genesis = g, ls_hard_state = \<lparr>hs_term = 0, hs_voted_for = None\<rparr>, ls_base_index = 0,
      ls_base_term = 0, ls_entries = [], ls_snapshot = None\<rparr>"

definition validate_genesis :: "genesis \<Rightarrow> log_error + unit" where
  "validate_genesis g =
     (if list_all (\<lambda>byte. byte = 0) (gn_cluster_id g) then Inl (LogInvalid ''zero cluster id'')
      else res_bind (map_err LogDecode (ClusterPolicy_validate (gn_policy g)))
        (\<lambda>_. map_err LogDecode (MembershipState_validate (gn_membership g))))"

text \<open>The two snapshot marks share one branch; \<open>installed\<close> tells them apart.\<close>

definition apply_snapshot_mark :: "bool \<Rightarrow> snapshot_mark \<Rightarrow> log_state \<Rightarrow> log_error + log_state" where
  "apply_snapshot_mark installed mark s =
     (if mark_index mark = 0
         \<or> mark_index mark < ls_base_index s
         \<or> (case ls_snapshot s of None \<Rightarrow> False | Some prior \<Rightarrow> mark_index mark \<le> mark_index prior)
         \<or> (\<not> installed \<and> LogState_term_at s (mark_index mark) \<noteq> Some (mark_term mark))
         \<or> (installed \<and> (case LogState_term_at s (mark_index mark) of
                            None \<Rightarrow> False | Some term \<Rightarrow> term \<noteq> mark_term mark))
      then Inl (LogInvalid ''invalid snapshot mark'')
      else Inr (s\<lparr>ls_entries := filter (\<lambda>entry. mark_index mark < e_index entry) (ls_entries s),
                  ls_base_index := mark_index mark, ls_base_term := mark_term mark,
                  ls_snapshot := Some mark\<rparr>))"

fun apply_record :: "log_state \<Rightarrow> durable_record \<Rightarrow> log_error + log_state" where
  "apply_record s (Genesis _) = Inl (LogInvalid ''duplicate genesis'')"
| "apply_record s (Hard hard) =
     (if hs_term hard < hs_term (ls_hard_state s)
      then Inl (LogInvalid ''hard-state term regressed'')
      else if hs_term hard = hs_term (ls_hard_state s)
           \<and> hs_voted_for (ls_hard_state s) \<noteq> None \<and> hs_voted_for hard \<noteq> None
           \<and> hs_voted_for (ls_hard_state s) \<noteq> hs_voted_for hard
      then Inl (LogInvalid ''vote changed in one term'')
      else Inr (s\<lparr>ls_hard_state := hard\<rparr>))"
| "apply_record s (Append entry) =
     (if e_index entry = 0 \<or> e_index entry \<noteq> sat_add (LogState_last_index s) 1
      then Inl (LogInvalid ''append index is not contiguous'')
      else Inr (s\<lparr>ls_entries := ls_entries s @ [entry]\<rparr>))"
| "apply_record s (Truncate from) =
     (if from \<le> ls_base_index s then Inl (LogInvalid ''truncate crosses log base'')
      else Inr (s\<lparr>ls_entries := filter (\<lambda>entry. e_index entry < from) (ls_entries s)\<rparr>))"
| "apply_record s (SnapshotMark mark) = apply_snapshot_mark False mark s"
| "apply_record s (InstalledSnapshotMark mark) = apply_snapshot_mark True mark s"

section \<open>The record codec\<close>

definition EntryKind_byte :: "entry_kind \<Rightarrow> byte" where
  "EntryKind_byte k =
     (case k of App \<Rightarrow> 1 | Noop \<Rightarrow> 2 | Config \<Rightarrow> 3 | AppV3 \<Rightarrow> 4 | ConfigV3 \<Rightarrow> 5)"

text \<open>The assertion of \<open>Enc::bytes\<close>.\<close>

definition enc_bytes_checked :: "bytes \<Rightarrow> ('e, bytes) run" where
  "enc_bytes_checked v = (if enc_bytes_ok v then Returned (enc_bytes v) else Panicked)"

definition encode_entry :: "entry \<Rightarrow> (log_error, bytes) run" where
  "encode_entry entry =
     (if MAX_CODEC_BYTES < length (e_payload entry)
      then Failed (LogInvalid ''entry payload too large'')
      else Returned (enc_u64 (e_term entry) @ enc_u64 (e_index entry)
             @ enc_u8 (EntryKind_byte (e_kind entry)) @ enc_bytes (e_payload entry)))"

definition decode_entry :: "(log_error, entry) decoder" where
  "decode_entry =
     dbind (dlift LogDecode dec_u64) (\<lambda>term.
     dbind (dlift LogDecode dec_u64) (\<lambda>index.
       if index = 0 then dfail (LogInvalid ''zero entry index'')
       else dbind (dlift LogDecode dec_u8) (\<lambda>tag.
         let rest = (\<lambda>kind. dbind (dlift LogDecode dec_bytes_field) (\<lambda>payload.
               dret \<lparr>e_term = term, e_index = index, e_kind = kind, e_payload = payload\<rparr>))
         in if tag = 1 then rest App else if tag = 2 then rest Noop else if tag = 3 then rest Config
            else dfail (LogInvalidTag tag))))"

definition encode_entry_v3 :: "entry \<Rightarrow> (log_error, bytes) run" where
  "encode_entry_v3 entry =
     (if MAX_CODEC_BYTES < length (e_payload entry)
      then Failed (LogInvalid ''entry payload too large'')
      else let rest = (\<lambda>required_features kind. Returned
             (enc_u64 (e_term entry) @ enc_u64 (e_index entry) @ enc_u16 SEMANTIC_VERSION_V3
              @ enc_u64 required_features @ enc_u8 (EntryKind_byte kind) @ enc_bytes (e_payload entry)))
           in case e_kind entry of
                AppV3 \<Rightarrow> rest (unat ATOMIC_BATCH_FEATURE) App
              | ConfigV3 \<Rightarrow> rest 0 Config
              | _ \<Rightarrow> Failed (LogInvalid ''v3 entry kind''))"

definition decode_entry_v3 :: "(log_error, entry) decoder" where
  "decode_entry_v3 =
     dbind (dlift LogDecode dec_u64) (\<lambda>term.
     dbind (dlift LogDecode dec_u64) (\<lambda>index.
       if index = 0 then dfail (LogInvalid ''v3 entry header'')
       else dbind (dlift LogDecode dec_u16) (\<lambda>version.
         if version \<noteq> SEMANTIC_VERSION_V3 then dfail (LogInvalid ''v3 entry header'')
         else dbind (dlift LogDecode dec_u64) (\<lambda>required_features.
           dbind (dlift LogDecode dec_u8) (\<lambda>tag.
             let rest = (\<lambda>kind. dbind (dlift LogDecode dec_bytes_field) (\<lambda>payload.
                   dret \<lparr>e_term = term, e_index = index, e_kind = kind, e_payload = payload\<rparr>))
             in if tag = 1 \<and> required_features = unat ATOMIC_BATCH_FEATURE then rest AppV3
                else if tag = 3 \<and> required_features = 0 then rest ConfigV3
                else dfail (LogInvalid ''v3 entry requirements''))))))"

definition encode_mark :: "snapshot_mark \<Rightarrow> bytes" where
  "encode_mark mark =
     enc_u64 (mark_index mark) @ enc_u64 (mark_term mark) @ enc_u64 (mark_generation mark)
       @ enc_u32 (mark_crc32c mark)"

fun record_body :: "durable_record \<Rightarrow> (log_error, bytes) run" where
  "record_body (Genesis g) =
     run_bind (run_result (validate_genesis g)) (\<lambda>_.
     run_bind (enc_bytes_checked (ClusterPolicy_encode (gn_policy g))) (\<lambda>policy.
     run_bind (run_result (map_err LogDecode (MembershipState_encode (gn_membership g)))) (\<lambda>membership.
     run_bind (enc_bytes_checked membership) (\<lambda>membership.
       Returned (enc_u8 1 @ enc_u8 (Origin_byte (gn_origin g)) @ concat (map enc_u8 (gn_cluster_id g))
         @ policy @ membership)))))"
| "record_body (Hard hard) =
     Returned (enc_u8 2 @ enc_u64 (hs_term hard)
       @ enc_u64 (case hs_voted_for hard of None \<Rightarrow> 0 | Some voter \<Rightarrow> voter))"
| "record_body (Append entry) =
     (if e_index entry = 0 then Failed (LogInvalid ''zero append index'')
      else if e_kind entry = AppV3 \<or> e_kind entry = ConfigV3
      then run_bind (encode_entry_v3 entry) (\<lambda>body. Returned (enc_u8 7 @ body))
      else run_bind (encode_entry entry) (\<lambda>body. Returned (enc_u8 3 @ body)))"
| "record_body (Truncate from) =
     (if from = 0 then Failed (LogInvalid ''zero truncate index'')
      else Returned (enc_u8 4 @ enc_u64 from))"
| "record_body (SnapshotMark mark) =
     (if mark_index mark = 0 then Failed (LogInvalid ''zero snapshot index'')
      else Returned (enc_u8 5 @ encode_mark mark))"
| "record_body (InstalledSnapshotMark mark) =
     (if mark_index mark = 0 then Failed (LogInvalid ''zero snapshot index'')
      else Returned (enc_u8 6 @ encode_mark mark))"

definition encode_durable_record :: "durable_record \<Rightarrow> (log_error, bytes) run" where
  "encode_durable_record record =
     run_bind (record_body record) (\<lambda>body.
       Returned (seal (enc_header LOG_RECORD_MAGIC LOG_RECORD_VERSION @ body)))"

definition decode_mark :: "(snapshot_mark \<Rightarrow> durable_record) \<Rightarrow> (log_error, durable_record) decoder" where
  "decode_mark constructor =
     dbind (dlift LogDecode dec_u64) (\<lambda>index.
       if index = 0 then dfail (LogInvalid ''zero snapshot index'')
       else dbind (dlift LogDecode dec_u64) (\<lambda>term.
            dbind (dlift LogDecode dec_u64) (\<lambda>generation.
            dbind (dlift LogDecode dec_u32) (\<lambda>crc.
              dret (constructor \<lparr>mark_index = index, mark_term = term, mark_generation = generation,
                                 mark_crc32c = crc\<rparr>)))))"

text \<open>A decoder that goes on with the value of an already decoded \<open>Result\<close>.\<close>

definition dresult :: "'e + 'a \<Rightarrow> ('e, 'a) decoder" where
  "dresult r d = (case r of Inl e \<Rightarrow> Inl e | Inr x \<Rightarrow> Inr (x, d))"

definition decode_genesis :: "(log_error, durable_record) decoder" where
  "decode_genesis =
     dbind (dlift LogDecode dec_u8) (\<lambda>tag.
     dbind (dresult (Origin_decode tag)) (\<lambda>origin.
     dbind (dlift LogDecode (drepeat 16 dec_u8)) (\<lambda>cluster_id.
     dbind (dlift LogDecode dec_bytes_field) (\<lambda>policy.
     dbind (dresult (map_err LogDecode (ClusterPolicy_decode policy))) (\<lambda>policy.
     dbind (dlift LogDecode dec_bytes_field) (\<lambda>membership.
     dbind (dresult (map_err LogDecode (MembershipState_decode membership))) (\<lambda>membership.
       dret (Genesis \<lparr>gn_origin = origin, gn_cluster_id = cluster_id, gn_policy = policy,
                      gn_membership = membership\<rparr>))))))))"

definition decode_hard :: "(log_error, durable_record) decoder" where
  "decode_hard =
     dbind (dlift LogDecode dec_u64) (\<lambda>term.
     dbind (dlift LogDecode dec_u64) (\<lambda>voter.
       dret (Hard \<lparr>hs_term = term, hs_voted_for = (if voter \<noteq> 0 then Some voter else None)\<rparr>)))"

definition decode_truncate :: "(log_error, durable_record) decoder" where
  "decode_truncate =
     dbind (dlift LogDecode dec_u64) (\<lambda>from.
       if from = 0 then dfail (LogInvalid ''zero truncate index'') else dret (Truncate from))"

definition record_fields :: "(log_error, durable_record) decoder" where
  "record_fields =
     dbind (dlift LogDecode (dec_header LOG_RECORD_MAGIC LOG_RECORD_VERSION)) (\<lambda>_.
     dbind (dlift LogDecode dec_u8) (\<lambda>tag.
       if tag = 1 then decode_genesis
       else if tag = 2 then decode_hard
       else if tag = 3 then dbind decode_entry (\<lambda>entry. dret (Append entry))
       else if tag = 4 then decode_truncate
       else if tag = 5 then decode_mark SnapshotMark
       else if tag = 6 then decode_mark InstalledSnapshotMark
       else if tag = 7 then dbind decode_entry_v3 (\<lambda>entry. dret (Append entry))
       else dfail (LogInvalidTag tag)))"

definition decode_durable_record :: "bytes \<Rightarrow> log_error + durable_record" where
  "decode_durable_record bs =
     (if length bs < 4 then Inl (LogInvalid ''truncated record checksum'')
      else let body_len = length bs - 4
           in if \<not> seal_ok bs then Inl (LogInvalid ''record checksum'')
              else decode_all LogDecode record_fields (take body_len bs))"

section \<open>The planner\<close>

record log_plan =
  lp_lsn :: lsn_range
  lp_record :: durable_record

record durable_log =
  log_wal :: wal
  log_durable :: log_state
  log_staged :: log_state

text \<open>The last statements of \<open>append_record\<close>: the write-ahead log takes the encoded record.\<close>

definition Log_write :: "durable_record \<Rightarrow> bytes \<Rightarrow> (durable_log, log_error, log_plan) action" where
  "Log_write record bytes l =
     (let (r, w) = Wal_append Data bytes (log_wal l)
      in (run_bind (run_map_err LogWal r) (\<lambda>lsn. Returned \<lparr>lp_lsn = lsn, lp_record = record\<rparr>),
          l\<lparr>log_wal := w\<rparr>))"

definition Log_append_record :: "durable_record \<Rightarrow> (durable_log, log_error, log_plan) action" where
  "Log_append_record record =
     act (\<lambda>l. case record of
            Genesis _ \<Rightarrow> (Returned (), l)
          | _ \<Rightarrow> (case apply_record (log_staged l) record of
                   Inl e \<Rightarrow> (Failed e, l)
                 | Inr staged \<Rightarrow> (Returned (), l\<lparr>log_staged := staged\<rparr>)))
     (\<lambda>_. act (act_run (encode_durable_record record)) (Log_write record))"

definition Log_fresh :: "wal_config \<Rightarrow> genesis \<Rightarrow> (log_error, durable_log \<times> log_plan) run" where
  "Log_fresh cfg g =
     run_bind (run_result (validate_genesis g)) (\<lambda>_.
     run_bind (run_map_err LogWal (Wal_new cfg)) (\<lambda>w.
       case Log_append_record (Genesis g)
              \<lparr>log_wal = w, log_durable = LogState_initial g,
               log_staged = LogState_initial g\<rparr> of
         (r, l) \<Rightarrow> run_bind r (\<lambda>plan. Returned (l, plan))))"

definition Log_set_hard :: "hard_state \<Rightarrow> (durable_log, log_error, log_plan) action" where
  "Log_set_hard hard = Log_append_record (Hard hard)"

definition Log_append :: "entry \<Rightarrow> (durable_log, log_error, log_plan) action" where
  "Log_append entry = Log_append_record (Append entry)"

definition Log_truncate_suffix :: "nat \<Rightarrow> (durable_log, log_error, log_plan) action" where
  "Log_truncate_suffix from = Log_append_record (Truncate from)"

definition Log_mark_snapshot :: "snapshot_mark \<Rightarrow> (durable_log, log_error, log_plan) action" where
  "Log_mark_snapshot mark = Log_append_record (SnapshotMark mark)"

definition Log_commit :: "durable_log \<Rightarrow> lsn_range option \<times> durable_log" where
  "Log_commit l =
     (case Wal_commit (log_wal l) of
        (None, w) \<Rightarrow> (None, l\<lparr>log_wal := w\<rparr>)
      | (Some committed, w) \<Rightarrow> (Some committed, l\<lparr>log_wal := w, log_durable := log_staged l\<rparr>))"

section \<open>Recovery\<close>

text \<open>The \<open>match (&mut state, record)\<close> of both recovery loops.\<close>

fun admit_record :: "log_state option \<Rightarrow> durable_record \<Rightarrow> log_error + log_state" where
  "admit_record None (Genesis g) = res_bind (validate_genesis g) (\<lambda>_. Inr (LogState_initial g))"
| "admit_record None _ = Inl (LogInvalid ''genesis must be first'')"
| "admit_record (Some _) (Genesis _) = Inl (LogInvalid ''multiple genesis records'')"
| "admit_record (Some s) record = apply_record s record"

primrec replay_payloads :: "log_state option \<Rightarrow> bytes list \<Rightarrow> log_error + log_state option" where
  "replay_payloads state [] = Inr state"
| "replay_payloads state (payload # payloads) =
     res_bind (decode_durable_record payload) (\<lambda>record.
     res_bind (admit_record state record) (\<lambda>s. replay_payloads (Some s) payloads))"

record recovered_log =
  rl_state :: log_state
  rl_segments :: "segment_image list"
  rl_torn_tail_truncated :: bool

definition Log_recover :: "segment_image list \<Rightarrow> wal_config \<Rightarrow> (log_error, recovered_log) run" where
  "Log_recover images cfg =
     run_bind (run_map_err LogWal (recover (sort_key img_sequence images) cfg)) (\<lambda>recovered.
     run_bind (run_result (replay_payloads None (durable_payloads recovered))) (\<lambda>state.
       case state of
         None \<Rightarrow> Failed (LogInvalid ''missing genesis'')
       | Some s \<Rightarrow> Returned \<lparr>rl_state = s, rl_segments = rw_segments recovered,
                             rl_torn_tail_truncated = (rw_truncated_at recovered \<noteq> None)\<rparr>))"

definition Log_recover_expected ::
  "segment_image list \<Rightarrow> wal_config \<Rightarrow> genesis \<Rightarrow> (log_error, recovered_log) run" where
  "Log_recover_expected images cfg expected =
     run_bind (run_result (validate_genesis expected)) (\<lambda>_.
     run_bind (Log_recover images cfg) (\<lambda>recovered.
       if ls_genesis (rl_state recovered) \<noteq> expected
       then Failed (LogInvalid ''genesis does not match recovery configuration'')
       else Returned recovered))"

definition Log_recover_with_snapshots ::
  "segment_image list \<Rightarrow> wal_config \<Rightarrow> (nat, nat) bmap \<Rightarrow> (log_error, recovered_log) run" where
  "Log_recover_with_snapshots images cfg snapshots =
     run_bind (Log_recover images cfg) (\<lambda>recovered.
       case ls_snapshot (rl_state recovered) of
         None \<Rightarrow> Returned recovered
       | Some mark \<Rightarrow>
           if bmap_get snapshots (mark_generation mark) \<noteq> Some (mark_crc32c mark)
           then Failed (LogInvalid ''snapshot mark lacks durable snapshot'')
           else Returned recovered)"

section \<open>The framed record stream\<close>

definition encode_framed_durable_record :: "durable_record \<Rightarrow> (log_error, bytes) run" where
  "encode_framed_durable_record record =
     run_bind (encode_durable_record record) (\<lambda>bs.
       if u32_max < length bs then Failed (LogInvalid ''record too large'')
       else Returned (to_le 4 (length bs) @ bs))"

record recovered_stream =
  rs_state :: log_state
  rs_bytes_consumed :: nat
  rs_torn_tail_truncated :: bool

text \<open>
  The loop of \<open>recover_framed_record_stream\<close> on the bytes from \<open>cursor\<close> on: the state, the final
  cursor and the torn flag.
\<close>

function recover_frames ::
  "bytes \<Rightarrow> nat \<Rightarrow> log_state option \<Rightarrow> log_error + log_state option \<times> nat \<times> bool" where
  "recover_frames bs cursor state =
     (if length bs \<le> cursor then Inr (state, cursor, False)
      else if length bs < cursor + 4 then Inr (state, cursor, True)
      else let len = from_le (take 4 (drop cursor bs))
           in if len = 0 \<or> MAX_CODEC_BYTES < len then Inl (LogInvalid ''record length'')
              else let body_end = cursor + 4 + len
                   in if length bs < body_end then Inr (state, cursor, True)
                      else res_bind (decode_durable_record (take len (drop (cursor + 4) bs))) (\<lambda>record.
                           res_bind (admit_record state record) (\<lambda>s.
                             recover_frames bs body_end (Some s))))"
  by pat_completeness auto
termination
  by (relation "measure (\<lambda>(bs, cursor, _). length bs - cursor)") auto

declare recover_frames.simps [simp del]

definition recover_framed_record_stream :: "bytes \<Rightarrow> log_error + recovered_stream" where
  "recover_framed_record_stream bs =
     res_bind (recover_frames bs 0 None) (\<lambda>(state, cursor, torn).
       case state of
         None \<Rightarrow> Inl (LogInvalid ''missing genesis'')
       | Some s \<Rightarrow> Inr \<lparr>rs_state = s, rs_bytes_consumed = cursor, rs_torn_tail_truncated = torn\<rparr>)"

section \<open>The history is well-formed\<close>

text \<open>
  Entries follow the base without a gap.  Appending saturates the next index, so the last
  representable index is excluded.
\<close>

definition log_state_ok :: "log_state \<Rightarrow> bool" where
  "log_state_ok s \<longleftrightarrow>
     (\<forall>i < length (ls_entries s). e_index (ls_entries s ! i) = ls_base_index s + 1 + i) \<and>
     (case ls_snapshot s of None \<Rightarrow> ls_base_index s = 0
      | Some m \<Rightarrow> mark_index m = ls_base_index s \<and> mark_term m = ls_base_term s)"

lemma LogState_last_index_ok:
  "log_state_ok s \<Longrightarrow> LogState_last_index s = ls_base_index s + length (ls_entries s)"
  by (auto simp: LogState_last_index_def log_state_ok_def last_conv_nth)

lemma filter_index_take:
  "(\<forall>i < length es. e_index (es ! i) = b + i) \<Longrightarrow> filter (\<lambda>e. e_index e < from) es = take (from - b) es"
proof (induction es arbitrary: b)
  case (Cons e es)
  have hd: "e_index e = b" using Cons.prems[rule_format, of 0] by simp
  have "\<forall>i < length es. e_index (es ! i) = Suc b + i" using Cons.prems[rule_format, of "Suc _"] by auto
  then have "filter (\<lambda>e. e_index e < from) es = take (from - Suc b) es" by (rule Cons.IH)
  then show ?case using hd by (auto simp: take_Cons')
qed simp

lemma filter_index_drop:
  "(\<forall>i < length es. e_index (es ! i) = b + i) \<Longrightarrow> filter (\<lambda>e. m < e_index e) es = drop (Suc m - b) es"
proof (induction es arbitrary: b)
  case (Cons e es)
  have hd: "e_index e = b" using Cons.prems[rule_format, of 0] by simp
  have "\<forall>i < length es. e_index (es ! i) = Suc b + i" using Cons.prems[rule_format, of "Suc _"] by auto
  then have "filter (\<lambda>e. m < e_index e) es = drop (Suc m - Suc b) es" by (rule Cons.IH)
  then show ?case using hd by (auto simp: drop_Cons')
qed simp

lemma apply_snapshot_mark_ok:
  assumes ok: "log_state_ok s" and ap: "apply_snapshot_mark installed mark s = Inr s'"
  shows "log_state_ok s'"
proof -
  have s': "s' = s\<lparr>ls_entries := filter (\<lambda>e. mark_index mark < e_index e) (ls_entries s),
      ls_base_index := mark_index mark, ls_base_term := mark_term mark, ls_snapshot := Some mark\<rparr>"
    and ge: "ls_base_index s \<le> mark_index mark"
    using ap by (auto simp: apply_snapshot_mark_def split: if_splits)
  have "filter (\<lambda>e. mark_index mark < e_index e) (ls_entries s) = drop (mark_index mark - ls_base_index s) (ls_entries s)"
    using ok filter_index_drop[of "ls_entries s" "ls_base_index s + 1" "mark_index mark"] by (simp add: log_state_ok_def)
  then show ?thesis using ok ge by (auto simp: log_state_ok_def s')
qed

lemma apply_record_ok:
  assumes ok: "log_state_ok s" and bound: "LogState_last_index s < u64_max" and ap: "apply_record s r = Inr s'"
  shows "log_state_ok s'"
proof (cases r)
  case (Append e)
  then have "e_index e = ls_base_index s + 1 + length (ls_entries s)" "s' = s\<lparr>ls_entries := ls_entries s @ [e]\<rparr>"
    using ap bound LogState_last_index_ok[OF ok] by (auto simp: sat_add_def split: if_splits)
  then show ?thesis using ok by (auto simp: log_state_ok_def nth_append less_Suc_eq split: option.splits)
next
  case (Truncate k)
  then have "s' = s\<lparr>ls_entries := take (k - (ls_base_index s + 1)) (ls_entries s)\<rparr>"
    using ap ok filter_index_take[of "ls_entries s" "ls_base_index s + 1" k]
    by (auto simp: log_state_ok_def split: if_splits)
  then show ?thesis using ok by (auto simp: log_state_ok_def split: option.splits)
next
  case (Hard h)
  then have "s' = s\<lparr>ls_hard_state := h\<rparr>" using ap by (simp split: if_splits)
  then show ?thesis using ok by (simp add: log_state_ok_def cong: option.case_cong)
qed (use ok ap apply_snapshot_mark_ok in simp_all)

section \<open>The record round trip\<close>

definition genesis_ok :: "genesis \<Rightarrow> bool" where
  "genesis_ok g \<longleftrightarrow> length (gn_cluster_id g) = 16 \<and> membership_ok (gn_membership g)"

definition hard_ok :: "hard_state \<Rightarrow> bool" where
  "hard_ok h \<longleftrightarrow> hs_term h < 2 ^ 64 \<and>
     (case hs_voted_for h of None \<Rightarrow> True | Some v \<Rightarrow> 0 < v \<and> v < 2 ^ 64)"

definition entry_fits :: "entry \<Rightarrow> bool" where
  "entry_fits e \<longleftrightarrow> e_term e < 2 ^ 64 \<and> e_index e < 2 ^ 64"

definition mark_ok :: "snapshot_mark \<Rightarrow> bool" where
  "mark_ok m \<longleftrightarrow> mark_index m < 2 ^ 64 \<and> mark_term m < 2 ^ 64 \<and> mark_generation m < 2 ^ 64 \<and>
     mark_crc32c m < 2 ^ 32"

text \<open>The values the fields of a record can have in the source, by their types.\<close>

fun durable_record_ok :: "durable_record \<Rightarrow> bool" where
  "durable_record_ok (Genesis g) = genesis_ok g"
| "durable_record_ok (Hard h) = hard_ok h"
| "durable_record_ok (Append e) = entry_fits e"
| "durable_record_ok (Truncate from) \<longleftrightarrow> from < 2 ^ 64"
| "durable_record_ok (SnapshotMark m) = mark_ok m"
| "durable_record_ok (InstalledSnapshotMark m) = mark_ok m"

lemma Origin_roundtrip [simp]: "Origin_decode (Origin_byte x) = Inr x"
  by (cases x) (simp_all add: Origin_decode_def)

lemma dresult_run [simp]: "dresult (Inr x) d = Inr (x, d)"
  by (simp add: dresult_def)

lemma encode_entry_Returned:
  "encode_entry e = Returned b \<longleftrightarrow> length (e_payload e) \<le> MAX_CODEC_BYTES \<and>
     b = enc_u64 (e_term e) @ enc_u64 (e_index e) @ enc_u8 (EntryKind_byte (e_kind e)) @ enc_bytes (e_payload e)"
  by (auto simp: encode_entry_def)

lemma decode_entry_ok:
  assumes "encode_entry e = Returned b" and "entry_fits e" and "0 < e_index e"
    and "e_kind e \<noteq> AppV3" and "e_kind e \<noteq> ConfigV3"
  shows "decode_entry (dec_at p (b @ s)) = Inr (e, dec_at (p @ b) s)"
  using assms
  by (cases "e_kind e")
    (auto simp: encode_entry_Returned decode_entry_def entry_fits_def decode_simps EntryKind_byte_def
      enc_bytes_ok_def)

lemma decode_entry_v3_ok:
  assumes "encode_entry_v3 e = Returned b" and "entry_fits e" and "0 < e_index e"
  shows "decode_entry_v3 (dec_at p (b @ s)) = Inr (e, dec_at (p @ b) s)"
proof -
  have v: "SEMANTIC_VERSION_V3 < 2 ^ 16" by (simp add: SEMANTIC_VERSION_V3_def)
  have f: "unat ATOMIC_BATCH_FEATURE < 2 ^ 64" by simp
  have nz: "unat ATOMIC_BATCH_FEATURE \<noteq> 0" by (simp add: ATOMIC_BATCH_FEATURE_def)
  show ?thesis
    using assms v f nz
    by (cases "e_kind e")
      (auto simp: encode_entry_v3_def decode_entry_v3_def entry_fits_def decode_simps EntryKind_byte_def
        enc_bytes_ok_def split: if_splits)
qed

lemma decode_mark_ok:
  "mark_ok m \<Longrightarrow> 0 < mark_index m \<Longrightarrow>
   decode_mark c (dec_at p (encode_mark m @ s)) = Inr (c m, dec_at (p @ encode_mark m) s)"
  by (cases m) (simp add: decode_mark_def encode_mark_def mark_ok_def decode_simps)

lemma decode_hard_ok:
  "hard_ok h \<Longrightarrow>
   decode_hard (dec_at p (enc_u64 (hs_term h)
        @ enc_u64 (case hs_voted_for h of None \<Rightarrow> 0 | Some voter \<Rightarrow> voter) @ s))
     = Inr (Hard h, dec_at (p @ enc_u64 (hs_term h)
        @ enc_u64 (case hs_voted_for h of None \<Rightarrow> 0 | Some voter \<Rightarrow> voter)) s)"
  by (cases "hs_voted_for h") (auto simp: decode_hard_def hard_ok_def decode_simps)

lemma drepeat_u8: "length bs = n \<Longrightarrow> drepeat n dec_u8 (dec_at p (bs @ s)) = Inr (bs, dec_at (p @ bs) s)"
  using u8_wire.repeat_decode[of bs p s] by simp

lemma decode_genesis_ok:
  assumes "genesis_ok g" and "record_body (Genesis g) = Returned body"
  shows "\<exists>b. body = enc_u8 1 @ b \<and> decode_genesis (dec_at p (b @ s)) = Inr (Genesis g, dec_at (p @ b) s)"
proof -
  from assms(1) MembershipState_roundtrip obtain mb where
    mb: "MembershipState_encode (gn_membership g) = Inr mb" "MembershipState_decode mb = Inr (gn_membership g)"
    by (auto simp: genesis_ok_def)
  from assms(2) have val: "validate_genesis g = Inr ()"
    by (auto simp: run_bind_Returned_iff)
  then have "ClusterPolicy_validate (gn_policy g) = Inr ()"
    by (auto simp: validate_genesis_def res_bind_Inr_iff split: if_splits)
      (metis map_err.simps(1) old.unit.exhaust sum.distinct(1) sum.exhaust)
  then have pol: "ClusterPolicy_decode (ClusterPolicy_encode (gn_policy g)) = Inr (gn_policy g)"
    by (rule ClusterPolicy_decode_encode)
  have ok: "enc_bytes_ok (ClusterPolicy_encode (gn_policy g))" "enc_bytes_ok mb"
    using assms(2) mb by (auto simp: run_bind_Returned_iff enc_bytes_checked_def split: if_splits)
  have body: "body = enc_u8 1 @ enc_u8 (Origin_byte (gn_origin g)) @ gn_cluster_id g
      @ enc_bytes (ClusterPolicy_encode (gn_policy g)) @ enc_bytes mb"
    using assms(2) mb ok val by (simp add: enc_bytes_checked_def)
  show ?thesis
    unfolding body using assms(1) mb pol ok
    by (simp add: decode_genesis_def decode_simps drepeat_u8 genesis_ok_def)
qed

lemma record_fields_ok:
  assumes ok: "durable_record_ok r" and body: "record_body r = Returned b"
  shows "record_fields (dec_at [] (enc_header LOG_RECORD_MAGIC LOG_RECORD_VERSION @ b))
    = Inr (r, dec_at (enc_header LOG_RECORD_MAGIC LOG_RECORD_VERSION @ b) [])"
proof -
  let ?h = "enc_header LOG_RECORD_MAGIC LOG_RECORD_VERSION"
  have hd: "LOG_RECORD_MAGIC < 2 ^ 32" "LOG_RECORD_VERSION < 2 ^ 16"
    by (simp_all add: LOG_RECORD_MAGIC_def LOG_RECORD_VERSION_def magic_less)
  have step: "record_fields (dec_at [] (?h @ enc_u8 tag @ c)) =
     (if tag = 1 then decode_genesis
       else if tag = 2 then decode_hard
       else if tag = 3 then dbind decode_entry (\<lambda>entry. dret (Append entry))
       else if tag = 4 then decode_truncate
       else if tag = 5 then decode_mark SnapshotMark
       else if tag = 6 then decode_mark InstalledSnapshotMark
       else if tag = 7 then dbind decode_entry_v3 (\<lambda>entry. dret (Append entry))
       else dfail (LogInvalidTag tag)) (dec_at (?h @ enc_u8 tag) c)" for tag c
    using header_decode[OF hd, of "[]"] u8_wire.decode_encode[of ?h tag c]
    by (simp add: record_fields_def dbind_def dlift_def)
  show ?thesis
  proof (cases r)
    case (Genesis g)
    with decode_genesis_ok[of g b "?h @ enc_u8 1" "[]"] ok body show ?thesis by (auto simp: step)
  next
    case (Hard h)
    with ok body decode_hard_ok[of h "?h @ enc_u8 2" "[]"] show ?thesis by (auto simp: step)
  next
    case (Append e)
    show ?thesis
    proof (cases "e_kind e = AppV3 \<or> e_kind e = ConfigV3")
      case True
      with Append body obtain c where c: "encode_entry_v3 e = Returned c" "b = enc_u8 7 @ c" "0 < e_index e"
        by (auto simp: run_bind_Returned_iff split: if_splits)
      with decode_entry_v3_ok[OF c(1) _ c(3), of "?h @ enc_u8 7" "[]"] ok Append show ?thesis
        by (simp add: step dbind_def)
    next
      case False
      with Append body obtain c where c: "encode_entry e = Returned c" "b = enc_u8 3 @ c" "0 < e_index e"
        by (auto simp: run_bind_Returned_iff split: if_splits)
      with decode_entry_ok[OF c(1) _ c(3), of "?h @ enc_u8 3" "[]"] ok Append False show ?thesis
        by (simp add: step dbind_def)
    qed
  next
    case (Truncate n)
    with ok body show ?thesis by (auto simp: step decode_truncate_def decode_simps split: if_splits)
  next
    case (SnapshotMark m)
    with ok body decode_mark_ok[of m SnapshotMark "?h @ enc_u8 5" "[]"] show ?thesis
      by (auto simp: step split: if_splits)
  next
    case (InstalledSnapshotMark m)
    with ok body decode_mark_ok[of m InstalledSnapshotMark "?h @ enc_u8 6" "[]"] show ?thesis
      by (auto simp: step split: if_splits)
  qed
qed

lemma durable_record_roundtrip:
  assumes "durable_record_ok r" and "encode_durable_record r = Returned bs"
  shows "decode_durable_record bs = Inr r"
proof -
  from assms(2) obtain b where b: "record_body r = Returned b"
    and bs: "bs = seal (enc_header LOG_RECORD_MAGIC LOG_RECORD_VERSION @ b)"
    by (auto simp: encode_durable_record_def run_bind_Returned_iff)
  have "take (length bs - 4) bs = enc_header LOG_RECORD_MAGIC LOG_RECORD_VERSION @ b"
    unfolding bs by (rule seal_body)
  then show ?thesis
    using decode_all_ok[where m = record_fields, OF record_fields_ok[OF assms(1) b]] by (simp add: decode_durable_record_def bs Let_def)
qed

section \<open>The planner and the history of its records\<close>

primrec replay :: "log_state option \<Rightarrow> durable_record list \<Rightarrow> log_error + log_state option" where
  "replay state [] = Inr state"
| "replay state (r # rs) = res_bind (admit_record state r) (\<lambda>s. replay (Some s) rs)"

lemma replay_append: "replay st (xs @ ys) = res_bind (replay st xs) (\<lambda>s. replay s ys)"
proof (induction xs arbitrary: st)
  case (Cons x xs)
  then show ?case by (cases "admit_record st x") simp_all
qed simp

definition payload_of :: "log_record \<Rightarrow> durable_record \<Rightarrow> bool" where
  "payload_of w r \<longleftrightarrow> rec_kind w = Data \<and> decode_durable_record (rec_payload w) = Inr r"

lemma replay_payloads_of:
  "list_all2 payload_of ws rs \<Longrightarrow> replay_payloads st (map rec_payload ws) = replay st rs"
  by (induction ws rs arbitrary: st rule: list_all2_induct) (simp_all add: payload_of_def)

lemma payloads_of_data:
  "list_all2 payload_of ws rs \<Longrightarrow> filter (\<lambda>r. rec_kind r = Data) (kept ws) = ws"
  by (induction ws rs rule: list_all2_induct) (simp_all add: payload_of_def)

text \<open>
  \<open>log_run cfg l rs n\<close>: the planner \<open>l\<close> is reached from a fresh log; \<open>rs\<close> are the records it
  accepted and \<open>n\<close> of them had been written when the last commit completed.  A record that
  \<open>apply_record\<close> rejects is refused and leaves no trace.
\<close>

inductive log_run :: "wal_config \<Rightarrow> durable_log \<Rightarrow> durable_record list \<Rightarrow> nat \<Rightarrow> bool" for cfg where
  log_run_fresh: "Log_fresh cfg g = Returned (l, plan) \<Longrightarrow> genesis_ok g \<Longrightarrow> log_run cfg l [Genesis g] 0"
| log_run_append: "log_run cfg l rs n \<Longrightarrow> \<forall>g. r \<noteq> Genesis g \<Longrightarrow> durable_record_ok r \<Longrightarrow>
     Log_append_record r l = (Returned plan, l') \<Longrightarrow> log_run cfg l' (rs @ [r]) n"
| log_run_reject: "log_run cfg l rs n \<Longrightarrow> \<forall>g. r \<noteq> Genesis g \<Longrightarrow> apply_record (log_staged l) r = Inl e \<Longrightarrow>
     Log_append_record r l = (x, l') \<Longrightarrow> log_run cfg l' rs n"
| log_run_commit: "log_run cfg l rs n \<Longrightarrow> Log_commit l = (c, l') \<Longrightarrow> log_run cfg l' rs (length rs)"

definition log_inv :: "wal_config \<Rightarrow> durable_log \<Rightarrow> durable_record list \<Rightarrow> nat \<Rightarrow> bool" where
  "log_inv cfg l rs n \<longleftrightarrow>
     rs \<noteq> [] \<and> wal_run cfg (log_wal l) n \<and> list_all2 payload_of (wal_records (log_wal l)) rs \<and>
     replay None rs = Inr (Some (log_staged l)) \<and>
     (0 < n \<longrightarrow> replay None (take n rs) = Inr (Some (log_durable l)))"

lemma admit_some: "\<forall>g. r \<noteq> Genesis g \<Longrightarrow> admit_record (Some s) r = apply_record s r"
  by (cases r) simp_all

text \<open>A record that reaches the write-ahead log: what the three stages of \<open>append_record\<close> did.\<close>

lemma Log_write_Returned:
  "Log_write r bs l = (Returned plan, l') \<longleftrightarrow>
     (\<exists>lr w. Wal_append Data bs (log_wal l) = (Returned lr, w) \<and>
        plan = \<lparr>lp_lsn = lr, lp_record = r\<rparr> \<and> l' = l\<lparr>log_wal := w\<rparr>)"
  by (cases "Wal_append Data bs (log_wal l)") (auto simp: Log_write_def run_bind_Returned_iff)

lemma Log_append_record_eq:
  "\<forall>g. r \<noteq> Genesis g \<Longrightarrow> Log_append_record r l =
     (case apply_record (log_staged l) r of
        Inl e \<Rightarrow> (Failed e, l)
      | Inr s \<Rightarrow> act (act_run (encode_durable_record r)) (Log_write r) (l\<lparr>log_staged := s\<rparr>))"
  by (cases r) (simp_all add: Log_append_record_def act_def split: sum.splits)

lemma Log_append_recordE:
  assumes "Log_append_record r l = (Returned plan, l')" and "\<forall>g. r \<noteq> Genesis g"
  obtains s bs lr w where "apply_record (log_staged l) r = Inr s" "encode_durable_record r = Returned bs"
    "Wal_append Data bs (log_wal l) = (Returned lr, w)" "l' = l\<lparr>log_staged := s, log_wal := w\<rparr>"
  using assms
  by (auto simp: Log_append_record_eq act_Returned_iff Log_write_Returned split: sum.splits)

lemma wal_append_records:
  assumes "wal_run cfg w n" and "segment_size cfg \<le> u32_max" and "Wal_append k p w = (Returned lr, w')"
  shows "wal_run cfg w' n \<and> (\<exists>lsn. wal_records w' = wal_records w @ [\<lparr>rec_lsn = lsn, rec_kind = k, rec_payload = p\<rparr>])"
  using Wal_append_cases[of w n k p "Returned lr" w'] wal_run_layout[OF assms(1,2)] assms(3)
    wal_run.run_append[OF assms(1,3)] by auto

lemma wal_run_bound:
  "wal_run cfg w n \<Longrightarrow> segment_size cfg \<le> u32_max \<Longrightarrow> n \<le> length (wal_records w)"
  using wal_run_layout by (auto simp: wal_layout_def)

lemma log_inv_append:
  assumes inv: "log_inv cfg l rs n" and ss: "segment_size cfg \<le> u32_max"
    and r: "\<forall>g. r \<noteq> Genesis g" "durable_record_ok r"
    and app: "Log_append_record r l = (Returned plan, l')"
  shows "log_inv cfg l' (rs @ [r]) n"
proof -
  from app r(1) obtain s bs lr w where s: "apply_record (log_staged l) r = Inr s"
    and bs: "encode_durable_record r = Returned bs" and w: "Wal_append Data bs (log_wal l) = (Returned lr, w)"
    and l': "l' = l\<lparr>log_staged := s, log_wal := w\<rparr>"
    by (rule Log_append_recordE)
  have run: "wal_run cfg (log_wal l) n" using inv by (simp add: log_inv_def)
  from wal_append_records[OF run ss w] obtain lsn where run': "wal_run cfg w n"
    and recs: "wal_records w = wal_records (log_wal l) @ [\<lparr>rec_lsn = lsn, rec_kind = Data, rec_payload = bs\<rparr>]"
    by blast
  have "payload_of \<lparr>rec_lsn = lsn, rec_kind = Data, rec_payload = bs\<rparr> r"
    using durable_record_roundtrip[OF r(2) bs] by (simp add: payload_of_def)
  moreover have "n \<le> length rs"
    using wal_run_bound[OF run ss] inv by (auto simp: log_inv_def dest: list_all2_lengthD)
  ultimately show ?thesis
    using inv run' recs s admit_some[OF r(1)]
    by (simp add: log_inv_def l' replay_append list_all2_appendI)
qed

lemma log_inv_commit:
  assumes inv: "log_inv cfg l rs n" and ss: "segment_size cfg \<le> u32_max" and c: "Log_commit l = (c, l')"
  shows "log_inv cfg l' rs (length rs)"
proof -
  obtain r w where w: "Wal_commit (log_wal l) = (r, w)" by fastforce
  have run: "wal_run cfg (log_wal l) n" and all: "list_all2 payload_of (wal_records (log_wal l)) rs" and ne: "rs \<noteq> []"
    using inv by (simp_all add: log_inv_def)
  have len: "length (wal_records (log_wal l)) = length rs" using all by (rule list_all2_lengthD)
  have recs: "wal_records w = wal_records (log_wal l)" using Wal_commit_segments(3)[of "log_wal l"] w by simp
  have run': "wal_run cfg w (length rs)" using wal_run.run_commit[OF run w] recs len by simp
  show ?thesis
  proof (cases "wal_pending_first (log_wal l) = None")
    case True
    then have "n = length rs" using wal_run_pending[OF run ss] len by simp
    moreover have "r = None" using w True by (simp add: Wal_commit_def Wal_flush_def Let_def)
    then have "l' = l\<lparr>log_wal := w\<rparr>" using c w by (simp add: Log_commit_def)
    ultimately show ?thesis using inv run' recs by (auto simp: log_inv_def)
  next
    case False
    have "wal_records (log_wal l) \<noteq> []" using len ne by auto
    then have "r \<noteq> None" using w False by (auto simp: Wal_commit_def Wal_flush_def Let_def)
    then have "l' = l\<lparr>log_wal := w, log_durable := log_staged l\<rparr>" using c w by (auto simp: Log_commit_def)
    then show ?thesis using inv run' recs by (simp add: log_inv_def)
  qed
qed

lemma log_inv_fresh:
  assumes f: "Log_fresh cfg g = Returned (l, plan)" and g: "genesis_ok g" and ss: "segment_size cfg \<le> u32_max"
  shows "log_inv cfg l [Genesis g] 0"
proof -
  let ?s = "LogState_initial g"
  from f obtain w where val: "validate_genesis g = Inr ()" and w: "Wal_new cfg = Returned w"
    and app: "Log_append_record (Genesis g) \<lparr>log_wal = w, log_durable = ?s, log_staged = ?s\<rparr> = (Returned plan, l)"
    by (auto simp: Log_fresh_def run_bind_Returned_iff case_prod_unfold prod_eq_iff)
  from app obtain bs lr w' where bs: "encode_durable_record (Genesis g) = Returned bs"
    and w': "Wal_append Data bs w = (Returned lr, w')" and l: "l = \<lparr>log_wal = w', log_durable = ?s, log_staged = ?s\<rparr>"
    by (auto simp: Log_append_record_def act_Returned_iff Log_write_Returned)
  have run: "wal_run cfg w 0" using w by (rule wal_run.run_new)
  have "wal_records w = []" using w by (auto simp: Wal_new_def split: if_splits)
  with wal_append_records[OF run ss w'] obtain lsn where "wal_run cfg w' 0"
    and "wal_records w' = [\<lparr>rec_lsn = lsn, rec_kind = Data, rec_payload = bs\<rparr>]" by auto
  moreover have "decode_durable_record bs = Inr (Genesis g)"
    using durable_record_roundtrip[OF _ bs] g by simp
  ultimately show ?thesis using val by (simp add: log_inv_def l payload_of_def)
qed

lemma log_run_inv:
  assumes "log_run cfg l rs n" and "segment_size cfg \<le> u32_max"
  shows "log_inv cfg l rs n"
  using assms
proof (induction rule: log_run.induct)
  case (log_run_reject l rs n r e x l')
  then have "l' = l" by (simp add: Log_append_record_eq)
  then show ?case using log_run_reject by simp
qed (auto intro: log_inv_fresh log_inv_append log_inv_commit)

section \<open>Recovery of the durable images\<close>

lemma images_hold_sorted: "images_hold mx i ims gs \<Longrightarrow> sorted (map img_sequence ims) \<and> (\<forall>im \<in> set ims. i \<le> img_sequence im)"
  by (induction mx i ims gs rule: images_hold.induct) (auto simp: image_holds_def)

lemma Log_recover_history:
  assumes inv: "wal_run cfg w n" "list_all2 payload_of (wal_records w) rs" and ss: "segment_size cfg \<le> u32_max"
  shows "\<exists>segs. Log_recover (durable_images w) cfg =
     run_bind (run_result (replay None (take n rs))) (\<lambda>state. case state of
         None \<Rightarrow> Failed (LogInvalid ''missing genesis'')
       | Some s \<Rightarrow> Returned \<lparr>rl_state = s, rl_segments = segs, rl_torn_tail_truncated = False\<rparr>)"
proof -
  from wal_run_layout[OF inv(1) ss] obtain ds where "images_hold (max_record_size cfg) 0 (durable_images w) ds"
    by (auto simp: wal_layout_def)
  then have "sort_key img_sequence (durable_images w) = durable_images w"
    using images_hold_sorted by (intro sort_key_id_if_sorted) blast
  moreover from wal_run_recover_durable[OF inv(1) ss] obtain segs where
    "recover (durable_images w) cfg = Returned \<lparr>rw_records = kept (take n (wal_records w)),
     rw_segments = segs, rw_truncated_at = None\<rparr>" by blast
  moreover have all: "list_all2 payload_of (take n (wal_records w)) (take n rs)"
    using inv(2) by (rule list_all2_takeI)
  ultimately show ?thesis
    using replay_payloads_of[OF all, of None] payloads_of_data[OF all]
    by (intro exI[of _ segs]) (simp add: Log_recover_def durable_payloads_def cong: option.case_cong)
qed

lemma log_run_recover:
  assumes run: "log_run cfg l rs n" and ss: "segment_size cfg \<le> u32_max" and n: "0 < n"
  shows "\<exists>segs. Log_recover (durable_images (log_wal l)) cfg =
     Returned \<lparr>rl_state = log_durable l, rl_segments = segs, rl_torn_tail_truncated = False\<rparr>"
proof -
  have inv: "log_inv cfg l rs n" using run ss by (rule log_run_inv)
  then have w: "wal_run cfg (log_wal l) n" "list_all2 payload_of (wal_records (log_wal l)) rs"
    and d: "replay None (take n rs) = Inr (Some (log_durable l))"
    using n by (simp_all add: log_inv_def)
  from Log_recover_history[OF w ss] d show ?thesis by auto
qed

text \<open>
  \<open>append_record\<close> stages a record before the write-ahead log accepts it.  When the write-ahead log
  refuses an entry that was staged, the next entry follows an entry that was never written, and
  what the following commit makes durable no longer recovers.
\<close>

lemma refused_append_breaks_recovery:
  assumes run: "log_run cfg l rs n" and ss: "segment_size cfg \<le> u32_max"
    and a1: "Log_append e1 l = (Failed (LogWal err), l1)"
    and a2: "Log_append e2 l1 = (Returned plan, l2)"
    and e2: "entry_fits e2" and e1: "e_index e1 < u64_max"
    and c: "Log_commit l2 = (r, l3)"
  shows "Log_recover (durable_images (log_wal l3)) cfg
      = Failed (LogInvalid ''append index is not contiguous'') \<and>
     log_durable l3 = log_staged l2 \<and> last (ls_entries (log_durable l3)) = e2"
proof -
  have inv: "log_inv cfg l rs n" using run ss by (rule log_run_inv)
  then have w: "wal_run cfg (log_wal l) n" and all: "list_all2 payload_of (wal_records (log_wal l)) rs"
    and st: "replay None rs = Inr (Some (log_staged l))" and ne: "rs \<noteq> []"
    by (simp_all add: log_inv_def)
  have ap: "\<forall>g. Append e \<noteq> Genesis g" for e by simp
  have not_wal: "apply_record s (Append e) \<noteq> Inl (LogWal x)" for s e x by simp
  from a1 obtain s1 bs1 where s1: "apply_record (log_staged l) (Append e1) = Inr s1"
      and bs1: "encode_durable_record (Append e1) = Returned bs1"
      and w1: "Log_write (Append e1) bs1 (l\<lparr>log_staged := s1\<rparr>) = (Failed (LogWal err), l1)"
    by (auto simp: Log_append_def Log_append_record_eq act_Failed_iff not_wal encode_durable_record_def
        encode_entry_def encode_entry_v3_def Let_def
        simp del: apply_record.simps split: sum.splits if_splits entry_kind.splits)
  from w1 obtain w' where wf: "Wal_append Data bs1 (log_wal l) = (Failed err, w')" and l1: "l1 = l\<lparr>log_staged := s1, log_wal := w'\<rparr>"
    by (cases "Wal_append Data bs1 (log_wal l)"; cases "fst (Wal_append Data bs1 (log_wal l))")
      (auto simp: Log_write_def)
  have lay: "wal_layout True (log_wal l) n" using wal_run_layout[OF w ss] by simp
  have w': "w' = log_wal l" using Wal_append_cases[OF lay wf] by simp
  from a2[unfolded Log_append_def] ap obtain s2 bs2 lr w2 where s2: "apply_record (log_staged l1) (Append e2) = Inr s2"
      and bs2: "encode_durable_record (Append e2) = Returned bs2"
      and wa: "Wal_append Data bs2 (log_wal l1) = (Returned lr, w2)" and l2: "l2 = l1\<lparr>log_staged := s2, log_wal := w2\<rparr>"
    by (rule Log_append_recordE)
  from wal_append_records[OF w ss, of Data bs2 lr w2] wa l1 w' obtain lsn where run2: "wal_run cfg w2 n"
      and recs2: "wal_records w2 = wal_records (log_wal l) @ [\<lparr>rec_lsn = lsn, rec_kind = Data, rec_payload = bs2\<rparr>]"
    by auto
  have "decode_durable_record bs2 = Inr (Append e2)" using e2 bs2 by (intro durable_record_roundtrip) simp_all
  then have all2: "list_all2 payload_of (wal_records w2) (rs @ [Append e2])"
    using all recs2 by (simp add: list_all2_appendI payload_of_def)
  have idx: "e_index e1 = LogState_last_index (log_staged l) + 1"
    using s1 e1 by (auto simp: sat_add_def split: if_splits)
  have idx2: "e_index e2 = e_index e1 + 1" and last: "last (ls_entries s2) = e2"
    using s1 s2 e1 by (auto simp: l1 LogState_last_index_def sat_add_def split: if_splits)
  have stuck: "replay None (rs @ [Append e2]) = Inl (LogInvalid ''append index is not contiguous'')"
    using st idx idx2 by (simp add: replay_append sat_add_def)
  obtain x w3 where w3: "Wal_commit w2 = (x, w3)" by fastforce
  have run3: "wal_run cfg w3 (length (rs @ [Append e2]))" and recs3: "wal_records w3 = wal_records w2"
    using wal_run.run_commit[OF run2 w3] Wal_commit_segments(3)[of w2] w3 list_all2_lengthD[OF all2] by simp_all
  have "x \<noteq> None"
    using w3 Wal_append_pending[of Data bs2 "log_wal l1" lr w2] wa recs2
    by (auto simp: Wal_commit_def Wal_flush_def Let_def split: option.splits)
  then have l3: "l3 = l2\<lparr>log_wal := w3, log_durable := log_staged l2\<rparr>"
    using c w3 by (auto simp: Log_commit_def l2)
  from Log_recover_history[OF run3 _ ss, of "rs @ [Append e2]"] all2 recs3 stuck
  show ?thesis by (simp add: l3 l2 last)
qed

section \<open>Recovery of a framed stream\<close>

definition frame_of :: "bytes \<Rightarrow> bytes" where
  "frame_of bs = to_le 4 (length bs) @ bs"

definition frame_ok :: "bytes \<Rightarrow> bool" where
  "frame_ok bs \<longleftrightarrow> 0 < length bs \<and> length bs \<le> MAX_CODEC_BYTES"

definition frames_of :: "bytes list \<Rightarrow> bytes" where
  "frames_of bss = concat (map frame_of bss)"

lemma frames_of_simps [simp]: "frames_of [] = []" "frames_of (b # bs) = frame_of b @ frames_of bs"
  by (simp_all add: frames_of_def)

lemma length_frame_of [simp]: "length (frame_of bs) = 4 + length bs"
  by (simp add: frame_of_def)

lemma frame_length_field: "frame_ok b \<Longrightarrow> from_le (take 4 (frame_of b @ rest)) = length b"
  using MAX_CODEC_less[of "length b"] by (simp add: frame_of_def frame_ok_def)

lemma recover_frames_step:
  assumes "frame_ok b"
  shows "recover_frames (pre @ frame_of b @ rest) (length pre) st =
     res_bind (decode_durable_record b) (\<lambda>record. res_bind (admit_record st record) (\<lambda>s.
       recover_frames ((pre @ frame_of b) @ rest) (length (pre @ frame_of b)) (Some s)))"
  using assms frame_length_field[OF assms, of rest]
  by (subst recover_frames.simps) (simp add: frame_ok_def frame_of_def Let_def add.assoc)

lemma recover_frames_prefix:
  assumes "\<forall>b \<in> set bss. frame_ok b" and "list_all2 (\<lambda>b r. decode_durable_record b = Inr r) bss rs"
    and "replay st rs = Inr st'"
  shows "recover_frames (pre @ frames_of bss @ rest) (length pre) st
     = recover_frames (pre @ frames_of bss @ rest) (length (pre @ frames_of bss)) st'"
  using assms(2,1,3)
proof (induction bss rs arbitrary: pre st rule: list_all2_induct)
  case (Cons b bss r rs)
  from Cons.prems(2) obtain s where s: "admit_record st r = Inr s" and rs: "replay (Some s) rs = Inr st'"
    by (auto simp: res_bind_Inr_iff)
  have "recover_frames (pre @ frames_of (b # bss) @ rest) (length pre) st
      = recover_frames ((pre @ frame_of b) @ frames_of bss @ rest) (length (pre @ frame_of b)) (Some s)"
    using recover_frames_step[of b pre "frames_of bss @ rest" st] Cons.prems(1) Cons.hyps(1) s by simp
  also have "\<dots> = recover_frames ((pre @ frame_of b) @ frames_of bss @ rest) (length ((pre @ frame_of b) @ frames_of bss)) st'"
    using Cons.prems(1) rs by (intro Cons.IH) simp_all
  finally show ?case by simp
qed simp

lemma recover_frames_torn:
  assumes "frame_ok b" and "frame_of b = q @ missing" and "missing \<noteq> []"
  shows "recover_frames (pre @ q) (length pre) st = Inr (st, length pre, q \<noteq> [])"
proof -
  have len: "length q < 4 + length b"
    using arg_cong[OF assms(2), of length] assms(3) by (cases missing) simp_all
  show ?thesis
  proof (cases "length q < 4")
    case True
    then show ?thesis by (subst recover_frames.simps) auto
  next
    case False
    have "from_le (take 4 q) = length b"
      using frame_length_field[OF assms(1), of "[]"] False assms(2) by simp
    then show ?thesis using False len assms(1)
      by (subst recover_frames.simps) (auto simp: frame_ok_def Let_def)
  qed
qed

lemma recover_framed_prefix:
  assumes ok: "\<forall>b \<in> set bss. frame_ok b" and dec: "list_all2 (\<lambda>b r. decode_durable_record b = Inr r) bss rs"
    and st: "replay None rs = Inr (Some s)"
    and torn: "frame_ok b" "frame_of b = q @ missing" "missing \<noteq> []"
  shows "recover_framed_record_stream (frames_of bss @ q)
    = Inr \<lparr>rs_state = s, rs_bytes_consumed = length (frames_of bss), rs_torn_tail_truncated = (q \<noteq> [])\<rparr>"
proof -
  have "recover_frames (frames_of bss @ q) 0 None = Inr (Some s, length (frames_of bss), q \<noteq> [])"
    using recover_frames_prefix[OF ok dec st, of "[]" q] recover_frames_torn[OF torn, of "frames_of bss" "Some s"]
    by simp
  then show ?thesis by (simp add: recover_framed_record_stream_def)
qed

text \<open>A record longer than the codec bound can be framed, and no stream with its frame recovers.\<close>

lemma oversized_frame_unrecoverable:
  assumes ok: "\<forall>b \<in> set bss. frame_ok b" and dec: "list_all2 (\<lambda>b r. decode_durable_record b = Inr r) bss rs"
    and st: "replay None rs = Inr s"
    and big: "encode_framed_durable_record r = Returned f" "encode_durable_record r = Returned b"
      "MAX_CODEC_BYTES < length b"
  shows "recover_framed_record_stream (frames_of bss @ f @ rest) = Inl (LogInvalid ''record length'')"
proof -
  have f: "f = frame_of b" and len: "length b \<le> u32_max"
    using big by (auto simp: encode_framed_durable_record_def frame_of_def split: if_splits)
  have "from_le (take 4 (f @ rest)) = length b" using len by (simp add: f frame_of_def u32_max_def)
  then have "recover_frames (frames_of bss @ f @ rest) (length (frames_of bss)) s = Inl (LogInvalid ''record length'')"
    using big(3) by (subst recover_frames.simps) (simp add: f Let_def)
  then show ?thesis
    using recover_frames_prefix[OF ok dec st, of "[]" "f @ rest"] by (simp add: recover_framed_record_stream_def)
qed

end
