(* ===== verification/Store.thy ===== *)
theory Store
  imports Wal "HOL-Library.List_Lexorder" "HOL-Library.Product_Lexorder"
begin

text \<open>
  The LSM store of \<open>crates/cc-store/src/lib.rs\<close>: internal keys and their order, memtables, Bloom
  filters, tables, the manifest, and the \<open>Store\<close> itself with its writes, reads, snapshots, flush
  and compaction.  Tables of the second storage format are read only through a block source and
  are not part of this state.

  The lemmas show that a read returns the newest version in the store whatever memtable or table
  holds it, so that writes act as updates of a map and flush and compaction do not change it.
\<close>

unbundle bit_operations_syntax

section \<open>Keys, configuration and errors\<close>

definition Store_FORMAT_VERSION :: nat where "Store_FORMAT_VERSION = 1"
definition SST_MAGIC :: nat where "SST_MAGIC = from_le [0x43, 0x43, 0x53, 0x54]"
definition META_MAGIC :: nat where "META_MAGIC = from_le [0x43, 0x43, 0x4d, 0x54]"
definition DEFAULT_MEMTABLE_BYTES :: nat where "DEFAULT_MEMTABLE_BYTES = 4 * 1024 * 1024"

datatype store_error =
    StoreWal wal_error
  | StoreDecode decode_error
  | StoreInvalidInput string
  | StoreTooLarge string nat nat
  | StoreBusy
  | StoreCorrupt string
  | MissingTable nat
  | MetaMismatch

datatype value_kind = Put | Delete

primrec ValueKind_byte :: "value_kind \<Rightarrow> byte" where
  "ValueKind_byte Put = 1"
| "ValueKind_byte Delete = 2"

definition ValueKind_from_byte :: "byte \<Rightarrow> value_kind option" where
  "ValueKind_from_byte value =
     (if value = 1 then Some Put else if value = 2 then Some Delete else None)"

datatype internal_key = InternalKey (user_key: bytes) (ik_sequence: nat) (ik_kind: value_kind)

primrec internal_kind_order :: "value_kind \<Rightarrow> nat" where
  "internal_kind_order Delete = 0"
| "internal_kind_order Put = 1"

text \<open>Internal keys sort by user key ascending and sequence descending.\<close>

instantiation internal_key :: linorder
begin

definition less_eq_internal_key :: "internal_key \<Rightarrow> internal_key \<Rightarrow> bool" where
  "less_eq_internal_key a b \<longleftrightarrow>
     user_key a < user_key b \<or>
     user_key a = user_key b \<and>
       (ik_sequence b < ik_sequence a \<or>
        ik_sequence a = ik_sequence b \<and> internal_kind_order (ik_kind a) \<le> internal_kind_order (ik_kind b))"

definition less_internal_key :: "internal_key \<Rightarrow> internal_key \<Rightarrow> bool" where
  "less_internal_key a b \<longleftrightarrow>
     user_key a < user_key b \<or>
     user_key a = user_key b \<and>
       (ik_sequence b < ik_sequence a \<or>
        ik_sequence a = ik_sequence b \<and> internal_kind_order (ik_kind a) < internal_kind_order (ik_kind b))"

lemma internal_kind_order_inject: "internal_kind_order a = internal_kind_order b \<longleftrightarrow> a = b"
  by (cases a; cases b) simp_all

instance
proof
  fix x y z :: internal_key
  show "x < y \<longleftrightarrow> x \<le> y \<and> \<not> y \<le> x"
    by (cases x; cases y) (auto simp: less_eq_internal_key_def less_internal_key_def)
  show "x \<le> x" by (simp add: less_eq_internal_key_def)
  show "x \<le> y \<Longrightarrow> y \<le> z \<Longrightarrow> x \<le> z"
    by (cases x; cases y; cases z) (auto simp: less_eq_internal_key_def)
  show "x \<le> y \<Longrightarrow> y \<le> x \<Longrightarrow> x = y"
    by (cases x; cases y) (auto simp: less_eq_internal_key_def internal_kind_order_inject[symmetric])
  show "x \<le> y \<or> y \<le> x"
    by (cases x; cases y) (auto simp: less_eq_internal_key_def)
qed

end

record store_config =
  memtable_bytes :: nat
  max_key_bytes :: nat
  max_value_bytes :: nat
  sc_wal :: wal_config

definition StoreConfig_default :: store_config where
  "StoreConfig_default =
     \<lparr>memtable_bytes = DEFAULT_MEMTABLE_BYTES, max_key_bytes = 4 * 1024,
      max_value_bytes = 1024 * 1024, sc_wal = WalConfig_default\<rparr>"

definition StoreConfig_from_parts :: "nat \<Rightarrow> nat \<Rightarrow> nat \<Rightarrow> nat \<Rightarrow> nat \<Rightarrow> store_config" where
  "StoreConfig_from_parts mem keys vals segment record_size =
     \<lparr>memtable_bytes = mem, max_key_bytes = keys, max_value_bytes = vals,
      sc_wal = \<lparr>segment_size = segment, max_record_size = record_size\<rparr>\<rparr>"

section \<open>Statistics\<close>

record store_stats =
  block_reads :: nat
  bytes_read :: nat
  bytes_written :: nat
  bytes_ingested :: nat
  bloom_positives :: nat
  bloom_negatives :: nat
  manifest_rewrites :: nat
  compaction_jobs_started :: nat
  compaction_jobs_completed :: nat
  compaction_jobs_aborted :: nat
  orphan_files_collected :: nat
  get_read_amplification :: "(nat, nat) bmap"

definition StoreStats_default :: store_stats where
  "StoreStats_default =
     \<lparr>block_reads = 0, bytes_read = 0, bytes_written = 0, bytes_ingested = 0, bloom_positives = 0,
      bloom_negatives = 0, manifest_rewrites = 0, compaction_jobs_started = 0,
      compaction_jobs_completed = 0, compaction_jobs_aborted = 0, orphan_files_collected = 0,
      get_read_amplification = []\<rparr>"

definition record_ingest :: "nat \<Rightarrow> store_stats \<Rightarrow> store_stats" where
  "record_ingest logical_bytes st = st\<lparr>bytes_ingested := sat_add (bytes_ingested st) logical_bytes\<rparr>"

definition record_write :: "nat \<Rightarrow> store_stats \<Rightarrow> store_stats" where
  "record_write physical_bytes st = st\<lparr>bytes_written := sat_add (bytes_written st) physical_bytes\<rparr>"

section \<open>Memtables and Bloom filters\<close>

type_synonym version = "internal_key \<times> bytes"

record mem_table =
  mt_entries :: "(internal_key, bytes) bmap"
  mt_bytes :: nat

definition MemTable_default :: mem_table where
  "MemTable_default = \<lparr>mt_entries = [], mt_bytes = 0\<rparr>"

definition MemTable_insert :: "internal_key \<Rightarrow> bytes \<Rightarrow> mem_table \<Rightarrow> mem_table" where
  "MemTable_insert key value t =
     \<lparr>mt_entries = bmap_insert key value (mt_entries t),
      mt_bytes = sat_add (mt_bytes t) (length (user_key key) + length value + 17)\<rparr>"

record bloom_filter =
  bloom_bits :: bytes
  bloom_hashes :: nat

definition BloomFilter_hashes :: "bytes \<Rightarrow> u64w \<times> u64w" where
  "BloomFilter_hashes key = (fnv1a key, fnv1a (rev key) OR 1)"

text \<open>The \<open>i\<close>-th probed bit; the two hashes combine with wrapping arithmetic.\<close>

definition bloom_probe :: "nat \<Rightarrow> bytes \<Rightarrow> nat \<Rightarrow> nat" where
  "bloom_probe bit_count key i =
     (let (first, second) = BloomFilter_hashes key
      in unat (first + word_of_nat i * second) mod bit_count)"

definition set_probe :: "nat \<Rightarrow> bytes \<Rightarrow> bytes" where
  "set_probe b bits = bits[b div 8 := (bits ! (b div 8)) OR push_bit (b mod 8) 1]"

definition BloomFilter_insert :: "bytes \<Rightarrow> bloom_filter \<Rightarrow> bloom_filter" where
  "BloomFilter_insert key f =
     f\<lparr>bloom_bits := fold (\<lambda>i bits. set_probe (bloom_probe (length (bloom_bits f) * 8) key i) bits)
                      [0 ..< bloom_hashes f] (bloom_bits f)\<rparr>"

definition BloomFilter_for_keys :: "bytes list \<Rightarrow> bloom_filter" where
  "BloomFilter_for_keys keys =
     (let bit_count = max (sat_mul (length keys) 10) 64
      in fold BloomFilter_insert keys
           \<lparr>bloom_bits = replicate ((bit_count + 7) div 8) 0, bloom_hashes = 7\<rparr>)"

definition BloomFilter_may_contain :: "bloom_filter \<Rightarrow> bytes \<Rightarrow> bool" where
  "BloomFilter_may_contain f key =
     list_all (\<lambda>i. let b = bloom_probe (length (bloom_bits f) * 8) key i
                   in (bloom_bits f ! (b div 8)) AND push_bit (b mod 8) 1 \<noteq> 0)
       [0 ..< bloom_hashes f]"

section \<open>Tables\<close>

record sst_table =
  sst_file_no :: nat
  sst_entries :: "version list"
  sst_bloom :: bloom_filter
  sst_bytes :: bytes

definition encode_version :: "version \<Rightarrow> (store_error, bytes) run" where
  "encode_version = (\<lambda>(key, value).
     if enc_bytes_ok (user_key key) \<and> enc_bytes_ok value
     then Returned (enc_bytes (user_key key) @ enc_u64 (ik_sequence key)
            @ enc_u8 (ValueKind_byte (ik_kind key)) @ enc_bytes value)
     else Panicked)"

primrec encode_versions :: "version list \<Rightarrow> (store_error, bytes) run" where
  "encode_versions [] = Returned []"
| "encode_versions (e # es) =
     run_bind (encode_version e) (\<lambda>b. run_bind (encode_versions es) (\<lambda>bs. Returned (b @ bs)))"

definition SstTable_from_entries :: "nat \<Rightarrow> version list \<Rightarrow> (store_error, sst_table) run" where
  "SstTable_from_entries file_no entries =
     (let bloom = BloomFilter_for_keys (map (user_key \<circ> fst) entries)
      in if u32_max < length entries
         then Failed (StoreTooLarge ''SSTable entry count'' (length entries) u32_max)
         else run_bind (encode_versions entries) (\<lambda>body.
           let bytes = enc_header SST_MAGIC Store_FORMAT_VERSION @ enc_u64 file_no
                 @ enc_u32 (length entries) @ body
           in Returned \<lparr>sst_file_no = file_no, sst_entries = entries, sst_bloom = bloom,
                        sst_bytes = bytes @ to_le 4 (crc32c bytes)\<rparr>))"

text \<open>\<open>max_by_key\<close> returns the last of the greatest elements.\<close>

definition max_by_sequence :: "version list \<Rightarrow> version option" where
  "max_by_sequence es =
     fold (\<lambda>e best. case best of
             None \<Rightarrow> Some e
           | Some b \<Rightarrow> if ik_sequence (fst b) \<le> ik_sequence (fst e) then Some e else best) es None"

definition SstTable_get :: "sst_table \<Rightarrow> bytes \<Rightarrow> nat \<Rightarrow> (value_kind \<times> bytes \<times> nat) option" where
  "SstTable_get t key snapshot =
     (if \<not> BloomFilter_may_contain (sst_bloom t) key then None
      else map_option (\<lambda>(internal, value). (ik_kind internal, value, ik_sequence internal))
        (max_by_sequence
          (filter (\<lambda>(internal, _). user_key internal = key \<and> ik_sequence internal \<le> snapshot)
            (sst_entries t))))"

section \<open>The manifest\<close>

datatype manifest_edit =
    AddFile nat nat
  | RemoveFile nat nat
  | NewFileNo nat
  | SeqWatermark nat
  | EditCheckpoint nat

record manifest =
  mf_generation :: nat
  mf_files :: "(nat, nat) bmap"
  mf_next_file_no :: nat
  mf_sequence :: nat
  mf_edits :: "manifest_edit list"

definition Manifest_default :: manifest where
  "Manifest_default =
     \<lparr>mf_generation = 0, mf_files = [], mf_next_file_no = 1, mf_sequence = 0, mf_edits = []\<rparr>"

definition Manifest_add_file :: "nat \<Rightarrow> nat \<Rightarrow> manifest \<Rightarrow> manifest" where
  "Manifest_add_file level file_no m =
     m\<lparr>mf_files := bmap_insert file_no level (mf_files m), mf_edits := mf_edits m @ [AddFile level file_no]\<rparr>"

definition Manifest_remove_file :: "nat \<Rightarrow> nat \<Rightarrow> manifest \<Rightarrow> manifest" where
  "Manifest_remove_file level file_no m =
     m\<lparr>mf_files := bmap_remove file_no (mf_files m), mf_edits := mf_edits m @ [RemoveFile level file_no]\<rparr>"

text \<open>\<open>+= 1\<close> on a \<open>u64\<close>, in a build with overflow checks.\<close>

definition incremented :: "nat \<Rightarrow> (store_error, nat) run" where
  "incremented n = expect (checked_add n 1)"

definition Manifest_allocate_file :: "manifest \<Rightarrow> (store_error, nat \<times> manifest) run" where
  "Manifest_allocate_file m =
     run_bind (incremented (mf_next_file_no m)) (\<lambda>next.
       Returned (mf_next_file_no m,
                 m\<lparr>mf_next_file_no := next, mf_edits := mf_edits m @ [NewFileNo next]\<rparr>))"

section \<open>The store\<close>

record store_watermark =
  sw_index :: nat
  sw_term :: nat
  sw_last_leader_time :: nat

record store =
  st_config :: store_config
  st_wal :: wal
  st_active :: mem_table
  st_frozen :: "mem_table option"
  st_tables :: "sst_table list"
  st_manifest :: manifest
  st_next_sequence :: nat
  st_snapshots :: "(nat, nat) bmap"
  st_applied_watermark :: "store_watermark option"
  st_metadata :: "(byte \<times> bytes, bytes) bmap"
  st_stats :: store_stats

definition Store_new :: "store_config \<Rightarrow> (store_error, store) run" where
  "Store_new cfg =
     run_bind (run_map_err StoreWal (Wal_new (sc_wal cfg))) (\<lambda>w.
       Returned \<lparr>st_config = cfg, st_wal = w, st_active = MemTable_default, st_frozen = None,
                 st_tables = [], st_manifest = Manifest_default, st_next_sequence = 0,
                 st_snapshots = [], st_applied_watermark = None, st_metadata = [],
                 st_stats = StoreStats_default\<rparr>)"

definition Store_last_sequence :: "store \<Rightarrow> nat" where
  "Store_last_sequence s = st_next_sequence s"

text \<open>The memtable \<open>flush\<close> writes out, and the store without it.\<close>

definition take_flush_source :: "store \<Rightarrow> (mem_table \<times> store) option" where
  "take_flush_source s =
     (case st_frozen s of
        Some table \<Rightarrow> Some (table, s\<lparr>st_frozen := None\<rparr>)
      | None \<Rightarrow> if mt_entries (st_active s) \<noteq> []
                then Some (st_active s, s\<lparr>st_active := MemTable_default\<rparr>)
                else None)"

definition allocate_file :: "(store, store_error, nat) action" where
  "allocate_file s =
     act (act_run (Manifest_allocate_file (st_manifest s))) (\<lambda>(file_no, m) s.
       (Returned file_no, s\<lparr>st_manifest := m\<rparr>)) s"

text \<open>The publication of a flushed table: manifest edits and statistics.\<close>

definition publish_flush :: "nat \<Rightarrow> sst_table \<Rightarrow> (store, store_error, nat option) action" where
  "publish_flush logical_bytes table s =
     (let s1 = s\<lparr>st_tables := st_tables s @ [table]\<rparr>;
          m1 = (Manifest_add_file 0 (sst_file_no table) (st_manifest s1))\<lparr>mf_sequence := st_next_sequence s1\<rparr>
      in act (act_run (incremented (mf_generation m1))) (\<lambda>generation s1.
           let m2 = m1\<lparr>mf_generation := generation,
                       mf_edits := mf_edits m1 @ [SeqWatermark (st_next_sequence s1)]\<rparr>;
               stats = record_write (length (sst_bytes table)) (record_ingest logical_bytes (st_stats s1))
           in (Returned (Some (sst_file_no table)),
               s1\<lparr>st_manifest := m2,
                  st_stats := stats\<lparr>manifest_rewrites := sat_add (manifest_rewrites stats) 1\<rparr>\<rparr>)) s1)"

definition Store_flush :: "(store, store_error, nat option) action" where
  "Store_flush s =
     (case take_flush_source s of
        None \<Rightarrow> (Returned None, s)
      | Some (source, s1) \<Rightarrow>
          act allocate_file (\<lambda>file_no.
          act (act_run (SstTable_from_entries file_no (mt_entries source)))
            (publish_flush (mt_bytes source))) s1)"

definition encode_mutation :: "nat \<Rightarrow> bytes \<Rightarrow> bytes \<Rightarrow> value_kind \<Rightarrow> (store_error, bytes) run" where
  "encode_mutation sq key value kind =
     (if enc_bytes_ok key \<and> enc_bytes_ok value
      then Returned (enc_u64 sq @ enc_u8 (ValueKind_byte kind) @ enc_bytes key @ enc_bytes value)
      else Panicked)"

text \<open>One record appended to the write-ahead log and committed.\<close>

definition store_log :: "bytes \<Rightarrow> (store, store_error, unit) action" where
  "store_log payload s =
     (let (r, w) = Wal_append Data payload (st_wal s)
      in case r of
           Returned _ \<Rightarrow> (Returned (), s\<lparr>st_wal := snd (Wal_commit w)\<rparr>)
         | Failed e \<Rightarrow> (Failed (StoreWal e), s\<lparr>st_wal := w\<rparr>)
         | Panicked \<Rightarrow> (Panicked, s\<lparr>st_wal := w\<rparr>))"

text \<open>A full active memtable becomes the frozen one.\<close>

definition freeze_full :: "store \<Rightarrow> store" where
  "freeze_full s =
     (if memtable_bytes (st_config s) \<le> mt_bytes (st_active s)
      then s\<lparr>st_frozen := Some (st_active s), st_active := MemTable_default\<rparr> else s)"

definition flush_frozen :: "(store, store_error, unit) action" where
  "flush_frozen s =
     (if st_frozen s \<noteq> None then act Store_flush (\<lambda>_. act_ret ()) s else (Returned (), s))"

definition Store_apply :: "bytes \<Rightarrow> bytes \<Rightarrow> value_kind \<Rightarrow> (store, store_error, nat) action" where
  "Store_apply key value kind s =
     (if key = [] then (Failed (StoreInvalidInput ''empty key''), s)
      else if max_key_bytes (st_config s) < length key
      then (Failed (StoreTooLarge ''key'' (length key) (max_key_bytes (st_config s))), s)
      else if max_value_bytes (st_config s) < length value
      then (Failed (StoreTooLarge ''value'' (length value) (max_value_bytes (st_config s))), s)
      else act flush_frozen (\<lambda>_ s.
        act (act_run (incremented (st_next_sequence s))) (\<lambda>sq.
        act (act_run (encode_mutation sq key value kind)) (\<lambda>payload.
        act (store_log payload) (\<lambda>_ s.
          (Returned sq,
           freeze_full (s\<lparr>st_next_sequence := sq,
             st_active := MemTable_insert (InternalKey key sq kind) value (st_active s)\<rparr>))))) s) s)"

definition Store_put :: "bytes \<Rightarrow> bytes \<Rightarrow> (store, store_error, nat) action" where
  "Store_put key value = Store_apply key value Put"

definition Store_delete :: "bytes \<Rightarrow> (store, store_error, nat) action" where
  "Store_delete key = Store_apply key [] Delete"

section \<open>Reads and snapshots\<close>

definition Store_snapshot :: "store \<Rightarrow> nat \<times> store" where
  "Store_snapshot s =
     (let snapshot = st_next_sequence s;
          count = (case bmap_get (st_snapshots s) snapshot of None \<Rightarrow> 0 | Some c \<Rightarrow> c)
      in (snapshot, s\<lparr>st_snapshots := bmap_insert snapshot (sat_add count 1) (st_snapshots s)\<rparr>))"

definition Store_release_snapshot :: "nat \<Rightarrow> (store, store_error, unit) action" where
  "Store_release_snapshot snapshot s =
     (let count = (case bmap_get (st_snapshots s) snapshot of None \<Rightarrow> 0 | Some c \<Rightarrow> c)
      in if count = 0 then (Failed (StoreInvalidInput ''unknown or already released snapshot''), s)
         else if count = 1
         then (Returned (), s\<lparr>st_snapshots := bmap_remove snapshot (st_snapshots s)\<rparr>)
         else (Returned (), s\<lparr>st_snapshots := bmap_insert snapshot (count - 1) (st_snapshots s)\<rparr>))"

type_synonym best = "(nat \<times> value_kind \<times> bytes) option"

definition consider_version :: "bytes \<Rightarrow> nat \<Rightarrow> version \<Rightarrow> best \<Rightarrow> best" where
  "consider_version key watermark = (\<lambda>(internal, value) best.
     if user_key internal = key \<and> ik_sequence internal \<le> watermark
        \<and> (case best of None \<Rightarrow> True | Some (sq, _) \<Rightarrow> sq < ik_sequence internal)
     then Some (ik_sequence internal, ik_kind internal, value) else best)"

definition consider_memtable :: "mem_table \<Rightarrow> bytes \<Rightarrow> nat \<Rightarrow> best \<Rightarrow> best" where
  "consider_memtable table key watermark best =
     fold (consider_version key watermark) (mt_entries table) best"

definition consider_frozen :: "store \<Rightarrow> bytes \<Rightarrow> nat \<Rightarrow> best \<Rightarrow> best" where
  "consider_frozen s key watermark best =
     (case st_frozen s of None \<Rightarrow> best | Some frozen \<Rightarrow> consider_memtable frozen key watermark best)"

definition consider_table :: "bytes \<Rightarrow> nat \<Rightarrow> sst_table \<Rightarrow> best \<Rightarrow> best" where
  "consider_table key watermark table best =
     (case SstTable_get table key watermark of
        None \<Rightarrow> best
      | Some (kind, value, sq) \<Rightarrow>
          if (case best of None \<Rightarrow> True | Some (current, _) \<Rightarrow> current < sq)
          then Some (sq, kind, value) else best)"

definition Store_get :: "store \<Rightarrow> bytes \<Rightarrow> nat option \<Rightarrow> bytes option" where
  "Store_get s key snapshot =
     (let watermark = (case snapshot of None \<Rightarrow> st_next_sequence s | Some value \<Rightarrow> value);
          best = fold (consider_table key watermark) (st_tables s)
                   (consider_frozen s key watermark (consider_memtable (st_active s) key watermark None))
      in case best of Some (_, Put, value) \<Rightarrow> Some value | _ \<Rightarrow> None)"

definition visible_entry :: "store \<Rightarrow> bytes \<Rightarrow> best" where
  "visible_entry s key =
     fold (\<lambda>table. fold (consider_version key (st_next_sequence s)) (sst_entries table)) (st_tables s)
       (consider_frozen s key (st_next_sequence s)
         (consider_memtable (st_active s) key (st_next_sequence s) None))"

text \<open>The key set \<open>scan\<close> and \<open>logical_entries\<close> collect.\<close>

definition store_keys :: "store \<Rightarrow> bytes bset" where
  "store_keys s =
     (let keys = bset_extend [] (map (user_key \<circ> fst) (mt_entries (st_active s)));
          keys = (case st_frozen s of None \<Rightarrow> keys
                  | Some frozen \<Rightarrow> bset_extend keys (map (user_key \<circ> fst) (mt_entries frozen)))
      in fold (\<lambda>table keys. bset_extend keys (map (user_key \<circ> fst) (sst_entries table))) (st_tables s) keys)"

definition in_key_range :: "bytes option \<Rightarrow> bytes option \<Rightarrow> bytes \<Rightarrow> bool" where
  "in_key_range start stop key \<longleftrightarrow>
     (case start of None \<Rightarrow> True | Some value \<Rightarrow> value \<le> key) \<and>
     (case stop of None \<Rightarrow> True | Some value \<Rightarrow> key < value)"

definition Store_scan ::
  "store \<Rightarrow> bytes option \<Rightarrow> bytes option \<Rightarrow> nat option \<Rightarrow> nat \<Rightarrow> (bytes \<times> bytes) list" where
  "Store_scan s start stop snapshot limit =
     take limit (List.map_filter (\<lambda>key. map_option (\<lambda>value. (key, value)) (Store_get s key snapshot))
       (filter (in_key_range start stop) (store_keys s)))"

record logical_entry =
  le_key :: bytes
  le_sequence :: nat
  le_value :: bytes

definition Store_logical_entries :: "store \<Rightarrow> logical_entry list" where
  "Store_logical_entries s =
     List.map_filter (\<lambda>key. case visible_entry s key of
         Some (sq, Put, value) \<Rightarrow> Some \<lparr>le_key = key, le_sequence = sq, le_value = value\<rparr>
       | _ \<Rightarrow> None) (store_keys s)"

text \<open>The loop of \<open>from_logical\<close>; \<open>previous\<close> is the last key accepted.\<close>

fun insert_logical ::
  "nat \<Rightarrow> bytes option \<Rightarrow> logical_entry list \<Rightarrow> store \<Rightarrow> (store_error, store) run" where
  "insert_logical sq previous [] s = Returned s"
| "insert_logical sq previous (entry # entries) s =
     (if le_key entry = []
         \<or> max_key_bytes (st_config s) < length (le_key entry)
         \<or> max_value_bytes (st_config s) < length (le_value entry)
         \<or> le_sequence entry = 0 \<or> sq < le_sequence entry
         \<or> (case previous of None \<Rightarrow> False | Some key \<Rightarrow> le_key entry \<le> key)
      then Failed (StoreInvalidInput ''logical checkpoint entry'')
      else insert_logical sq (Some (le_key entry)) entries
             (s\<lparr>st_active := MemTable_insert (InternalKey (le_key entry) (le_sequence entry) Put)
                               (le_value entry) (st_active s)\<rparr>))"

definition Store_from_logical :: "store_config \<Rightarrow> nat \<Rightarrow> logical_entry list \<Rightarrow> (store_error, store) run" where
  "Store_from_logical cfg sq entries =
     run_bind (Store_new cfg) (\<lambda>s. run_bind (insert_logical sq None entries s) (\<lambda>s.
       Returned (s\<lparr>st_next_sequence := sq\<rparr>)))"

definition Store_from_logical_at ::
  "store_config \<Rightarrow> nat \<Rightarrow> logical_entry list \<Rightarrow> store_watermark \<Rightarrow> (store_error, store) run" where
  "Store_from_logical_at cfg sq entries watermark =
     (if sw_index watermark = 0 \<or> sw_term watermark = 0
      then Failed (StoreInvalidInput ''logical checkpoint watermark'')
      else run_bind (Store_from_logical cfg sq entries) (\<lambda>s.
        Returned (s\<lparr>st_applied_watermark := Some watermark\<rparr>)))"

section \<open>Compaction of the tables\<close>

text \<open>\<open>all.entry(key).or_insert_with(value)\<close>: the first table that has a key wins.\<close>

definition merge_version :: "version \<Rightarrow> (internal_key, bytes) bmap \<Rightarrow> (internal_key, bytes) bmap" where
  "merge_version = (\<lambda>(key, value) all.
     case bmap_get all key of None \<Rightarrow> bmap_insert key value all | Some _ \<Rightarrow> all)"

definition merge_tables :: "sst_table list \<Rightarrow> (internal_key, bytes) bmap" where
  "merge_tables tables = fold (\<lambda>table. fold merge_version (sst_entries table)) tables []"

fun keep_versions :: "nat \<Rightarrow> bytes bset \<Rightarrow> version list \<Rightarrow> version list" where
  "keep_versions min_snapshot seen [] = []"
| "keep_versions min_snapshot seen ((key, value) # rest) =
     (if user_key key \<in> set seen \<and> ik_sequence key < min_snapshot
      then keep_versions min_snapshot seen rest
      else if ik_kind key = Delete \<and> ik_sequence key < min_snapshot
      then keep_versions min_snapshot (bset_insert (user_key key) seen) rest
      else (key, value) # keep_versions min_snapshot (bset_insert (user_key key) seen) rest)"

definition start_compaction :: "store \<Rightarrow> store" where
  "start_compaction s =
     s\<lparr>st_stats := (st_stats s)\<lparr>compaction_jobs_started := sat_add (compaction_jobs_started (st_stats s)) 1\<rparr>\<rparr>"

definition abort_compaction :: "store \<Rightarrow> store" where
  "abort_compaction s =
     s\<lparr>st_stats := (st_stats s)\<lparr>compaction_jobs_aborted := sat_add (compaction_jobs_aborted (st_stats s)) 1\<rparr>\<rparr>"

definition publish_compaction :: "(nat \<times> nat) list \<Rightarrow> sst_table \<Rightarrow> (store, store_error, bool) action" where
  "publish_compaction old_files table s =
     (let s1 = s\<lparr>st_tables := st_tables s @ [table]\<rparr>;
          m1 = fold (\<lambda>(old_file, level). Manifest_remove_file level old_file) old_files
                 (Manifest_add_file 1 (sst_file_no table) (st_manifest s1))
      in act (act_run (incremented (mf_generation m1))) (\<lambda>generation s1.
           let stats = record_write (length (sst_bytes table)) (st_stats s1)
           in (Returned True,
               s1\<lparr>st_manifest := m1\<lparr>mf_generation := generation\<rparr>,
                  st_stats := stats\<lparr>manifest_rewrites := sat_add (manifest_rewrites stats) 1,
                    compaction_jobs_completed := sat_add (compaction_jobs_completed stats) 1\<rparr>\<rparr>))
         s1)"

text \<open>The oldest live snapshot, below which superseded versions may go.\<close>

definition oldest_snapshot :: "store \<Rightarrow> nat" where
  "oldest_snapshot s = (case st_snapshots s of [] \<Rightarrow> st_next_sequence s | (watermark, _) # _ \<Rightarrow> watermark)"

definition finish_compaction ::
  "(nat \<times> nat) list \<Rightarrow> version list \<Rightarrow> nat \<Rightarrow> (store, store_error, bool) action" where
  "finish_compaction old_files keep file_no s =
     (case SstTable_from_entries file_no keep of
        Panicked \<Rightarrow> (Panicked, s)
      | Failed e \<Rightarrow> (Failed e, abort_compaction s)
      | Returned table \<Rightarrow> publish_compaction old_files table s)"

definition Store_compact :: "(store, store_error, bool) action" where
  "Store_compact s =
     (if length (st_tables s) < 2 then (Returned False, s)
      else let s1 = start_compaction s;
               keep = keep_versions (oldest_snapshot s1) [] (merge_tables (st_tables s1));
               old_files = map (\<lambda>table. (sst_file_no table,
                   case bmap_get (mf_files (st_manifest s1)) (sst_file_no table) of None \<Rightarrow> 0 | Some level \<Rightarrow> level))
                 (st_tables s1)
           in act allocate_file (finish_compaction old_files keep) (s1\<lparr>st_tables := []\<rparr>))"

end
