(* ===== verification/StoreInterface.thy ===== *)
theory StoreInterface
  imports Outcome
begin

text \<open>
  What the key/value state machine relies on in a store: a view of it as a map, and writes that
  either update the view at one key or fail and leave it as it was.
\<close>

locale mapped_store =
  fixes inv :: "'s \<Rightarrow> bool"
    and view :: "'s \<Rightarrow> 'k \<Rightarrow> 'v option"
    and put :: "'k \<Rightarrow> 'v \<Rightarrow> ('s, 'e, 'r) action"
    and del :: "'k \<Rightarrow> ('s, 'e, 'r) action"
  assumes put_returned: "inv s \<Longrightarrow> put k v s = (Returned r, s') \<Longrightarrow> inv s' \<and> view s' = (view s)(k \<mapsto> v)"
    and put_failed: "inv s \<Longrightarrow> put k v s = (Failed e, s') \<Longrightarrow> inv s' \<and> view s' = view s"
    and del_returned: "inv s \<Longrightarrow> del k s = (Returned r, s') \<Longrightarrow> inv s' \<and> view s' = (view s)(k := None)"
    and del_failed: "inv s \<Longrightarrow> del k s = (Failed e, s') \<Longrightarrow> inv s' \<and> view s' = view s"
begin

lemma put_lookup: "inv s \<Longrightarrow> put k v s = (Returned r, s') \<Longrightarrow> view s' k = Some v"
  by (simp add: put_returned)

lemma put_other: "inv s \<Longrightarrow> put k v s = (r, s') \<Longrightarrow> r \<noteq> Panicked \<Longrightarrow> k' \<noteq> k \<Longrightarrow> view s' k' = view s k'"
  by (cases r) (auto simp: put_failed dest: put_returned)

lemma del_lookup: "inv s \<Longrightarrow> del k s = (Returned r, s') \<Longrightarrow> view s' k = None"
  by (simp add: del_returned)

lemma put_inv: "inv s \<Longrightarrow> put k v s = (r, s') \<Longrightarrow> r \<noteq> Panicked \<Longrightarrow> inv s'"
  by (cases r) (auto simp: put_failed dest: put_returned)

lemma del_inv: "inv s \<Longrightarrow> del k s = (r, s') \<Longrightarrow> r \<noteq> Panicked \<Longrightarrow> inv s'"
  by (cases r) (auto simp: del_failed dest: del_returned)

text \<open>A sequence of deletions, as far as it gets.\<close>

primrec del_all :: "'k list \<Rightarrow> ('s, 'e, unit) action" where
  "del_all [] = act_ret ()"
| "del_all (k # ks) = act (del k) (\<lambda>_. del_all ks)"

lemma del_all_returned:
  "inv s \<Longrightarrow> del_all ks s = (Returned u, s') \<Longrightarrow> inv s' \<and> view s' = (view s) |` (- set ks)"
proof (induction ks arbitrary: s)
  case (Cons k ks)
  then obtain r s1 where d: "del k s = (Returned r, s1)" and rest: "del_all ks s1 = (Returned u, s')"
    by (auto simp: act_Returned_iff)
  have "inv s1" "view s1 = (view s)(k := None)" using del_returned[OF Cons.prems(1) d] by simp_all
  then show ?case using Cons.IH[OF _ rest] by (auto simp: restrict_map_def fun_eq_iff)
qed (simp add: restrict_map_def fun_eq_iff)

end

end
