(* ===== verification/StoreMap.thy ===== *)
theory StoreMap
  imports Store StoreInterface
begin

text \<open>
  What the store of \<open>Store\<close> promises.  A read is the newest version among all memtables and
  tables (\<open>newest\<close>); \<open>store_map\<close> is the map of current values.  Writes update that map, a snapshot
  keeps reading the versions of its sequence number, flush keeps every version and compaction
  every current value.
\<close>

section \<open>Bloom filters have no false negatives\<close>

definition probe_set :: "bytes \<Rightarrow> nat \<Rightarrow> bool" where
  "probe_set bits b \<longleftrightarrow> bit (bits ! (b div 8)) (b mod 8)"

lemma length_set_probe [simp]: "length (set_probe b bits) = length bits"
  by (simp add: set_probe_def)

lemma probe_set_keep: "probe_set bits c \<Longrightarrow> probe_set (set_probe b bits) c"
  by (cases "b div 8 < length bits"; cases "c div 8 = b div 8")
    (auto simp: probe_set_def set_probe_def bit_or_iff list_update_beyond)

lemma probe_set_hit: "b < length bits * 8 \<Longrightarrow> probe_set (set_probe b bits) b"
proof -
  assume "b < length bits * 8"
  then have "b div 8 < length bits" by (simp add: less_mult_imp_div_less)
  moreover have "bit (push_bit (b mod 8) 1 :: byte) (b mod 8)"
    by (simp add: push_bit_of_1 bit_exp_iff)
  ultimately show ?thesis by (simp add: probe_set_def set_probe_def bit_or_iff)
qed

lemma fold_set_probe:
  "length (fold (\<lambda>i. set_probe (p i)) is bits) = length bits"
  "probe_set bits c \<Longrightarrow> probe_set (fold (\<lambda>i. set_probe (p i)) is bits) c"
  by (induction "is" arbitrary: bits) (simp_all add: probe_set_keep)

lemma fold_set_probe_hit:
  "i \<in> set is \<Longrightarrow> p i < length bits * 8 \<Longrightarrow> probe_set (fold (\<lambda>i. set_probe (p i)) is bits) (p i)"
proof (induction "is" arbitrary: bits)
  case (Cons j js)
  then show ?case
    by (cases "i = j") (auto intro: fold_set_probe(2) probe_set_hit)
qed simp

definition bloom_ok :: "bloom_filter \<Rightarrow> bool" where
  "bloom_ok f \<longleftrightarrow> 0 < length (bloom_bits f)"

lemma BloomFilter_insert_shape [simp]:
  "length (bloom_bits (BloomFilter_insert key f)) = length (bloom_bits f)"
  "bloom_hashes (BloomFilter_insert key f) = bloom_hashes f"
  by (simp_all add: BloomFilter_insert_def fold_set_probe)

lemma may_contain_iff:
  "BloomFilter_may_contain f key \<longleftrightarrow>
     (\<forall>i < bloom_hashes f. probe_set (bloom_bits f) (bloom_probe (length (bloom_bits f) * 8) key i))"
  by (auto simp: BloomFilter_may_contain_def list_all_iff Let_def probe_set_def and_exp_eq_0_iff_not_bit)

lemma bloom_probe_less: "bloom_ok f \<Longrightarrow> bloom_probe (length (bloom_bits f) * 8) key i < length (bloom_bits f) * 8"
  by (simp add: bloom_probe_def bloom_ok_def case_prod_unfold Let_def)

lemma may_contain_inserted: "bloom_ok f \<Longrightarrow> BloomFilter_may_contain (BloomFilter_insert key f) key"
  unfolding may_contain_iff BloomFilter_insert_shape
  by (auto simp: BloomFilter_insert_def intro: fold_set_probe_hit bloom_probe_less)

lemma may_contain_keep: "BloomFilter_may_contain f key \<Longrightarrow> BloomFilter_may_contain (BloomFilter_insert other f) key"
  unfolding may_contain_iff BloomFilter_insert_shape
  by (auto simp: BloomFilter_insert_def intro: fold_set_probe(2))

lemma fold_bloom:
  "bloom_ok f \<Longrightarrow> key \<in> set keys \<or> BloomFilter_may_contain f key \<Longrightarrow>
   BloomFilter_may_contain (fold BloomFilter_insert keys f) key"
proof (induction keys arbitrary: f)
  case (Cons k keys)
  have "bloom_ok (BloomFilter_insert k f)" using Cons.prems(1) by (simp add: bloom_ok_def)
  moreover have "key \<in> set keys \<or> BloomFilter_may_contain (BloomFilter_insert k f) key"
    using Cons.prems may_contain_inserted may_contain_keep by auto
  ultimately show ?case using Cons.IH by simp
qed simp

lemma for_keys_contains: "key \<in> set keys \<Longrightarrow> BloomFilter_may_contain (BloomFilter_for_keys keys) key"
  unfolding BloomFilter_for_keys_def Let_def by (rule fold_bloom) (simp_all add: bloom_ok_def)

section \<open>The newest version\<close>

definition newest :: "version list \<Rightarrow> bytes \<Rightarrow> nat \<Rightarrow> best" where
  "newest es k w = fold (consider_version k w) es None"

definition candidate :: "bytes \<Rightarrow> nat \<Rightarrow> version \<Rightarrow> bool" where
  "candidate k w e \<longleftrightarrow> user_key (fst e) = k \<and> ik_sequence (fst e) \<le> w"

definition hit :: "version \<Rightarrow> nat \<times> value_kind \<times> bytes" where
  "hit e = (ik_sequence (fst e), ik_kind (fst e), snd e)"

text \<open>A user key has at most one version with a given sequence number.\<close>

definition versions_unique :: "version set \<Rightarrow> bool" where
  "versions_unique S \<longleftrightarrow>
     (\<forall>e \<in> S. \<forall>e' \<in> S. user_key (fst e) = user_key (fst e') \<longrightarrow>
        ik_sequence (fst e) = ik_sequence (fst e') \<longrightarrow> e = e')"

lemma versions_uniqueD:
  "versions_unique S \<Longrightarrow> e \<in> S \<Longrightarrow> e' \<in> S \<Longrightarrow> user_key (fst e) = user_key (fst e') \<Longrightarrow>
   ik_sequence (fst e) = ik_sequence (fst e') \<Longrightarrow> e = e'"
  by (simp add: versions_unique_def)

lemma consider_version_eq:
  "consider_version k w e best =
     (if candidate k w e \<and> (case best of None \<Rightarrow> True | Some c \<Rightarrow> fst c < ik_sequence (fst e))
      then Some (hit e) else best)"
  by (cases e; cases best) (auto simp: consider_version_def candidate_def hit_def)

lemma newest_snoc: "newest (es @ [e]) k w = consider_version k w e (newest es k w)"
  by (simp add: newest_def)

lemma newest_None: "newest es k w = None \<longleftrightarrow> (\<forall>e \<in> set es. \<not> candidate k w e)"
proof (induction es rule: rev_induct)
  case (snoc e es)
  then show ?case
    by (auto simp: newest_snoc consider_version_eq split: option.splits if_splits)
qed (simp add: newest_def)

lemma newest_Some:
  "newest es k w = Some b \<Longrightarrow>
   \<exists>e \<in> set es. candidate k w e \<and> b = hit e \<and>
     (\<forall>e' \<in> set es. candidate k w e' \<longrightarrow> ik_sequence (fst e') \<le> ik_sequence (fst e))"
proof (induction es arbitrary: b rule: rev_induct)
  case (snoc e es)
  show ?case
  proof (cases "newest es k w")
    case None
    then have "\<forall>e \<in> set es. \<not> candidate k w e" by (simp add: newest_None)
    moreover have "candidate k w e \<and> b = hit e"
      using snoc.prems None
      by (auto simp: newest_snoc consider_version_eq hit_def split: if_splits)
    ultimately show ?thesis by auto
  next
    case (Some c)
    from snoc.IH[OF Some] obtain f where f: "f \<in> set es" "candidate k w f" "c = hit f"
      "\<forall>e' \<in> set es. candidate k w e' \<longrightarrow> ik_sequence (fst e') \<le> ik_sequence (fst f)" by blast
    show ?thesis
    proof (cases "candidate k w e \<and> ik_sequence (fst f) < ik_sequence (fst e)")
      case True
      then have "b = hit e" using snoc.prems Some f(3)
        by (auto simp: newest_snoc consider_version_eq hit_def split: if_splits)
      then show ?thesis using True f(4) by (intro bexI[of _ e]) (auto intro: less_imp_le le_less_trans)
    next
      case False
      then have "b = hit f" using snoc.prems Some f(3)
        by (auto simp: newest_snoc consider_version_eq hit_def split: if_splits)
      then show ?thesis using False f by (intro bexI[of _ f]) (auto simp: not_less)
    qed
  qed
qed (simp add: newest_def)

lemma newest_iff:
  assumes "versions_unique (set es)"
  shows "newest es k w = Some b \<longleftrightarrow>
     (\<exists>e \<in> set es. candidate k w e \<and> b = hit e \<and>
       (\<forall>e' \<in> set es. candidate k w e' \<longrightarrow> ik_sequence (fst e') \<le> ik_sequence (fst e)))"
proof
  assume "newest es k w = Some b"
  then show "\<exists>e \<in> set es. candidate k w e \<and> b = hit e \<and>
       (\<forall>e' \<in> set es. candidate k w e' \<longrightarrow> ik_sequence (fst e') \<le> ik_sequence (fst e))"
    by (rule newest_Some)
next
  assume "\<exists>e \<in> set es. candidate k w e \<and> b = hit e \<and>
       (\<forall>e' \<in> set es. candidate k w e' \<longrightarrow> ik_sequence (fst e') \<le> ik_sequence (fst e))"
  then obtain e where e: "e \<in> set es" "candidate k w e" "b = hit e"
    "\<forall>e' \<in> set es. candidate k w e' \<longrightarrow> ik_sequence (fst e') \<le> ik_sequence (fst e)" by blast
  then obtain c where c: "newest es k w = Some c" by (cases "newest es k w") (auto simp: newest_None)
  from newest_Some[OF c] obtain f where f: "f \<in> set es" "candidate k w f" "c = hit f"
    "\<forall>e' \<in> set es. candidate k w e' \<longrightarrow> ik_sequence (fst e') \<le> ik_sequence (fst f)" by blast
  have "ik_sequence (fst e) = ik_sequence (fst f)" using e f by (simp add: le_antisym)
  then have "e = f" using assms e f by (intro versions_uniqueD[of "set es"]) (simp_all add: candidate_def)
  then show "newest es k w = Some b" using c e f by simp
qed

lemma newest_cong:
  assumes "versions_unique (set es)" "versions_unique (set es')"
    and "\<And>e. candidate k w e \<Longrightarrow> e \<in> set es \<longleftrightarrow> e \<in> set es'"
  shows "newest es k w = newest es' k w"
proof (rule option.expand)
  show "(newest es k w = None) = (newest es' k w = None)" using assms(3) by (auto simp: newest_None)
next
  assume "newest es k w \<noteq> None" "newest es' k w \<noteq> None"
  then obtain b where b: "newest es k w = Some b" by blast
  then have "newest es' k w = Some b" using assms by (simp add: newest_iff) blast
  then show "the (newest es k w) = the (newest es' k w)" using b by simp
qed

lemma fold_consider_best:
  "fold (consider_version k w) es best =
     (case newest es k w of
        None \<Rightarrow> best
      | Some b \<Rightarrow> if (case best of None \<Rightarrow> True | Some c \<Rightarrow> fst c < fst b) then Some b else best)"
proof (induction es rule: rev_induct)
  case (snoc e es)
  let ?b = "\<lambda>n. case n of None \<Rightarrow> best
      | Some b \<Rightarrow> if (case best of None \<Rightarrow> True | Some c \<Rightarrow> fst c < fst b) then Some b else best"
  have "fold (consider_version k w) (es @ [e]) best = consider_version k w e (fold (consider_version k w) es best)"
    by simp
  also have "\<dots> = consider_version k w e (?b (newest es k w))" by (simp only: snoc)
  also have "\<dots> = ?b (consider_version k w e (newest es k w))"
    by (cases "newest es k w"; cases best) (auto simp: consider_version_eq hit_def)
  finally show ?case by (simp only: newest_snoc)
qed (simp add: newest_def)

section \<open>Reads of the store\<close>

definition frozen_entries :: "store \<Rightarrow> version list" where
  "frozen_entries s = (case st_frozen s of None \<Rightarrow> [] | Some t \<Rightarrow> mt_entries t)"

definition mem_entries :: "store \<Rightarrow> version list" where
  "mem_entries s = mt_entries (st_active s) @ frozen_entries s"

definition table_entries :: "store \<Rightarrow> version list" where
  "table_entries s = concat (map sst_entries (st_tables s))"

definition store_entries :: "store \<Rightarrow> version list" where
  "store_entries s = mem_entries s @ table_entries s"

definition put_value :: "best \<Rightarrow> bytes option" where
  "put_value b = (case b of Some (_, Put, value) \<Rightarrow> Some value | _ \<Rightarrow> None)"

text \<open>The key and value bounds of the configuration hold for every version.\<close>

definition version_ok :: "store_config \<Rightarrow> nat \<Rightarrow> version \<Rightarrow> bool" where
  "version_ok cfg last_sq e \<longleftrightarrow>
     user_key (fst e) \<noteq> [] \<and> length (user_key (fst e)) \<le> max_key_bytes cfg \<and>
     length (snd e) \<le> max_value_bytes cfg \<and> 0 < ik_sequence (fst e) \<and> ik_sequence (fst e) \<le> last_sq"

definition table_ok :: "sst_table \<Rightarrow> bool" where
  "table_ok t \<longleftrightarrow> (\<forall>e \<in> set (sst_entries t). BloomFilter_may_contain (sst_bloom t) (user_key (fst e)))"

definition store_ok :: "store \<Rightarrow> bool" where
  "store_ok s \<longleftrightarrow>
     versions_unique (set (store_entries s)) \<and>
     (\<forall>e \<in> set (store_entries s). version_ok (st_config s) (st_next_sequence s) e) \<and>
     (\<forall>t \<in> set (st_tables s). table_ok t) \<and>
     (\<forall>e \<in> set (table_entries s). \<forall>m \<in> set (mem_entries s). ik_sequence (fst e) < ik_sequence (fst m)) \<and>
     (\<forall>e \<in> set (frozen_entries s). \<forall>m \<in> set (mt_entries (st_active s)).
        ik_sequence (fst e) < ik_sequence (fst m))"

lemma max_by_sequence_snoc:
  "max_by_sequence (es @ [e]) =
     (case max_by_sequence es of None \<Rightarrow> Some e
      | Some b \<Rightarrow> if ik_sequence (fst b) \<le> ik_sequence (fst e) then Some e else Some b)"
  by (simp add: max_by_sequence_def split: option.splits)

lemma max_by_sequence_None: "max_by_sequence es = None \<longleftrightarrow> es = []"
  by (cases es rule: rev_cases) (auto simp: max_by_sequence_snoc max_by_sequence_def split: option.splits)

lemma max_by_sequence_Some:
  "max_by_sequence es = Some e \<Longrightarrow>
   e \<in> set es \<and> (\<forall>e' \<in> set es. ik_sequence (fst e') \<le> ik_sequence (fst e))"
proof (induction es arbitrary: e rule: rev_induct)
  case (snoc x es)
  show ?case
  proof (cases "max_by_sequence es")
    case None
    then have "es = []" by (simp add: max_by_sequence_None)
    then show ?thesis using snoc.prems by (simp add: max_by_sequence_def)
  next
    case (Some b)
    with snoc.IH[OF Some] snoc.prems show ?thesis
      by (auto simp: max_by_sequence_snoc split: if_splits intro: order_trans)
  qed
qed (simp add: max_by_sequence_def)

lemma SstTable_get_newest:
  assumes "table_ok t" and "versions_unique (set (sst_entries t))"
  shows "SstTable_get t k w = map_option (\<lambda>(sq, kind, v). (kind, v, sq)) (newest (sst_entries t) k w)"
proof -
  let ?c = "filter (\<lambda>(internal, _). user_key internal = k \<and> ik_sequence internal \<le> w) (sst_entries t)"
  have c: "set ?c = {e \<in> set (sst_entries t). candidate k w e}" by (auto simp: candidate_def)
  show ?thesis
  proof (cases "?c = []")
    case True
    then have "newest (sst_entries t) k w = None" using c by (auto simp: newest_None)
    moreover have "max_by_sequence ?c = None" using True by (simp add: max_by_sequence_None)
    ultimately show ?thesis by (simp add: SstTable_get_def)
  next
    case False
    then obtain e where e: "max_by_sequence ?c = Some e"
      by (cases "max_by_sequence ?c") (auto simp: max_by_sequence_None)
    from max_by_sequence_Some[OF e, unfolded c] have m: "e \<in> set (sst_entries t)" "candidate k w e"
      "\<forall>e' \<in> set (sst_entries t). candidate k w e' \<longrightarrow> ik_sequence (fst e') \<le> ik_sequence (fst e)" by auto
    then have "newest (sst_entries t) k w = Some (hit e)" using assms(2) by (auto simp: newest_iff)
    moreover have "BloomFilter_may_contain (sst_bloom t) k"
      using assms(1) m(1,2) by (auto simp: table_ok_def candidate_def)
    ultimately show ?thesis using e by (simp add: SstTable_get_def hit_def case_prod_unfold)
  qed
qed

lemma consider_table_eq:
  assumes "table_ok t" and "versions_unique (set (sst_entries t))"
  shows "consider_table k w t best = fold (consider_version k w) (sst_entries t) best"
  unfolding consider_table_def SstTable_get_newest[OF assms] fold_consider_best
  by (cases "newest (sst_entries t) k w"; cases best) auto

lemma versions_unique_mono: "versions_unique S \<Longrightarrow> T \<subseteq> S \<Longrightarrow> versions_unique T"
  by (auto simp: versions_unique_def)

lemma fold_tables:
  assumes "\<forall>t \<in> set ts. table_ok t \<and> versions_unique (set (sst_entries t))"
  shows "fold (consider_table k w) ts best = fold (consider_version k w) (concat (map sst_entries ts)) best"
  using assms by (induction ts arbitrary: best) (simp_all add: consider_table_eq)

lemma mem_newest:
  "consider_frozen s k w (consider_memtable (st_active s) k w None) = newest (mem_entries s) k w"
  by (simp add: newest_def mem_entries_def frozen_entries_def consider_frozen_def consider_memtable_def
      split: option.splits)

lemma Store_get_newest:
  assumes "store_ok s"
  shows "Store_get s k snap =
     put_value (newest (store_entries s) k (case snap of None \<Rightarrow> st_next_sequence s | Some w \<Rightarrow> w))"
proof -
  have "\<forall>t \<in> set (st_tables s). table_ok t \<and> versions_unique (set (sst_entries t))"
    using assms by (auto simp: store_ok_def store_entries_def table_entries_def elim!: versions_unique_mono)
  then have "fold (consider_table k w) (st_tables s)
       (consider_frozen s k w (consider_memtable (st_active s) k w None)) = newest (store_entries s) k w" for w
    unfolding mem_newest by (simp add: fold_tables newest_def store_entries_def table_entries_def)
  then show ?thesis by (simp add: Store_get_def put_value_def Let_def)
qed

lemma visible_entry_newest: "visible_entry s k = newest (store_entries s) k (st_next_sequence s)"
proof -
  have "fold (\<lambda>t. fold (consider_version k w) (sst_entries t)) ts best
      = fold (consider_version k w) (concat (map sst_entries ts)) best" for ts w best
    by (induction ts arbitrary: best) simp_all
  then show ?thesis
    unfolding visible_entry_def mem_newest by (simp add: newest_def store_entries_def table_entries_def)
qed

text \<open>The map of current values, and what a version in the store says about it.\<close>

definition store_map :: "store \<Rightarrow> bytes \<Rightarrow> bytes option" where
  "store_map s = (\<lambda>k. Store_get s k None)"

definition current :: "version set \<Rightarrow> bytes \<Rightarrow> version \<Rightarrow> bool" where
  "current S k e \<longleftrightarrow> e \<in> S \<and> user_key (fst e) = k \<and>
     (\<forall>e' \<in> S. user_key (fst e') = k \<longrightarrow> ik_sequence (fst e') \<le> ik_sequence (fst e))"

lemma store_map_Some:
  assumes "store_ok s"
  shows "store_map s k = Some v \<longleftrightarrow>
     (\<exists>e. current (set (store_entries s)) k e \<and> ik_kind (fst e) = Put \<and> snd e = v)"
proof -
  have cand: "candidate k (st_next_sequence s) e \<longleftrightarrow> user_key (fst e) = k" if "e \<in> set (store_entries s)" for e
    using assms that by (auto simp: candidate_def store_ok_def version_ok_def)
  have "store_map s k = Some v \<longleftrightarrow> (\<exists>sq. newest (store_entries s) k (st_next_sequence s) = Some (sq, Put, v))"
    using assms by (auto simp: store_map_def Store_get_newest put_value_def split: option.splits value_kind.splits)
  also have "\<dots> \<longleftrightarrow> (\<exists>e. current (set (store_entries s)) k e \<and> ik_kind (fst e) = Put \<and> snd e = v)"
  proof
    assume "\<exists>sq. newest (store_entries s) k (st_next_sequence s) = Some (sq, Put, v)"
    then obtain sq where "newest (store_entries s) k (st_next_sequence s) = Some (sq, Put, v)" by blast
    from newest_Some[OF this] obtain e where "e \<in> set (store_entries s)" "candidate k (st_next_sequence s) e"
      "(sq, Put, v) = hit e"
      "\<forall>e' \<in> set (store_entries s). candidate k (st_next_sequence s) e' \<longrightarrow> ik_sequence (fst e') \<le> ik_sequence (fst e)"
      by blast
    then show "\<exists>e. current (set (store_entries s)) k e \<and> ik_kind (fst e) = Put \<and> snd e = v"
      using cand by (intro exI[of _ e]) (auto simp: current_def hit_def)
  next
    assume "\<exists>e. current (set (store_entries s)) k e \<and> ik_kind (fst e) = Put \<and> snd e = v"
    then obtain e where e: "current (set (store_entries s)) k e" "ik_kind (fst e) = Put" "snd e = v" by blast
    moreover have "versions_unique (set (store_entries s))" using assms by (simp add: store_ok_def)
    ultimately have "newest (store_entries s) k (st_next_sequence s) = Some (hit e)"
      unfolding newest_iff[OF \<open>versions_unique _\<close>] using cand by (auto simp: current_def intro!: bexI[of _ e])
    then show "\<exists>sq. newest (store_entries s) k (st_next_sequence s) = Some (sq, Put, v)"
      using e by (simp add: hit_def)
  qed
  finally show ?thesis .
qed

lemma store_map_eqI:
  assumes "store_ok s" "store_ok s'"
    and "\<And>v. (\<exists>e. current (set (store_entries s)) k e \<and> ik_kind (fst e) = Put \<and> snd e = v)
          \<longleftrightarrow> (\<exists>e. current (set (store_entries s')) k e \<and> ik_kind (fst e) = Put \<and> snd e = v)"
  shows "store_map s k = store_map s' k"
  using assms by (metis not_None_eq store_map_Some)

section \<open>Flush\<close>

lemma from_entries_Returned:
  assumes "SstTable_from_entries f es = Returned t"
  shows "sst_entries t = es \<and> sst_file_no t = f \<and> table_ok t"
proof -
  from assms have "sst_entries t = es" "sst_file_no t = f"
      "sst_bloom t = BloomFilter_for_keys (map (user_key \<circ> fst) es)"
    by (auto simp: SstTable_from_entries_def run_bind_Returned_iff Let_def split: if_splits)
  moreover have "table_ok t"
    unfolding table_ok_def calculation by (auto intro!: for_keys_contains) force
  ultimately show ?thesis by simp
qed

lemma Store_flush_Returned:
  assumes "Store_flush s = (Returned r, s')"
  obtains (idle) "s' = s" "st_frozen s = None" "mt_entries (st_active s) = []"
    | (flushed) source s1 table m stats where "take_flush_source s = Some (source, s1)"
        "sst_entries table = mt_entries source" "table_ok table"
        "s' = s1\<lparr>st_tables := st_tables s1 @ [table], st_manifest := m, st_stats := stats\<rparr>"
proof (cases "take_flush_source s")
  case None
  then show ?thesis using assms idle by (auto simp: Store_flush_def take_flush_source_def split: option.splits if_splits)
next
  case (Some p)
  obtain source s1 where p: "p = (source, s1)" by fastforce
  from assms Some p obtain f s2 table where a: "allocate_file s1 = (Returned f, s2)"
      and t: "SstTable_from_entries f (mt_entries source) = Returned table"
      and pub: "publish_flush (mt_bytes source) table s2 = (Returned r, s')"
    by (auto simp: Store_flush_def act_Returned_iff)
  from a obtain m where s2: "s2 = s1\<lparr>st_manifest := m\<rparr>" by (auto simp: allocate_file_def act_Returned_iff)
  from pub obtain m' stats where "s' = s2\<lparr>st_tables := st_tables s2 @ [table], st_manifest := m', st_stats := stats\<rparr>"
    by (auto simp: publish_flush_def Let_def act_Returned_iff)
  then have "s' = s1\<lparr>st_tables := st_tables s1 @ [table], st_manifest := m', st_stats := stats\<rparr>" by (simp add: s2)
  with flushed Some p from_entries_Returned[OF t] show ?thesis by blast
qed

lemma flush_source_entries:
  assumes "take_flush_source s = Some (source, s1)"
  shows "set (mem_entries s) = set (mt_entries source) \<union> set (mem_entries s1)"
    "st_tables s1 = st_tables s" "st_config s1 = st_config s" "st_next_sequence s1 = st_next_sequence s"
    "st_frozen s1 = None" "st_wal s1 = st_wal s" "st_snapshots s1 = st_snapshots s"
  using assms
  by (auto simp: take_flush_source_def mem_entries_def frozen_entries_def MemTable_default_def split: option.splits if_splits)

lemma flush_source_older:
  assumes "take_flush_source s = Some (source, s1)" and "store_ok s"
  shows "\<forall>e \<in> set (mt_entries source). \<forall>m \<in> set (mem_entries s1). ik_sequence (fst e) < ik_sequence (fst m)"
  using assms
  by (cases "st_frozen s")
    (fastforce simp: take_flush_source_def store_ok_def mem_entries_def frozen_entries_def MemTable_default_def
      split: if_splits)+

lemma Store_flush_keeps:
  assumes ok: "store_ok s" and fl: "Store_flush s = (Returned r, s')"
  shows "store_ok s' \<and> set (store_entries s') = set (store_entries s) \<and> st_frozen s' = None \<and>
    st_config s' = st_config s \<and> st_next_sequence s' = st_next_sequence s \<and> st_wal s' = st_wal s \<and>
    st_snapshots s' = st_snapshots s"
  using fl
proof (cases rule: Store_flush_Returned)
  case idle
  then show ?thesis using ok by simp
next
  case (flushed source s1 table m stats)
  note src = flush_source_entries[OF flushed(1)]
  have mem: "mem_entries s' = mem_entries s1" "frozen_entries s' = []"
    by (simp_all add: flushed(4) mem_entries_def frozen_entries_def src)
  have tab: "set (table_entries s') = set (table_entries s) \<union> set (mt_entries source)"
    by (simp add: flushed(2,4) table_entries_def src)
  have all: "set (store_entries s') = set (store_entries s)"
    using src(1) tab mem by (auto simp: store_entries_def)
  have "set (mem_entries s1) \<subseteq> set (mem_entries s)" using src(1) by auto
  then have "store_ok s'"
    using ok flush_source_older[OF flushed(1) ok] flushed(3) src mem
    unfolding store_ok_def all tab by (auto simp: flushed(4))
  then show ?thesis using all src by (simp add: flushed(4))
qed

lemma store_map_same_entries:
  "store_ok s \<Longrightarrow> store_ok s' \<Longrightarrow> set (store_entries s') = set (store_entries s) \<Longrightarrow> store_map s' = store_map s"
  by (rule ext, rule store_map_eqI) simp_all

lemma Store_get_same_entries:
  assumes "store_ok s" "store_ok s'" "set (store_entries s') = set (store_entries s)"
    "st_next_sequence s' = st_next_sequence s"
  shows "Store_get s' k snap = Store_get s k snap"
proof -
  have "newest (store_entries s') k w = newest (store_entries s) k w" for w
    using assms by (intro newest_cong) (simp_all add: store_ok_def)
  then show ?thesis using assms by (cases snap) (simp_all add: Store_get_newest)
qed

section \<open>Writes\<close>

lemma set_bmap_insert_fresh: "k \<notin> set (bmap_keys m) \<Longrightarrow> set (bmap_insert k v m) = insert (k, v) (set m)"
  by (induction k v m rule: bmap_insert.induct) auto

text \<open>A version with the next sequence number enters the active memtable.\<close>

lemma store_ok_insert:
  assumes ok: "store_ok s" and key: "key \<noteq> []" "length key \<le> max_key_bytes (st_config s)"
    and val: "length value \<le> max_value_bytes (st_config s)"
    and s': "st_active s' = MemTable_insert (InternalKey key (Suc (st_next_sequence s)) kind) value (st_active s)"
      "st_frozen s' = st_frozen s" "st_tables s' = st_tables s" "st_config s' = st_config s"
      "st_next_sequence s' = Suc (st_next_sequence s)"
  shows "store_ok s' \<and>
     set (store_entries s') = insert (InternalKey key (Suc (st_next_sequence s)) kind, value) (set (store_entries s))"
proof -
  let ?ik = "InternalKey key (Suc (st_next_sequence s)) kind" and ?m = "mt_entries (st_active s)"
  have le: "\<forall>e \<in> set (store_entries s). ik_sequence (fst e) \<le> st_next_sequence s"
    using ok by (auto simp: store_ok_def version_ok_def)
  have "?ik \<notin> set (bmap_keys ?m)"
  proof
    assume "?ik \<in> set (bmap_keys ?m)"
    then obtain v where "(?ik, v) \<in> set ?m" by auto
    then have "(?ik, v) \<in> set (store_entries s)" by (simp add: store_entries_def mem_entries_def)
    then show False using le by fastforce
  qed
  then have act: "set (mt_entries (st_active s')) = insert (?ik, value) (set ?m)"
    by (simp add: s'(1) MemTable_insert_def set_bmap_insert_fresh)
  have parts: "frozen_entries s' = frozen_entries s" "table_entries s' = table_entries s"
    by (simp_all add: frozen_entries_def table_entries_def s')
  have all: "set (store_entries s') = insert (?ik, value) (set (store_entries s))"
    using act parts by (auto simp: store_entries_def mem_entries_def)
  have uniq: "versions_unique (set (store_entries s'))"
    unfolding all versions_unique_def using ok le by (fastforce simp: store_ok_def versions_unique_def)
  have bounds: "\<forall>e \<in> set (store_entries s'). version_ok (st_config s') (st_next_sequence s') e"
    unfolding all using ok key val by (auto simp: store_ok_def version_ok_def s')
  have older: "\<forall>e \<in> set (store_entries s). ik_sequence (fst e) < ik_sequence ?ik" using le by (simp add: less_Suc_eq_le)
  have "store_ok s'"
    using ok uniq bounds older act parts
    by (auto simp: store_ok_def mem_entries_def store_entries_def s')
  then show ?thesis using all by simp
qed

lemma freeze_full_entries:
  assumes "st_frozen s = None"
  shows "set (store_entries (freeze_full s)) = set (store_entries s)"
    "store_ok s \<Longrightarrow> store_ok (freeze_full s)"
    "st_config (freeze_full s) = st_config s" "st_next_sequence (freeze_full s) = st_next_sequence s"
    "st_wal (freeze_full s) = st_wal s" "st_snapshots (freeze_full s) = st_snapshots s"
proof -
  have m: "set (mem_entries (freeze_full s)) = set (mem_entries s)" "table_entries (freeze_full s) = table_entries s"
    using assms by (auto simp: freeze_full_def mem_entries_def frozen_entries_def table_entries_def MemTable_default_def)
  then show all: "set (store_entries (freeze_full s)) = set (store_entries s)" by (simp add: store_entries_def)
  show "st_config (freeze_full s) = st_config s" "st_next_sequence (freeze_full s) = st_next_sequence s"
    "st_wal (freeze_full s) = st_wal s" "st_snapshots (freeze_full s) = st_snapshots s"
    by (simp_all add: freeze_full_def)
  assume "store_ok s"
  then show "store_ok (freeze_full s)"
    using assms unfolding store_ok_def all m
    by (auto simp: freeze_full_def frozen_entries_def MemTable_default_def)
qed

lemma flush_frozen_keeps:
  assumes ok: "store_ok s" and fl: "flush_frozen s = (Returned r, s')"
  shows "store_ok s' \<and> set (store_entries s') = set (store_entries s) \<and> st_frozen s' = None \<and>
    st_config s' = st_config s \<and> st_next_sequence s' = st_next_sequence s \<and> st_wal s' = st_wal s \<and>
    st_snapshots s' = st_snapshots s"
proof (cases "st_frozen s = None")
  case True
  then show ?thesis using ok fl by (simp add: flush_frozen_def)
next
  case False
  then obtain r' where "Store_flush s = (Returned r', s')"
    using fl by (auto simp: flush_frozen_def act_Returned_iff)
  from Store_flush_keeps[OF ok this] show ?thesis .
qed

lemma store_log_Returned:
  "store_log p s = (Returned u, s') \<longleftrightarrow>
     (\<exists>lr w. Wal_append Data p (st_wal s) = (Returned lr, w) \<and> s' = s\<lparr>st_wal := snd (Wal_commit w)\<rparr>)"
  by (cases "Wal_append Data p (st_wal s)") (auto simp: store_log_def split: run.splits)

lemma store_log_entries:
  assumes "store_log p s = (r, s')"
  shows "\<exists>w. s' = s\<lparr>st_wal := w\<rparr>"
  using assms by (cases "Wal_append Data p (st_wal s)") (auto simp: store_log_def split: run.splits)

lemma store_ok_wal [simp]: "store_ok (s\<lparr>st_wal := w\<rparr>) = store_ok s"
  by (simp add: store_ok_def store_entries_def mem_entries_def frozen_entries_def table_entries_def)

lemma store_entries_wal [simp]: "store_entries (s\<lparr>st_wal := w\<rparr>) = store_entries s"
  by (simp add: store_entries_def mem_entries_def frozen_entries_def table_entries_def)

lemma Store_apply_Returned:
  assumes ok: "store_ok s" and ap: "Store_apply key value kind s = (Returned sq, s')"
  shows "sq = Suc (st_next_sequence s) \<and> st_next_sequence s' = sq \<and> sq \<le> u64_max \<and> store_ok s' \<and>
     st_config s' = st_config s \<and> st_snapshots s' = st_snapshots s \<and>
     set (store_entries s') = insert (InternalKey key sq kind, value) (set (store_entries s))"
proof -
  from ap have key: "key \<noteq> []" "length key \<le> max_key_bytes (st_config s)" "length value \<le> max_value_bytes (st_config s)"
    and a2: "act flush_frozen (\<lambda>_ s.
        act (act_run (incremented (st_next_sequence s))) (\<lambda>sq.
        act (act_run (encode_mutation sq key value kind)) (\<lambda>payload.
        act (store_log payload) (\<lambda>_ s.
          (Returned sq,
           freeze_full (s\<lparr>st_next_sequence := sq,
             st_active := MemTable_insert (InternalKey key sq kind) value (st_active s)\<rparr>))))) s) s = (Returned sq, s')"
    by (auto simp: Store_apply_def split: if_splits)
  from a2 have "\<exists>s1 payload s2. flush_frozen s = (Returned (), s1) \<and>
      incremented (st_next_sequence s1) = Returned sq \<and> store_log payload s1 = (Returned (), s2) \<and>
      s' = freeze_full (s2\<lparr>st_next_sequence := sq,
             st_active := MemTable_insert (InternalKey key sq kind) value (st_active s2)\<rparr>)"
    by (auto simp: act_Returned_iff)
  then obtain s1 payload s2 where f: "flush_frozen s = (Returned (), s1)"
    and sq: "incremented (st_next_sequence s1) = Returned sq"
    and l: "store_log payload s1 = (Returned (), s2)"
    and s': "s' = freeze_full (s2\<lparr>st_next_sequence := sq,
             st_active := MemTable_insert (InternalKey key sq kind) value (st_active s2)\<rparr>)"
    by blast
  note k = flush_frozen_keeps[OF ok f]
  from store_log_entries[OF l] obtain w where s2: "s2 = s1\<lparr>st_wal := w\<rparr>" by blast
  have sqn: "sq = Suc (st_next_sequence s)" "sq \<le> u64_max"
    using sq k by (auto simp: incremented_def checked_add_def split: if_splits)
  let ?s3 = "s2\<lparr>st_next_sequence := sq, st_active := MemTable_insert (InternalKey key sq kind) value (st_active s2)\<rparr>"
  have ok2: "store_ok s2" "st_next_sequence s2 = st_next_sequence s" "st_config s2 = st_config s"
    "set (store_entries s2) = set (store_entries s)" "st_frozen s2 = None" "st_snapshots s2 = st_snapshots s"
    using k by (simp_all add: s2)
  have "store_ok ?s3 \<and> set (store_entries ?s3) = insert (InternalKey key sq kind, value) (set (store_entries s2))"
    using store_ok_insert[OF ok2(1), of key "value" ?s3 kind] key ok2 sqn by simp
  then show ?thesis
    using freeze_full_entries[of ?s3] ok2 sqn by (simp add: s')
qed

text \<open>The refinement: a write is an update of the map of current values.\<close>

lemma store_map_insert:
  assumes ok: "store_ok s" "store_ok s'" and sq: "st_next_sequence s < sq"
    and all: "set (store_entries s') = insert (InternalKey key sq kind, value) (set (store_entries s))"
  shows "store_map s' = (store_map s)(key := (if kind = Put then Some value else None))"
proof (rule ext)
  fix k
  let ?e = "(InternalKey key sq kind, value)"
  have lt: "ik_sequence (fst e) < sq" if "e \<in> set (store_entries s)" for e
    using ok(1) sq that by (auto simp: store_ok_def version_ok_def)
  show "store_map s' k = ((store_map s)(key := (if kind = Put then Some value else None))) k"
  proof (cases "k = key")
    case True
    have cur: "current (set (store_entries s')) key e \<longleftrightarrow> e = ?e" for e
    proof
      assume c: "current (set (store_entries s')) key e"
      then have "sq \<le> ik_sequence (fst e)" by (auto simp: current_def all)
      then have "e \<notin> set (store_entries s)" using lt leD by blast
      then show "e = ?e" using c by (auto simp: current_def all)
    next
      assume "e = ?e"
      then show "current (set (store_entries s')) key e" using lt by (auto simp: current_def all intro: less_imp_le)
    qed
    have "store_map s' key = Some v \<longleftrightarrow> kind = Put \<and> value = v" for v
      using store_map_Some[OF ok(2), of key v] by (auto simp: cur)
    then show ?thesis using True by (cases "store_map s' key") auto
  next
    case False
    then have "current (set (store_entries s')) k e \<longleftrightarrow> current (set (store_entries s)) k e" for e
      by (auto simp: current_def all)
    then show ?thesis using False ok by (auto intro!: store_map_eqI)
  qed
qed

lemma Store_put_map:
  assumes "store_ok s" and "Store_put key value s = (Returned sq, s')"
  shows "store_map s' = (store_map s)(key \<mapsto> value)"
  using Store_apply_Returned[of s key "value" Put sq s'] assms store_map_insert[of s s' sq key Put "value"]
  by (simp add: Store_put_def)

lemma Store_delete_map:
  assumes "store_ok s" and "Store_delete key s = (Returned sq, s')"
  shows "store_map s' = (store_map s)(key := None)"
  using Store_apply_Returned[of s key "[]" Delete sq s'] assms store_map_insert[of s s' sq key Delete "[]"]
  by (simp add: Store_delete_def)

text \<open>A snapshot keeps reading what its sequence number saw.\<close>

lemma Store_get_snapshot_insert:
  assumes ok: "store_ok s" "store_ok s'" and sq: "st_next_sequence s < sq" and w: "w \<le> st_next_sequence s"
    and all: "set (store_entries s') = insert (InternalKey key sq kind, v) (set (store_entries s))"
  shows "Store_get s' k (Some w) = Store_get s k (Some w)"
proof -
  have "newest (store_entries s') k w = newest (store_entries s) k w"
    using ok sq w by (intro newest_cong) (auto simp: store_ok_def all candidate_def)
  then show ?thesis using ok by (simp add: Store_get_newest)
qed

section \<open>Compaction\<close>

lemma fold_merge_version:
  assumes "versions_unique (set all \<union> set es)" and "bmap_ok all"
  shows "set (fold merge_version es all) = set all \<union> set es \<and> bmap_ok (fold merge_version es all)"
  using assms
proof (induction es arbitrary: all)
  case (Cons e es)
  obtain key v where e: "e = (key, v)" by fastforce
  show ?case
  proof (cases "bmap_get all key")
    case None
    then have "set (bmap_insert key v all) = insert e (set all)"
      using set_bmap_insert_fresh[of key all v] by (simp add: e map_of_eq_None_keys)
    with Cons.IH[of "bmap_insert key v all"] Cons.prems None show ?thesis by (simp add: e merge_version_def)
  next
    case (Some v')
    then have "(key, v') \<in> set all" by (rule map_of_SomeD)
    moreover from this have "(key, v') = e"
      using Cons.prems(1) by (intro versions_uniqueD[OF Cons.prems(1)]) (simp_all add: e)
    ultimately have "e \<in> set all" by simp
    with Cons.IH[of all] Cons.prems Some show ?thesis by (auto simp: e merge_version_def insert_absorb)
  qed
qed simp

lemma fold_merge_tables:
  assumes "versions_unique (set all \<union> set (concat (map sst_entries ts)))" and "bmap_ok all"
  shows "set (fold (\<lambda>t. fold merge_version (sst_entries t)) ts all) = set all \<union> set (concat (map sst_entries ts)) \<and>
     bmap_ok (fold (\<lambda>t. fold merge_version (sst_entries t)) ts all)"
  using assms
proof (induction ts arbitrary: all)
  case (Cons t ts)
  have "set (fold merge_version (sst_entries t) all) = set all \<union> set (sst_entries t) \<and>
      bmap_ok (fold merge_version (sst_entries t) all)"
    using Cons.prems by (intro fold_merge_version) (auto elim!: versions_unique_mono)
  with Cons.IH[of "fold merge_version (sst_entries t) all"] Cons.prems(1) show ?case
    by (simp add: Un_assoc)
qed simp

lemma merge_tables_entries:
  assumes "versions_unique (set (concat (map sst_entries ts)))"
  shows "set (merge_tables ts) = set (concat (map sst_entries ts))" and "bmap_ok (merge_tables ts)"
  using fold_merge_tables[of "[]" ts] assms by (simp_all add: merge_tables_def)

lemma keep_versions_subset: "set (keep_versions m seen es) \<subseteq> set es"
  by (induction m seen es rule: keep_versions.induct) auto

text \<open>A user key's newest version survives unless it is an old tombstone.\<close>

lemma keep_versions_newest:
  assumes "bmap_ok es" and "e \<in> set es" and "user_key (fst e) \<notin> set seen"
    and "\<forall>e' \<in> set es. user_key (fst e') = user_key (fst e) \<longrightarrow> ik_sequence (fst e') \<le> ik_sequence (fst e)"
    and "versions_unique (set es)"
    and "ik_kind (fst e) = Put \<or> m \<le> ik_sequence (fst e)"
  shows "e \<in> set (keep_versions m seen es)"
  using assms
proof (induction m seen es rule: keep_versions.induct)
  case (2 m seen key v rest)
  show ?case
  proof (cases "e = (key, v)")
    case True
    then show ?thesis using 2(6,9) by auto
  next
    case False
    have mem: "e \<in> set rest" using 2(5) False by simp
    have lt: "key < fst e" using 2(4) mem by (auto simp: bmap_ok_def)
    have "user_key key \<noteq> user_key (fst e)"
    proof
      assume u: "user_key key = user_key (fst e)"
      then have "ik_sequence (fst e) \<le> ik_sequence key" using lt by (auto simp: less_internal_key_def)
      moreover have "ik_sequence key \<le> ik_sequence (fst e)" using 2(7) u by auto
      ultimately have "(key, v) = e" using 2(5,8) u by (intro versions_uniqueD[OF 2(8)]) simp_all
      then show False using False by simp
    qed
    then have seen': "user_key (fst e) \<notin> set (bset_insert (user_key key) seen)" using 2(6) by simp
    have rest: "bmap_ok rest" "versions_unique (set rest)"
      "\<forall>e' \<in> set rest. user_key (fst e') = user_key (fst e) \<longrightarrow> ik_sequence (fst e') \<le> ik_sequence (fst e)"
      using 2(4,7,8) by (auto simp: bmap_ok_def elim!: versions_unique_mono)
    show ?thesis using 2(1-3) mem 2(6) 2(9) seen' rest by (auto split: if_splits)
  qed
qed simp

lemma keep_versions_gone:
  assumes "k \<in> set seen" and "\<forall>e \<in> set es. user_key (fst e) = k \<longrightarrow> ik_sequence (fst e) < m"
  shows "\<forall>e \<in> set (keep_versions m seen es). user_key (fst e) \<noteq> k"
  using assms by (induction m seen es rule: keep_versions.induct) auto

lemma keep_versions_tombstone:
  assumes "bmap_ok es" and "e \<in> set es" and "ik_kind (fst e) = Delete" and "ik_sequence (fst e) < m"
    and "\<forall>e' \<in> set es. user_key (fst e') = user_key (fst e) \<longrightarrow> ik_sequence (fst e') \<le> ik_sequence (fst e)"
    and "versions_unique (set es)"
  shows "\<forall>e' \<in> set (keep_versions m seen es). user_key (fst e') \<noteq> user_key (fst e)"
  using assms
proof (induction m seen es rule: keep_versions.induct)
  case (2 m seen key v rest)
  have old: "\<forall>e' \<in> set rest. user_key (fst e') = user_key (fst e) \<longrightarrow> ik_sequence (fst e') < m"
    using 2(7,8) by (auto intro: le_less_trans)
  show ?case
  proof (cases "e = (key, v)")
    case True
    have "\<forall>e' \<in> set (keep_versions m (bset_insert (user_key key) seen) rest). user_key (fst e') \<noteq> user_key key"
      using old True by (intro keep_versions_gone) simp_all
    moreover have "user_key key \<in> set seen \<Longrightarrow> \<forall>e' \<in> set (keep_versions m seen rest). user_key (fst e') \<noteq> user_key key"
      using old True by (intro keep_versions_gone) simp_all
    ultimately show ?thesis using True 2(6,7) by auto
  next
    case False
    have mem: "e \<in> set rest" using 2(5) False by simp
    have lt: "key < fst e" using 2(4) mem by (auto simp: bmap_ok_def)
    have "user_key key \<noteq> user_key (fst e)"
    proof
      assume u: "user_key key = user_key (fst e)"
      then have "ik_sequence (fst e) \<le> ik_sequence key" using lt by (auto simp: less_internal_key_def)
      moreover have "ik_sequence key \<le> ik_sequence (fst e)" using 2(8) u by auto
      ultimately have "(key, v) = e" using 2(5) u by (intro versions_uniqueD[OF 2(9)]) simp_all
      then show False using False by simp
    qed
    moreover have rest: "bmap_ok rest" "versions_unique (set rest)"
      "\<forall>e' \<in> set rest. user_key (fst e') = user_key (fst e) \<longrightarrow> ik_sequence (fst e') \<le> ik_sequence (fst e)"
      using 2(4,8,9) by (auto simp: bmap_ok_def elim!: versions_unique_mono)
    ultimately show ?thesis using 2(1-3) mem 2(6,7) by auto
  qed
qed simp

lemma start_compaction_fields [simp]:
  "oldest_snapshot (start_compaction s) = oldest_snapshot s" "st_tables (start_compaction s) = st_tables s"
  by (simp_all add: oldest_snapshot_def start_compaction_def split: list.splits)

lemma finish_compaction_Returned:
  "finish_compaction old keep f s = (Returned r, s') \<longleftrightarrow>
     (\<exists>t. SstTable_from_entries f keep = Returned t \<and> publish_compaction old t s = (Returned r, s'))"
  by (auto simp: finish_compaction_def split: run.splits)

lemma Store_compact_Returned:
  assumes "Store_compact s = (Returned r, s')"
  obtains (few) "s' = s" "r = False" "length (st_tables s) < 2"
    | (compacted) table m stats where
        "sst_entries table = keep_versions (oldest_snapshot s) [] (merge_tables (st_tables s))" "table_ok table"
        "s' = s\<lparr>st_tables := [table], st_manifest := m, st_stats := stats\<rparr>" "r = True"
proof (cases "length (st_tables s) < 2")
  case True
  then show ?thesis using assms few by (simp add: Store_compact_def)
next
  case False
  let ?keep = "keep_versions (oldest_snapshot s) [] (merge_tables (st_tables s))"
  have "\<exists>f s2 table old. allocate_file ((start_compaction s)\<lparr>st_tables := []\<rparr>) = (Returned f, s2) \<and>
      SstTable_from_entries f ?keep = Returned table \<and> publish_compaction old table s2 = (Returned r, s')"
    using assms False
    by (auto simp: Store_compact_def act_Returned_iff Let_def finish_compaction_Returned)
  then obtain f s2 table old where a: "allocate_file ((start_compaction s)\<lparr>st_tables := []\<rparr>) = (Returned f, s2)"
    and t: "SstTable_from_entries f ?keep = Returned table" and p: "publish_compaction old table s2 = (Returned r, s')"
    by blast
  from a obtain m where s2: "s2 = (start_compaction s)\<lparr>st_tables := [], st_manifest := m\<rparr>"
    by (auto simp: allocate_file_def act_Returned_iff)
  from p have "\<exists>m' stats. s' = s2\<lparr>st_tables := st_tables s2 @ [table], st_manifest := m', st_stats := stats\<rparr> \<and> r = True"
    by (auto simp: publish_compaction_def Let_def act_Returned_iff)
  then obtain m' stats where s': "s' = s2\<lparr>st_tables := st_tables s2 @ [table], st_manifest := m', st_stats := stats\<rparr>" "r = True"
    by blast
  then have "s' = s\<lparr>st_tables := [table], st_manifest := m', st_stats := stats\<rparr>"
    by (simp add: s2 start_compaction_def)
  with compacted from_entries_Returned[OF t] s'(2) show ?thesis by blast
qed

text \<open>The kept versions of a compacted store, and which of them are newest.\<close>

lemma compacted_entries:
  assumes ok: "store_ok s"
    and t: "sst_entries table = keep_versions (oldest_snapshot s) [] (merge_tables (st_tables s))" "table_ok table"
    and s': "s' = s\<lparr>st_tables := [table], st_manifest := m, st_stats := stats\<rparr>"
  shows "store_ok s'" "mem_entries s' = mem_entries s" "set (table_entries s') = set (sst_entries table)"
    "set (sst_entries table) \<subseteq> set (table_entries s)"
proof -
  have "versions_unique (set (table_entries s))"
    using ok by (auto simp: store_ok_def store_entries_def elim!: versions_unique_mono)
  then have "set (merge_tables (st_tables s)) = set (table_entries s)"
    using merge_tables_entries[of "st_tables s"] by (simp add: table_entries_def)
  then show sub: "set (sst_entries table) \<subseteq> set (table_entries s)"
    using keep_versions_subset[of "oldest_snapshot s" "[]" "merge_tables (st_tables s)"] t(1) by simp
  show mem: "mem_entries s' = mem_entries s" by (simp add: s' mem_entries_def frozen_entries_def)
  show tab: "set (table_entries s') = set (sst_entries table)" by (simp add: s' table_entries_def)
  have "set (store_entries s') \<subseteq> set (store_entries s)" using sub mem tab by (auto simp: store_entries_def)
  then show "store_ok s'"
    using ok t(2) sub mem tab
    by (auto simp: store_ok_def s' frozen_entries_def elim!: versions_unique_mono)
qed

lemma newest_exists:
  assumes "finite S" and "e \<in> S" and "user_key (fst e) = k"
  shows "\<exists>c. current S k c"
proof -
  let ?S = "{e \<in> S. user_key (fst e) = k}"
  let ?q = "(\<lambda>e. ik_sequence (fst e)) ` ?S"
  have fin: "finite ?q" using assms(1) by simp
  moreover have "?q \<noteq> {}" using assms by blast
  ultimately have "Max ?q \<in> ?q" by (rule Max_in)
  then obtain c where c: "c \<in> ?S" "ik_sequence (fst c) = Max ?q" by auto
  have "ik_sequence (fst e) \<le> ik_sequence (fst c)" if "e \<in> ?S" for e
    unfolding c(2) using fin that by (intro Max_ge) auto
  with c(1) show ?thesis by (intro exI[of _ c]) (simp add: current_def)
qed

lemma current_unique:
  "versions_unique S \<Longrightarrow> current S k e \<Longrightarrow> current S k f \<Longrightarrow> e = f"
  by (auto simp: current_def intro!: versions_uniqueD[of S] le_antisym)

lemma current_Un_newer:
  assumes "\<forall>t \<in> T. \<forall>m \<in> M. ik_sequence (fst t) < ik_sequence (fst m)" and "m \<in> M" "user_key (fst m) = k"
  shows "current (M \<union> T) k e \<longleftrightarrow> current M k e"
proof
  assume c: "current (M \<union> T) k e"
  then have "ik_sequence (fst m) \<le> ik_sequence (fst e)" using assms(2,3) by (auto simp: current_def)
  then have "e \<notin> T" using assms(1,2) leD by blast
  then show "current M k e" using c by (auto simp: current_def)
next
  assume c: "current M k e"
  then have "e \<in> M" by (simp add: current_def)
  then show "current (M \<union> T) k e" using c assms(1) by (auto simp: current_def intro: less_imp_le)
qed

lemma current_Un_other: "\<forall>m \<in> M. user_key (fst m) \<noteq> k \<Longrightarrow> current (M \<union> T) k e \<longleftrightarrow> current T k e"
  by (auto simp: current_def)

lemma Store_compact_map:
  assumes ok: "store_ok s" and c: "Store_compact s = (Returned r, s')"
  shows "store_ok s' \<and> store_map s' = store_map s"
  using c
proof (cases rule: Store_compact_Returned)
  case few
  then show ?thesis using ok by simp
next
  case (compacted table m stats)
  let ?M = "set (mem_entries s)" and ?T = "set (table_entries s)" and ?K = "set (sst_entries table)"
  note parts = compacted_entries[OF ok compacted(1,2,3)]
  have S: "set (store_entries s) = ?M \<union> ?T" "set (store_entries s') = ?M \<union> ?K"
    using parts by (simp_all add: store_entries_def)
  have uniq: "versions_unique ?T" using ok by (auto simp: store_ok_def store_entries_def elim!: versions_unique_mono)
  have mt: "set (merge_tables (st_tables s)) = ?T" "bmap_ok (merge_tables (st_tables s))"
    using merge_tables_entries[of "st_tables s"] uniq by (simp_all add: table_entries_def)
  have newer: "\<forall>t \<in> ?T. \<forall>m \<in> ?M. ik_sequence (fst t) < ik_sequence (fst m)" using ok by (simp add: store_ok_def)
  have newer': "\<forall>t \<in> ?K. \<forall>m \<in> ?M. ik_sequence (fst t) < ik_sequence (fst m)" using newer parts(4) by blast
  have tables: "(\<exists>e. current ?T k e \<and> ik_kind (fst e) = Put \<and> snd e = v)
      \<longleftrightarrow> (\<exists>e. current ?K k e \<and> ik_kind (fst e) = Put \<and> snd e = v)" for k v
  proof (cases "\<exists>e. current ?T k e")
    case False
    then have "\<forall>e \<in> ?T. user_key (fst e) \<noteq> k" using newest_exists[of ?T] by blast
    then show ?thesis using parts(4) by (auto simp: current_def)
  next
    case True
    then obtain e where e: "current ?T k e" by blast
    then have e': "e \<in> set (merge_tables (st_tables s))" "user_key (fst e) = k"
      "\<forall>e' \<in> set (merge_tables (st_tables s)). user_key (fst e') = user_key (fst e) \<longrightarrow> ik_sequence (fst e') \<le> ik_sequence (fst e)"
      by (auto simp: current_def mt)
    show ?thesis
    proof (cases "ik_kind (fst e) = Put \<or> oldest_snapshot s \<le> ik_sequence (fst e)")
      case True
      then have "e \<in> ?K"
        using keep_versions_newest[OF mt(2) e'(1) _ e'(3), of "[]" "oldest_snapshot s"] uniq compacted(1) by (simp add: mt)
      then have "current ?K k e" using e parts(4) by (auto simp: current_def)
      then show ?thesis using e uniq versions_unique_mono[OF uniq parts(4)] by (metis current_unique)
    next
      case False
      then have "\<forall>e' \<in> ?K. user_key (fst e') \<noteq> k"
        using keep_versions_tombstone[OF mt(2) e'(1) _ _ e'(3), of "oldest_snapshot s" "[]"] uniq compacted(1) e'(2)
        by (cases "ik_kind (fst e)") (simp_all add: mt)
      then show ?thesis using e uniq False by (metis current_def current_unique)
    qed
  qed
  have "store_map s' k = store_map s k" for k
  proof (rule store_map_eqI[OF parts(1) ok])
    fix v
    show "(\<exists>e. current (set (store_entries s')) k e \<and> ik_kind (fst e) = Put \<and> snd e = v)
        \<longleftrightarrow> (\<exists>e. current (set (store_entries s)) k e \<and> ik_kind (fst e) = Put \<and> snd e = v)"
    proof (cases "\<exists>m \<in> ?M. user_key (fst m) = k")
      case True
      then obtain m where "m \<in> ?M" "user_key (fst m) = k" by blast
      with current_Un_newer[OF newer] current_Un_newer[OF newer'] show ?thesis unfolding S by simp
    next
      case False
      then show ?thesis unfolding S using tables[of k v] by (simp add: current_Un_other)
    qed
  qed
  then show ?thesis using parts(1) by auto
qed

text \<open>
  What compaction does to a snapshot: a version the oldest snapshot reads is dropped when a newer
  version of its key lies in the tables, unless its sequence number is the snapshot's own.
\<close>

lemma keep_versions_superseded:
  assumes "bmap_ok es" and "f \<in> set es" and "e \<in> set es" and "user_key (fst e) = user_key (fst f)"
    and "ik_sequence (fst e) < ik_sequence (fst f)" and "ik_sequence (fst e) < m" and "versions_unique (set es)"
  shows "e \<notin> set (keep_versions m seen es)"
  using assms
proof (induction m seen es rule: keep_versions.induct)
  case (2 m seen key v rest)
  have lt: "fst f < fst e" using 2(7,8) by (simp add: less_internal_key_def)
  show ?case
  proof (cases "f = (key, v)")
    case True
    then have ne: "e \<noteq> (key, v)" using 2(8) by auto
    have "e \<notin> set (keep_versions m (bset_insert (user_key key) seen') rest)" for seen'
    proof -
      have "e \<notin> set (keep_versions m sn es')" if "user_key (fst e) \<in> set sn" for sn es'
        using that 2(9)
      proof (induction m sn es' rule: keep_versions.induct)
        case (2 m seen key v rest)
        then show ?case by auto
      qed simp
      then show ?thesis using 2(7) True by simp
    qed
    moreover have "e \<notin> set (keep_versions m seen rest)" if "user_key key \<in> set seen"
    proof -
      have "e \<notin> set (keep_versions m sn es')" if "user_key (fst e) \<in> set sn" for sn es'
        using that 2(9)
      proof (induction m sn es' rule: keep_versions.induct)
        case (2 m seen key v rest)
        then show ?case by auto
      qed simp
      then show ?thesis using 2(7) True that by simp
    qed
    ultimately show ?thesis using ne by auto
  next
    case False
    then have f: "f \<in> set rest" using 2(5) by simp
    have "e \<noteq> (key, v)"
    proof
      assume "e = (key, v)"
      then have "fst e < fst f" using 2(4) f by (auto simp: bmap_ok_def)
      then show False using lt by simp
    qed
    moreover have "bmap_ok rest" "versions_unique (set rest)" "e \<in> set rest"
      using 2(4,6,10) calculation by (auto simp: bmap_ok_def elim!: versions_unique_mono)
    ultimately show ?thesis using 2(1-3) f 2(7-9) by auto
  qed
qed simp

lemma Store_compact_drops:
  assumes ok: "store_ok s" and c: "Store_compact s = (Returned True, s')"
    and w: "oldest_snapshot s = w" and f: "f \<in> set (table_entries s)" "user_key (fst f) = k" "w < ik_sequence (fst f)"
    and none: "\<forall>e \<in> set (table_entries s). user_key (fst e) = k \<longrightarrow> ik_sequence (fst e) \<noteq> w"
  shows "Store_get s' k (Some w) = None"
  using c
proof (cases rule: Store_compact_Returned)
  case few
  then show ?thesis by simp
next
  case (compacted table m stats)
  note parts = compacted_entries[OF ok compacted(1,2,3)]
  have uniq: "versions_unique (set (table_entries s))"
    using ok by (auto simp: store_ok_def store_entries_def elim!: versions_unique_mono)
  have mt: "set (merge_tables (st_tables s)) = set (table_entries s)" "bmap_ok (merge_tables (st_tables s))"
    using merge_tables_entries[of "st_tables s"] uniq by (simp_all add: table_entries_def)
  have "\<not> candidate k w e" if e: "e \<in> set (store_entries s')" for e
  proof
    assume cand: "candidate k w e"
    have "e \<notin> set (mem_entries s)"
    proof
      assume "e \<in> set (mem_entries s)"
      then have "ik_sequence (fst f) < ik_sequence (fst e)" using ok f(1) by (simp add: store_ok_def)
      then show False using f(3) cand by (simp add: candidate_def)
    qed
    then have ek: "e \<in> set (sst_entries table)" using e parts by (simp add: store_entries_def)
    then have et: "e \<in> set (table_entries s)" using parts(4) by blast
    then have "ik_sequence (fst e) < w" using cand none by (auto simp: candidate_def order_le_less)
    then show False
      using keep_versions_superseded[OF mt(2), of f e w "[]"] f et cand ek uniq compacted(1) w
      by (simp add: mt candidate_def)
  qed
  then have "newest (store_entries s') k w = None" by (simp add: newest_None)
  then show ?thesis using parts(1) by (simp add: Store_get_newest put_value_def)
qed

section \<open>Scans and logical checkpoints\<close>

lemma store_keys_ok: "bset_ok (store_keys s)"
proof -
  have "bset_ok (fold (\<lambda>t keys. bset_extend keys (map (user_key \<circ> fst) (sst_entries t))) ts keys)" if "bset_ok keys" for ts :: "sst_table list" and keys
    using that by (induction ts arbitrary: keys) simp_all
  then show ?thesis by (simp add: store_keys_def Let_def split: option.splits)
qed

lemma set_store_keys: "set (store_keys s) = (user_key \<circ> fst) ` set (store_entries s)"
proof -
  have "set (fold (\<lambda>t keys. bset_extend keys (map (user_key \<circ> fst) (sst_entries t))) ts keys)
      = set keys \<union> (user_key \<circ> fst) ` set (concat (map sst_entries ts))" for ts :: "sst_table list" and keys
    by (induction ts arbitrary: keys) auto
  then show ?thesis
    by (auto simp: store_keys_def Let_def store_entries_def mem_entries_def frozen_entries_def table_entries_def
        image_Un split: option.splits)
qed

lemma map_filter_pairs:
  "List.map_filter (\<lambda>k. map_option (\<lambda>v. (k, v)) (f k)) ks = map (\<lambda>k. (k, the (f k))) (filter (\<lambda>k. f k \<noteq> None) ks)"
  by (induction ks) (auto simp: List.map_filter_simps split: option.splits)

lemma Store_get_key:
  assumes "store_ok s" and "Store_get s k snap = Some v"
  shows "k \<in> set (store_keys s)"
proof -
  let ?w = "case snap of None \<Rightarrow> st_next_sequence s | Some w \<Rightarrow> w"
  from assms obtain b where "newest (store_entries s) k ?w = Some b"
    by (auto simp: Store_get_newest put_value_def split: option.splits)
  from newest_Some[OF this] obtain e where "e \<in> set (store_entries s)" "user_key (fst e) = k"
    by (auto simp: candidate_def)
  then show ?thesis by (auto simp: set_store_keys)
qed

lemma Store_scan_spec:
  assumes "store_ok s"
  shows "\<exists>full. Store_scan s start stop snap limit = take limit full \<and> bset_ok (map fst full) \<and>
     (\<forall>k v. (k, v) \<in> set full \<longleftrightarrow> in_key_range start stop k \<and> Store_get s k snap = Some v)"
proof -
  let ?ks = "filter (\<lambda>k. Store_get s k snap \<noteq> None) (filter (in_key_range start stop) (store_keys s))"
  let ?full = "map (\<lambda>k. (k, the (Store_get s k snap))) ?ks"
  have "Store_scan s start stop snap limit = take limit ?full"
    by (simp add: Store_scan_def map_filter_pairs)
  moreover have "map fst ?full = ?ks" by (simp add: comp_def)
  then have "bset_ok (map fst ?full)" using store_keys_ok[of s] by simp
  moreover have "(k, v) \<in> set ?full \<longleftrightarrow> in_key_range start stop k \<and> Store_get s k snap = Some v" for k v
    using Store_get_key[OF assms, of k snap v] by auto
  ultimately show ?thesis by blast
qed

lemma logical_entries_eq:
  "Store_logical_entries s =
     map (\<lambda>k. case visible_entry s k of Some (sq, _, v) \<Rightarrow> \<lparr>le_key = k, le_sequence = sq, le_value = v\<rparr>)
       (filter (\<lambda>k. put_value (visible_entry s k) \<noteq> None) (store_keys s))"
proof -
  have "List.map_filter (\<lambda>k. case b k of Some (sq, Put, v) \<Rightarrow> Some \<lparr>le_key = k, le_sequence = sq, le_value = v\<rparr> | _ \<Rightarrow> None) ks
     = map (\<lambda>k. case b k of Some (sq, _, v) \<Rightarrow> \<lparr>le_key = k, le_sequence = sq, le_value = v\<rparr>)
       (filter (\<lambda>k. put_value (b k) \<noteq> None) ks)" for b and ks :: "bytes list"
    by (induction ks) (auto simp: List.map_filter_simps put_value_def split: option.splits value_kind.splits)
  then show ?thesis by (simp add: Store_logical_entries_def)
qed

lemma logical_entries_keys:
  "map le_key (Store_logical_entries s) = filter (\<lambda>k. put_value (visible_entry s k) \<noteq> None) (store_keys s)"
  unfolding logical_entries_eq
  by (simp add: comp_def, rule map_idI) (auto simp: put_value_def split: option.splits)

lemma set_map_filter_Some: "y \<in> set (List.map_filter f xs) \<longleftrightarrow> (\<exists>x \<in> set xs. f x = Some y)"
  by (induction xs) (auto simp: List.map_filter_simps split: option.splits)

lemma visible_entry_key: "visible_entry s k = Some b \<Longrightarrow> k \<in> set (store_keys s)"
  unfolding visible_entry_newest by (drule newest_Some) (auto simp: candidate_def set_store_keys)

lemma logical_entry_iff:
  "e \<in> set (Store_logical_entries s) \<longleftrightarrow> visible_entry s (le_key e) = Some (le_sequence e, Put, le_value e)"
proof -
  have "(case b of Some (sq, Put, value) \<Rightarrow> Some \<lparr>le_key = k, le_sequence = sq, le_value = value\<rparr> | _ \<Rightarrow> None) = Some e
      \<longleftrightarrow> k = le_key e \<and> b = Some (le_sequence e, Put, le_value e)" for b k
    by (cases e) (auto split: option.splits value_kind.splits)
  then show ?thesis
    by (auto simp: Store_logical_entries_def set_map_filter_Some intro: visible_entry_key)
qed

lemma store_map_visible: "store_ok s \<Longrightarrow> store_map s k = put_value (visible_entry s k)"
  by (simp add: store_map_def Store_get_newest visible_entry_newest)

lemma logical_entries_map:
  assumes "store_ok s"
  shows "store_map s k = Some v \<longleftrightarrow> (\<exists>e \<in> set (Store_logical_entries s). le_key e = k \<and> le_value e = v)"
proof
  assume "store_map s k = Some v"
  then obtain sq where "visible_entry s k = Some (sq, Put, v)"
    using assms by (auto simp: store_map_visible put_value_def split: option.splits value_kind.splits)
  then have "\<lparr>le_key = k, le_sequence = sq, le_value = v\<rparr> \<in> set (Store_logical_entries s)"
    by (simp add: logical_entry_iff)
  then show "\<exists>e \<in> set (Store_logical_entries s). le_key e = k \<and> le_value e = v" by force
next
  assume "\<exists>e \<in> set (Store_logical_entries s). le_key e = k \<and> le_value e = v"
  then show "store_map s k = Some v"
    using assms by (auto simp: logical_entry_iff store_map_visible put_value_def)
qed

text \<open>The store a logical checkpoint restores.\<close>

definition logical_version :: "logical_entry \<Rightarrow> version" where
  "logical_version e = (InternalKey (le_key e) (le_sequence e) Put, le_value e)"

definition logical_ok :: "store_config \<Rightarrow> nat \<Rightarrow> logical_entry \<Rightarrow> bool" where
  "logical_ok cfg sq e \<longleftrightarrow> le_key e \<noteq> [] \<and> length (le_key e) \<le> max_key_bytes cfg \<and>
     length (le_value e) \<le> max_value_bytes cfg \<and> 0 < le_sequence e \<and> le_sequence e \<le> sq"

lemma insert_logical_Returned:
  assumes "\<forall>e \<in> set es. logical_ok (st_config s) sq e" and "bset_ok (map le_key es)"
    and "case previous of None \<Rightarrow> True | Some key \<Rightarrow> \<forall>e \<in> set es. key < le_key e"
    and "\<forall>e \<in> set es. \<forall>v \<in> set (mt_entries (st_active s)). user_key (fst v) \<noteq> le_key e"
  shows "\<exists>t. insert_logical sq previous es s = Returned (s\<lparr>st_active := t\<rparr>) \<and>
     set (mt_entries t) = set (mt_entries (st_active s)) \<union> logical_version ` set es"
  using assms
proof (induction es arbitrary: previous s)
  case Nil
  then show ?case by (intro exI[of _ "st_active s"]) simp
next
  case (Cons e es)
  let ?k = "InternalKey (le_key e) (le_sequence e) Put"
  let ?s = "s\<lparr>st_active := MemTable_insert ?k (le_value e) (st_active s)\<rparr>"
  have "?k \<notin> set (bmap_keys (mt_entries (st_active s)))" using Cons.prems(4) by force
  then have ins: "set (mt_entries (st_active ?s)) = insert (logical_version e) (set (mt_entries (st_active s)))"
    by (simp add: MemTable_insert_def set_bmap_insert_fresh logical_version_def)
  have guard: "insert_logical sq previous (e # es) s = insert_logical sq (Some (le_key e)) es ?s"
    using Cons.prems(1,3) by (auto simp: logical_ok_def not_le split: option.splits)
  have "\<exists>t. insert_logical sq (Some (le_key e)) es ?s = Returned (?s\<lparr>st_active := t\<rparr>) \<and>
     set (mt_entries t) = set (mt_entries (st_active ?s)) \<union> logical_version ` set es"
    using Cons.prems(1,2,4) unfolding ins
    by (intro Cons.IH[of ?s "Some (le_key e)", unfolded ins]) (auto simp: bset_ok_Cons logical_version_def)
  then show ?case unfolding guard ins by auto
qed

lemma Store_from_logical_spec:
  assumes wal: "Wal_new (sc_wal cfg) = Returned w"
    and es: "\<forall>e \<in> set es. logical_ok cfg sq e" "bset_ok (map le_key es)"
  shows "\<exists>s. Store_from_logical cfg sq es = Returned s \<and> store_ok s \<and> st_config s = cfg \<and> st_next_sequence s = sq \<and>
     set (store_entries s) = logical_version ` set es \<and>
     (\<forall>k v. store_map s k = Some v \<longleftrightarrow> (\<exists>e \<in> set es. le_key e = k \<and> le_value e = v))"
proof -
  let ?s0 = "\<lparr>st_config = cfg, st_wal = w, st_active = MemTable_default, st_frozen = None,
                 st_tables = [], st_manifest = Manifest_default, st_next_sequence = 0,
                 st_snapshots = [], st_applied_watermark = None, st_metadata = [],
                 st_stats = StoreStats_default\<rparr>"
  have new: "Store_new cfg = Returned ?s0" by (simp add: Store_new_def wal)
  from insert_logical_Returned[of es ?s0 sq None] es obtain t where
    t: "insert_logical sq None es ?s0 = Returned (?s0\<lparr>st_active := t\<rparr>)" "set (mt_entries t) = logical_version ` set es"
    by (auto simp: MemTable_default_def)
  let ?s = "?s0\<lparr>st_active := t, st_next_sequence := sq\<rparr>"
  have all: "set (store_entries ?s) = logical_version ` set es"
    by (simp add: store_entries_def mem_entries_def frozen_entries_def table_entries_def t)
  have inj: "e = e'" if "e \<in> set es" "e' \<in> set es" "le_key e = le_key e'" for e e'
    using es(2) that by (metis bset_ok_distinct distinct_map inj_onD)
  have uniq: "versions_unique (set (store_entries ?s))"
    unfolding all versions_unique_def using inj by (auto simp: logical_version_def)
  then have ok: "store_ok ?s"
    using es(1) all
    by (auto simp: store_ok_def logical_ok_def version_ok_def logical_version_def frozen_entries_def table_entries_def)
  moreover have "store_map ?s k = Some v \<longleftrightarrow> (\<exists>e \<in> set es. le_key e = k \<and> le_value e = v)" for k v
    unfolding store_map_Some[OF ok] all using inj by (force simp: current_def logical_version_def)
  moreover have "Store_from_logical cfg sq es = Returned ?s" by (simp add: Store_from_logical_def new t(1))
  ultimately show ?thesis using all by auto
qed

lemma logical_roundtrip:
  assumes ok: "store_ok s" and wal: "Wal_new (sc_wal (st_config s)) = Returned w"
  shows "\<exists>s'. Store_from_logical (st_config s) (Store_last_sequence s) (Store_logical_entries s) = Returned s' \<and>
     store_ok s' \<and> store_map s' = store_map s \<and> Store_last_sequence s' = Store_last_sequence s"
proof -
  have "logical_ok (st_config s) (Store_last_sequence s) e" if "e \<in> set (Store_logical_entries s)" for e
  proof -
    from that have "newest (store_entries s) (le_key e) (st_next_sequence s) = Some (le_sequence e, Put, le_value e)"
      by (simp add: logical_entry_iff visible_entry_newest)
    from newest_Some[OF this] obtain v where "v \<in> set (store_entries s)" "user_key (fst v) = le_key e"
      "ik_sequence (fst v) = le_sequence e" "snd v = le_value e" by (auto simp: candidate_def hit_def)
    then show ?thesis using ok by (force simp: store_ok_def version_ok_def logical_ok_def Store_last_sequence_def)
  qed
  moreover have "bset_ok (map le_key (Store_logical_entries s))"
    using store_keys_ok[of s] by (simp add: logical_entries_keys)
  ultimately obtain s' where s': "Store_from_logical (st_config s) (Store_last_sequence s) (Store_logical_entries s) = Returned s'"
      "store_ok s'" "st_next_sequence s' = Store_last_sequence s"
      "\<forall>k v. store_map s' k = Some v \<longleftrightarrow> (\<exists>e \<in> set (Store_logical_entries s). le_key e = k \<and> le_value e = v)"
    using Store_from_logical_spec[OF wal] by metis
  then have "store_map s' k = store_map s k" for k
    using logical_entries_map[OF ok] by (metis not_None_eq)
  then show ?thesis using s' by (auto simp: Store_last_sequence_def)
qed

section \<open>Writes that fail, and writes that return\<close>

text \<open>
  \<open>store_room\<close>: the memtables are small enough for one table.  Each version counts at least
  seventeen bytes, so the memtable limit of the configuration bounds the number of versions.
\<close>

definition store_room :: "store \<Rightarrow> bool" where
  "store_room s \<longleftrightarrow>
     memtable_bytes (st_config s) \<le> 17 * u32_max \<and>
     17 * length (mt_entries (st_active s)) \<le> mt_bytes (st_active s) \<and>
     length (mt_entries (st_active s)) < u32_max \<and> length (frozen_entries s) \<le> u32_max"

definition store_wal_ok :: "store \<Rightarrow> bool" where
  "store_wal_ok s \<longleftrightarrow> (\<exists>n. wal_layout True (st_wal s) n)"

definition store_inv :: "store \<Rightarrow> bool" where
  "store_inv s \<longleftrightarrow> store_ok s \<and> store_room s \<and> store_wal_ok s"

lemma encode_versions_not_Failed: "encode_versions es \<noteq> Failed e"
proof (induction es)
  case (Cons x es)
  have "encode_version x \<noteq> Failed e" by (auto simp: encode_version_def split: prod.splits if_splits)
  then show ?case using Cons by (cases "encode_version x"; cases "encode_versions es") auto
qed simp

lemma from_entries_not_Failed: "length es \<le> u32_max \<Longrightarrow> SstTable_from_entries f es \<noteq> Failed e"
  using encode_versions_not_Failed[of es e]
  by (cases "encode_versions es") (auto simp: SstTable_from_entries_def Let_def)

lemma incremented_cases: "incremented n = (if n < u64_max then Returned (Suc n) else Panicked)"
  by (auto simp: incremented_def checked_add_def)

lemma allocate_file_cases:
  "allocate_file s = (if mf_next_file_no (st_manifest s) < u64_max
     then (Returned (mf_next_file_no (st_manifest s)),
           s\<lparr>st_manifest := (st_manifest s)\<lparr>mf_next_file_no := Suc (mf_next_file_no (st_manifest s)),
              mf_edits := mf_edits (st_manifest s) @ [NewFileNo (Suc (mf_next_file_no (st_manifest s)))]\<rparr>\<rparr>)
     else (Panicked, s))"
  by (simp add: allocate_file_def Manifest_allocate_file_def incremented_cases act_def)

lemma publish_flush_not_Failed: "publish_flush b t s \<noteq> (Failed e, s')"
  by (simp add: publish_flush_def Let_def act_Failed_iff incremented_cases)

lemma flush_source_room: "store_room s \<Longrightarrow> take_flush_source s = Some (source, s1) \<Longrightarrow> length (mt_entries source) \<le> u32_max"
  by (auto simp: store_room_def take_flush_source_def frozen_entries_def split: option.splits if_splits)

lemma Store_flush_not_Failed:
  assumes "store_room s" shows "Store_flush s \<noteq> (Failed e, s')"
proof (cases "take_flush_source s")
  case (Some p)
  obtain source s1 where p: "p = (source, s1)" by fastforce
  have "length (mt_entries source) \<le> u32_max" using flush_source_room[OF assms] Some p by simp
  then show ?thesis
    using from_entries_not_Failed publish_flush_not_Failed
    by (auto simp: Store_flush_def Some p act_Failed_iff allocate_file_cases split: if_splits)
qed (simp add: Store_flush_def)

lemma Store_flush_room:
  assumes room: "store_room s" and fl: "Store_flush s = (Returned r, s')"
  shows "store_room s'"
  using fl
proof (cases rule: Store_flush_Returned)
  case (flushed source s1 table m stats)
  have "store_room s1"
    using room flushed(1)
    by (auto simp: take_flush_source_def store_room_def frozen_entries_def MemTable_default_def u32_max_def
        split: option.splits if_splits)
  then show ?thesis by (simp add: flushed(4) store_room_def frozen_entries_def)
qed (use room in simp)

lemma flush_frozen_inv:
  assumes "store_inv s" and "flush_frozen s = (r, s')"
  shows "case r of Returned _ \<Rightarrow> store_inv s' \<and> set (store_entries s') = set (store_entries s) \<and>
        st_config s' = st_config s \<and> st_next_sequence s' = st_next_sequence s \<and> st_frozen s' = None \<and>
        st_wal s' = st_wal s \<and> st_snapshots s' = st_snapshots s
    | Failed _ \<Rightarrow> False | Panicked \<Rightarrow> True"
proof (cases r)
  case (Returned u)
  have "store_room s'"
    using assms Returned Store_flush_room by (auto simp: flush_frozen_def store_inv_def act_Returned_iff split: if_splits)
  moreover have "store_ok s" using assms(1) by (simp add: store_inv_def)
  note flush_frozen_keeps[OF this assms(2)[unfolded Returned]]
  ultimately show ?thesis using assms(1) Returned by (simp add: store_inv_def store_wal_ok_def)
next
  case (Failed e)
  then show ?thesis
    using assms Store_flush_not_Failed by (auto simp: flush_frozen_def store_inv_def act_Failed_iff split: if_splits)
qed simp

lemma store_log_inv:
  assumes wal: "store_wal_ok s" and l: "store_log p s = (r, s')"
  shows "case r of Returned _ \<Rightarrow> store_wal_ok s'
    | Failed _ \<Rightarrow> s' = s \<and> \<not> (record_fits (max_record_size (wal_cfg (st_wal s))) p
                              \<and> 9 + length p \<le> segment_size (wal_cfg (st_wal s)) - 14)
    | Panicked \<Rightarrow> u64_max \<le> seg_sequence (last (wal_segments (st_wal s)))"
proof -
  from wal obtain n where lay: "wal_layout True (st_wal s) n" by (auto simp: store_wal_ok_def)
  obtain r1 w where a: "Wal_append Data p (st_wal s) = (r1, w)" by fastforce
  note c = Wal_append_cases[OF lay a]
  show ?thesis
  proof (cases r1)
    case (Returned lr)
    then have "wal_layout True w n" using c by simp
    moreover obtain x w' where "Wal_commit w = (x, w')" by fastforce
    ultimately have "wal_layout True (snd (Wal_commit w)) (length (wal_records (snd (Wal_commit w))))"
      using Wal_commit_layout[of True w n x w'] by simp
    then show ?thesis using l a Returned by (auto simp: store_log_def store_wal_ok_def)
  qed (use l a c in \<open>auto simp: store_log_def\<close>)
qed

lemma length_bmap_insert_fresh: "k \<notin> set (bmap_keys m) \<Longrightarrow> length (bmap_insert k v m) = Suc (length m)"
  by (induction k v m rule: bmap_insert.induct) auto

lemma length_bmap_insert: "length (bmap_insert k v m) \<le> Suc (length m)"
  by (induction k v m rule: bmap_insert.induct) auto

lemma freeze_full_room:
  assumes room: "store_room s" and fz: "st_frozen s = None"
    and s': "st_active s' = MemTable_insert ik v (st_active s)" "st_frozen s' = None" "st_config s' = st_config s"
  shows "store_room (freeze_full s')"
proof -
  let ?t = "MemTable_insert ik v (st_active s)"
  have len: "length (mt_entries ?t) \<le> Suc (length (mt_entries (st_active s)))"
    using length_bmap_insert by (simp add: MemTable_insert_def)
  then have lt: "length (mt_entries ?t) \<le> u32_max" using room by (simp add: store_room_def)
  then have "17 * length (mt_entries ?t) \<le> u64_max" by (simp add: u32_max_def u64_max_def)
  then have bytes: "17 * length (mt_entries ?t) \<le> mt_bytes ?t"
    using room len by (auto simp: MemTable_insert_def store_room_def sat_add_def)
  show ?thesis
  proof (cases "memtable_bytes (st_config s) \<le> mt_bytes ?t")
    case True
    then show ?thesis using room lt s'
      by (simp add: freeze_full_def store_room_def frozen_entries_def MemTable_default_def u32_max_def)
  next
    case False
    then have "17 * length (mt_entries ?t) < 17 * u32_max" using bytes room by (simp add: store_room_def)
    then show ?thesis using False room bytes s' by (simp add: freeze_full_def store_room_def frozen_entries_def)
  qed
qed

lemma Store_apply_cases:
  assumes inv: "store_inv s" and ap: "Store_apply key v kind s = (r, s')"
  shows "case r of
      Returned sq \<Rightarrow> store_inv s' \<and> store_map s' = (store_map s)(key := (if kind = Put then Some v else None))
    | Failed e \<Rightarrow> store_inv s' \<and> store_map s' = store_map s
    | Panicked \<Rightarrow> True"
proof -
  have ok: "store_ok s" using inv by (simp add: store_inv_def)
  show ?thesis
  proof (cases "key = [] \<or> max_key_bytes (st_config s) < length key \<or> max_value_bytes (st_config s) < length v")
    case True
    then have "\<exists>e. r = Failed e \<and> s' = s" using ap by (auto simp: Store_apply_def split: if_splits)
    then show ?thesis using inv by auto
  next
    case guards: False
    obtain r1 s1 where f: "flush_frozen s = (r1, s1)" by fastforce
    note fl = flush_frozen_inv[OF inv f]
    show ?thesis
    proof (cases r)
      case (Returned sq)
      note w = Store_apply_Returned[OF ok ap[unfolded Returned]]
      have "store_map s' = (store_map s)(key := (if kind = Put then Some v else None))"
        using ok w by (intro store_map_insert) auto
      moreover from ap guards Returned have "\<exists>payload s2. flush_frozen s = (Returned (), s1) \<and> store_log payload s1 = (Returned (), s2) \<and>
        s' = freeze_full (s2\<lparr>st_next_sequence := sq, st_active := MemTable_insert (InternalKey key sq kind) v (st_active s2)\<rparr>)"
        by (auto simp: Store_apply_def act_Returned_iff f)
      then obtain payload s2 where f1: "flush_frozen s = (Returned (), s1)" and l: "store_log payload s1 = (Returned (), s2)"
        and s': "s' = freeze_full (s2\<lparr>st_next_sequence := sq, st_active := MemTable_insert (InternalKey key sq kind) v (st_active s2)\<rparr>)"
        by blast
      have k: "store_inv s1" "st_frozen s1 = None" using fl f1 f by auto
      from store_log_entries[OF l] obtain w2 where s2: "s2 = s1\<lparr>st_wal := w2\<rparr>" by blast
      have "store_room s'" unfolding s' using k
        by (intro freeze_full_room[where s = s1]) (simp_all add: s2 store_inv_def)
      moreover have "store_wal_ok s2" using store_log_inv[OF _ l] k(1) by (simp add: store_inv_def)
      then have "store_wal_ok s'" by (simp add: s' freeze_full_def store_wal_ok_def)
      ultimately show ?thesis using Returned w by (simp add: store_inv_def)
    next
      case (Failed e)
      from ap guards Failed fl f have "\<exists>payload. flush_frozen s = (Returned (), s1) \<and> store_log payload s1 = (Failed e, s')"
        by (auto simp: Store_apply_def act_Failed_iff incremented_cases encode_mutation_def split: if_splits)
      then obtain payload where f1: "flush_frozen s = (Returned (), s1)" and l: "store_log payload s1 = (Failed e, s')" by blast
      have k: "store_inv s1" "set (store_entries s1) = set (store_entries s)" using fl f1 f by auto
      have "s' = s1" using store_log_inv[OF _ l] k(1) by (simp add: store_inv_def)
      then show ?thesis using Failed k ok store_map_same_entries[of s s1] by (simp add: store_inv_def)
    qed simp
  qed
qed

interpretation lsm: mapped_store store_inv store_map Store_put Store_delete
  by unfold_locales (auto simp: Store_put_def Store_delete_def dest: Store_apply_cases)

text \<open>The state right after creation satisfies the invariant.\<close>

lemma Store_new_inv:
  assumes "Store_new cfg = Returned s" and "memtable_bytes cfg \<le> 17 * u32_max" and "segment_size (sc_wal cfg) \<le> u32_max"
  shows "store_inv s" "store_map s = Map.empty"
proof -
  obtain w where w: "Wal_new (sc_wal cfg) = Returned w" and s: "s = \<lparr>st_config = cfg, st_wal = w, st_active = MemTable_default, st_frozen = None,
                 st_tables = [], st_manifest = Manifest_default, st_next_sequence = 0,
                 st_snapshots = [], st_applied_watermark = None, st_metadata = [],
                 st_stats = StoreStats_default\<rparr>"
    using assms(1) by (auto simp: Store_new_def run_bind_Returned_iff)
  have "wal_layout True w 0" using w assms(3) by (rule wal_layout_new)
  then show inv: "store_inv s"
    using assms(2)
    by (auto simp: store_inv_def store_ok_def store_room_def store_wal_ok_def s store_entries_def mem_entries_def
        frozen_entries_def table_entries_def MemTable_default_def versions_unique_def u32_max_def)
  have "store_entries s = []" by (simp add: s store_entries_def mem_entries_def frozen_entries_def table_entries_def MemTable_default_def)
  then have "store_map s k \<noteq> Some v" for k v
    using inv store_map_Some[of s] by (auto simp: store_inv_def current_def)
  then show "store_map s = Map.empty" by (intro ext) (metis not_None_eq)
qed

text \<open>
  The limits under which a write cannot fail: key and value bounds within one log record, and no
  counter at the end of its range.
\<close>

definition store_limits :: "store \<Rightarrow> bool" where
  "store_limits s \<longleftrightarrow>
     max_key_bytes (st_config s) \<le> MAX_CODEC_BYTES \<and> max_value_bytes (st_config s) \<le> MAX_CODEC_BYTES \<and>
     26 + max_key_bytes (st_config s) + max_value_bytes (st_config s) \<le> max_record_size (wal_cfg (st_wal s)) \<and>
     40 + max_key_bytes (st_config s) + max_value_bytes (st_config s) \<le> segment_size (wal_cfg (st_wal s)) \<and>
     st_next_sequence s < u64_max \<and> mf_next_file_no (st_manifest s) < u64_max \<and>
     mf_generation (st_manifest s) < u64_max \<and> seg_sequence (last (wal_segments (st_wal s))) < u64_max"

lemma encode_versions_returns:
  "\<forall>e \<in> set es. enc_bytes_ok (user_key (fst e)) \<and> enc_bytes_ok (snd e) \<Longrightarrow> \<exists>b. encode_versions es = Returned b"
  by (induction es) (auto simp: encode_version_def)

lemma Store_flush_returns:
  assumes ok: "store_ok s" and room: "store_room s" and lim: "store_limits s"
  shows "\<exists>r s'. Store_flush s = (Returned r, s')"
proof (cases "take_flush_source s")
  case (Some p)
  obtain source s1 where p: "p = (source, s1)" by fastforce
  have s1: "st_manifest s1 = st_manifest s"
    using Some p by (auto simp: take_flush_source_def split: option.splits if_splits)
  have "enc_bytes_ok (user_key (fst e)) \<and> enc_bytes_ok (snd e)" if "e \<in> set (mt_entries source)" for e
  proof -
    have "e \<in> set (store_entries s)" using that flush_source_entries(1)[of s source s1] Some p by (auto simp: store_entries_def)
    then show ?thesis using ok lim by (force simp: store_ok_def version_ok_def store_limits_def enc_bytes_ok_def)
  qed
  then obtain b where "encode_versions (mt_entries source) = Returned b" using encode_versions_returns by blast
  moreover have "length (mt_entries source) \<le> u32_max" using flush_source_room[OF room] Some p by simp
  ultimately have "\<exists>t. SstTable_from_entries f (mt_entries source) = Returned t" for f
    by (simp add: SstTable_from_entries_def Let_def)
  then obtain t where t: "SstTable_from_entries (mf_next_file_no (st_manifest s)) (mt_entries source) = Returned t" by blast
  have gen: "\<exists>x s''. publish_flush n t s2 = (Returned x, s'')" if "mf_generation (st_manifest s2) < u64_max" for n s2
    using that by (simp add: publish_flush_def Let_def act_def incremented_cases Manifest_add_file_def)
  have "mf_next_file_no (st_manifest s1) < u64_max" "mf_generation (st_manifest s1) < u64_max"
    using lim by (simp_all add: s1 store_limits_def)
  then show ?thesis
    using t gen by (simp add: Store_flush_def Some p act_def allocate_file_cases s1)
qed (simp add: Store_flush_def)

lemma Store_apply_returns:
  assumes inv: "store_inv s" and lim: "store_limits s"
    and key: "key \<noteq> []" "length key \<le> max_key_bytes (st_config s)" "length v \<le> max_value_bytes (st_config s)"
  shows "\<exists>sq s'. Store_apply key v kind s = (Returned sq, s')"
proof -
  have "\<exists>s1. flush_frozen s = (Returned (), s1)"
    using Store_flush_returns[of s] inv lim by (auto simp: flush_frozen_def act_def store_inv_def)
  then obtain s1 where f: "flush_frozen s = (Returned (), s1)" by blast
  note k = flush_frozen_inv[OF inv f, simplified]
  let ?sq = "Suc (st_next_sequence s)"
  have enc: "enc_bytes_ok key" "enc_bytes_ok v" using key lim by (auto simp: store_limits_def enc_bytes_ok_def)
  let ?p = "enc_u64 ?sq @ enc_u8 (ValueKind_byte kind) @ enc_bytes key @ enc_bytes v"
  have len: "length ?p = 17 + length key + length v" by simp
  have wc: "\<exists>n. wal_layout True (st_wal s) n" using inv by (simp add: store_inv_def store_wal_ok_def)
  have fits: "record_fits (max_record_size (wal_cfg (st_wal s1))) ?p" "9 + length ?p \<le> segment_size (wal_cfg (st_wal s1)) - 14"
    using lim key k wc unfolding len store_limits_def record_fits_def wal_layout_def wal_config_ok_def
    by (auto simp: u32_max_def MAX_RECORD_SIZE_def)
  obtain r s2 where l: "store_log ?p s1 = (r, s2)" by fastforce
  have "store_wal_ok s1" using k by (simp add: store_inv_def)
  from store_log_inv[OF this l] fits lim k have "\<exists>u. r = Returned u"
    by (cases r) (auto simp: store_limits_def)
  then show ?thesis
    using l enc key f lim k
    by (auto simp: Store_apply_def act_def incremented_cases store_limits_def encode_mutation_def)
qed

section \<open>Compaction runs\<close>

lemma length_fold_merge_version: "length (fold merge_version es all) \<le> length all + length es"
proof (induction es arbitrary: all)
  case (Cons e es)
  have "length (merge_version e all) \<le> Suc (length all)"
    using length_bmap_insert[of "fst e" "snd e" all] by (auto simp: merge_version_def split: option.splits prod.splits)
  then show ?case using Cons.IH[of "merge_version e all"] by simp
qed simp

lemma length_merge_tables: "length (merge_tables ts) \<le> length (concat (map sst_entries ts))"
proof -
  have "length (fold (\<lambda>t. fold merge_version (sst_entries t)) ts all) \<le> length all + length (concat (map sst_entries ts))" for all
  proof (induction ts arbitrary: all)
    case (Cons t ts)
    show ?case
      using length_fold_merge_version[of "sst_entries t" all] Cons.IH[of "fold merge_version (sst_entries t) all"] by simp
  qed simp
  from this[of "[]"] show ?thesis by (simp add: merge_tables_def)
qed

lemma length_keep_versions: "length (keep_versions m seen es) \<le> length es"
  by (induction m seen es rule: keep_versions.induct) auto

lemma remove_files_generation:
  "mf_generation (fold (\<lambda>(old_file, level). Manifest_remove_file level old_file) old m) = mf_generation m"
  by (induction old arbitrary: m) (auto simp: Manifest_remove_file_def)

lemma Store_compact_returns:
  assumes ok: "store_ok s" and lim: "store_limits s" and two: "2 \<le> length (st_tables s)"
    and few: "length (table_entries s) \<le> u32_max"
  shows "\<exists>s'. Store_compact s = (Returned True, s')"
proof -
  let ?keep = "keep_versions (oldest_snapshot s) [] (merge_tables (st_tables s))"
  have vu: "versions_unique (set (table_entries s))"
    using ok by (auto simp: store_ok_def store_entries_def elim!: versions_unique_mono)
  then have "set ?keep \<subseteq> set (table_entries s)"
    using merge_tables_entries(1)[of "st_tables s"] keep_versions_subset[of "oldest_snapshot s" "[]" "merge_tables (st_tables s)"]
    by (simp add: table_entries_def)
  then have "\<forall>e \<in> set ?keep. enc_bytes_ok (user_key (fst e)) \<and> enc_bytes_ok (snd e)"
    using ok lim by (force simp: store_ok_def store_entries_def version_ok_def store_limits_def enc_bytes_ok_def)
  from encode_versions_returns[OF this] obtain b where "encode_versions ?keep = Returned b" by blast
  moreover have "length ?keep \<le> u32_max"
    using length_keep_versions[of "oldest_snapshot s" "[]" "merge_tables (st_tables s)"] length_merge_tables[of "st_tables s"] few
    by (simp add: table_entries_def)
  ultimately have t: "\<exists>t. SstTable_from_entries f ?keep = Returned t" for f
    by (simp add: SstTable_from_entries_def Let_def)
  have "\<exists>s''. publish_compaction old t s2 = (Returned True, s'')" if "mf_generation (st_manifest s2) < u64_max" for old t s2
    using that by (simp add: publish_compaction_def Let_def act_def incremented_cases Manifest_add_file_def remove_files_generation)
  then have fin: "\<exists>s''. finish_compaction old ?keep f s2 = (Returned True, s'')" if "mf_generation (st_manifest s2) < u64_max" for old f s2
    using t[of f] that by (auto simp: finish_compaction_def)
  have sm: "st_manifest (start_compaction s) = st_manifest s" by (simp add: start_compaction_def)
  have "\<exists>s2. allocate_file ((start_compaction s)\<lparr>st_tables := []\<rparr>) = (Returned (mf_next_file_no (st_manifest s)), s2) \<and>
      mf_generation (st_manifest s2) < u64_max"
    using lim by (simp add: allocate_file_cases sm store_limits_def)
  then show ?thesis using two fin by (auto simp: Store_compact_def Let_def act_def)
qed

end
