(* ===== verification/StorageSample.thy ===== *)
theory StorageSample
  imports DurableLog StoreMap
begin

text \<open>
  Concrete logs and stores that instantiate the storage theorems: a write-ahead log with one
  committed and one pending record, a durable log behind a genesis record, and a store with two
  tables and a pinned snapshot.
\<close>

section \<open>A write-ahead log\<close>

text \<open>An append that fits the active segment.\<close>

lemma Wal_append_here:
  assumes "wal_segments w \<noteq> []" "record_fits (max_record_size (wal_cfg w)) payload"
    "14 \<le> length (seg_bytes (last (wal_segments w)))"
    "length (seg_bytes (last (wal_segments w))) + (9 + length payload) \<le> segment_size (wal_cfg w)"
    "segment_size (wal_cfg w) \<le> u32_max"
  shows "\<exists>rng w'. Wal_append kind payload w = (Returned rng, w') \<and>
     wal_segments w' = butlast (wal_segments w) @ [Segment_extend (record_bytes kind payload) (last (wal_segments w))] \<and>
     wal_cfg w' = wal_cfg w \<and> map rec_payload (wal_records w') = map rec_payload (wal_records w) @ [payload] \<and>
     map rec_kind (wal_records w') = map rec_kind (wal_records w) @ [kind]"
proof -
  have "encode_record kind payload (max_record_size (wal_cfg w)) = Returned (record_bytes kind payload)"
    using assms(2) by (simp add: encode_record_eq)
  then show ?thesis using assms
    by (auto simp: Wal_append_def act_def act_run_def act_ret_def Wal_active_def push_record_def Let_def offset_u32_def
        Wal_active_mut_def SEGMENT_HEADER_SIZE_def)
qed

definition sample_wal_new :: wal where
  "sample_wal_new = \<lparr>wal_cfg = WalConfig_default, wal_segments = [Segment_new 0], wal_records = [],
     wal_pending_first = None\<rparr>"

definition sample_wal_committed :: wal where
  "sample_wal_committed = snd (Wal_commit (snd (Wal_append Data [1, 2] sample_wal_new)))"

definition sample_wal :: wal where
  "sample_wal = snd (Wal_append Data [3] sample_wal_committed)"

lemma default_sizes [simp]:
  "segment_size WalConfig_default = 16777216" "max_record_size WalConfig_default = 2097152"
  by (simp_all add: WalConfig_default_def DEFAULT_SEGMENT_SIZE_def MAX_RECORD_SIZE_def)

lemma default_segment: "segment_size WalConfig_default \<le> u32_max"
  by (simp add: u32_max_def)

lemma Wal_new_default: "Wal_new WalConfig_default = Returned sample_wal_new"
  by (simp add: Wal_new_def sample_wal_new_def SEGMENT_HEADER_SIZE_def RECORD_HEADER_SIZE_def MAX_RECORD_SIZE_def)

lemma sample_wal_run:
  "wal_run WalConfig_default sample_wal 1"
  "map rec_payload (wal_records sample_wal) = [[1, 2], [3]]" "map rec_kind (wal_records sample_wal) = [Data, Data]"
  "length (seg_bytes (last (wal_segments sample_wal))) = 35"
proof -
  have r0: "wal_run WalConfig_default sample_wal_new 0" using Wal_new_default by (rule run_new)
  have "\<exists>rng w'. Wal_append Data [1, 2] sample_wal_new = (Returned rng, w') \<and>
     wal_segments w' = [Segment_extend (record_bytes Data [1, 2]) (Segment_new 0)] \<and>
     wal_cfg w' = WalConfig_default \<and> map rec_payload (wal_records w') = [[1, 2]] \<and> map rec_kind (wal_records w') = [Data]"
    using Wal_append_here[of sample_wal_new "[1, 2]" Data]
    by (simp add: sample_wal_new_def record_fits_def u32_max_def)
  then obtain rng w1 where w1: "Wal_append Data [1, 2] sample_wal_new = (Returned rng, w1)"
      "wal_segments w1 = [Segment_extend (record_bytes Data [1, 2]) (Segment_new 0)]"
      "wal_cfg w1 = WalConfig_default" "map rec_payload (wal_records w1) = [[1, 2]]" "map rec_kind (wal_records w1) = [Data]"
    by (elim exE conjE)
  obtain x w2 where c: "Wal_commit w1 = (x, w2)" by fastforce
  have two: "sample_wal_committed = w2" by (simp add: sample_wal_committed_def w1 c)
  have w2: "wal_records w2 = wal_records w1" "wal_cfg w2 = wal_cfg w1" "length (wal_segments w2) = 1"
      "map seg_bytes (wal_segments w2) = map seg_bytes (wal_segments w1)"
    using c w1(2) by (auto simp: Wal_commit_def Wal_flush_def Let_def split: option.splits if_splits)
  have "wal_run WalConfig_default w2 (length (wal_records w2))"
    using run_commit[OF run_append[OF r0 w1(1)] c] .
  moreover have one: "length (wal_records w2) = 1" using w1(4) w2(1) by (metis length_map length_Cons list.size(3) One_nat_def)
  ultimately have run2: "wal_run WalConfig_default w2 1" by simp
  from w2(3) obtain s where s: "wal_segments w2 = [s]" by (auto simp: length_Suc_conv)
  then have len: "length (seg_bytes s) = 25" using w2(4) w1(2) by (simp add: Segment_extend_def)
  have "\<exists>rng w'. Wal_append Data [3] w2 = (Returned rng, w') \<and> wal_segments w' = [Segment_extend (record_bytes Data [3]) s] \<and>
     wal_cfg w' = WalConfig_default \<and> map rec_payload (wal_records w') = [[1, 2], [3]] \<and> map rec_kind (wal_records w') = [Data, Data]"
    using Wal_append_here[of w2 "[3]" Data] w1 w2 s len by (simp add: record_fits_def u32_max_def)
  then obtain rng3 w3 where w3: "Wal_append Data [3] w2 = (Returned rng3, w3)"
      "wal_segments w3 = [Segment_extend (record_bytes Data [3]) s]"
      "map rec_payload (wal_records w3) = [[1, 2], [3]]" "map rec_kind (wal_records w3) = [Data, Data]"
    by (elim exE conjE)
  have three: "sample_wal = w3" by (simp add: sample_wal_def two w3)
  show "wal_run WalConfig_default sample_wal 1" using run_append[OF run2 w3(1)] three by simp
  show "map rec_payload (wal_records sample_wal) = [[1, 2], [3]]" "map rec_kind (wal_records sample_wal) = [Data, Data]"
    using w3 three by simp_all
  show "length (seg_bytes (last (wal_segments sample_wal))) = 35" using w3(2) three len by (simp add: Segment_extend_def)
qed

section \<open>A durable log\<close>

definition first_membership :: membership_state where
  "first_membership = \<lparr>ms_voters = [1, 2, 3], ms_learners = [], ms_joint = None, ms_addresses = [],
     ms_active_features = 0\<rparr>"

definition sample_genesis :: genesis where
  "sample_genesis = \<lparr>gn_origin = Bootstrap, gn_cluster_id = replicate 16 1, gn_policy = ClusterPolicy_default,
     gn_membership = first_membership\<rparr>"

definition log_entry :: "nat \<Rightarrow> bytes \<Rightarrow> entry" where
  "log_entry i payload = \<lparr>e_term = 1, e_index = i, e_kind = App, e_payload = payload\<rparr>"

text \<open>The log behind its genesis record, and the first plan.\<close>

definition sample_log_new :: durable_log where
  "sample_log_new = (case Log_fresh WalConfig_default sample_genesis of
     Returned (l, _) \<Rightarrow> l | _ \<Rightarrow> \<lparr>log_wal = sample_wal_new, log_durable = LogState_initial sample_genesis,
       log_staged = LogState_initial sample_genesis\<rparr>)"

definition sample_log :: durable_log where
  "sample_log = snd (Log_commit (snd (Log_append (log_entry 1 [5]) sample_log_new)))"

lemma first_membership_ok:
  "membership_ok first_membership" "MembershipState_validate first_membership = Inr ()"
  "length (MembershipState_body first_membership) < 100"
  by (simp_all add: membership_ok_def members_ok_def first_membership_def bset_ok_def bmap_ok_def id_ok_def
      policy_consts MembershipState_validate_def MembershipState_body_def encode_member_set_def)

lemma sample_genesis_ok: "genesis_ok sample_genesis" "validate_genesis sample_genesis = Inr ()"
  by (simp_all add: genesis_ok_def sample_genesis_def first_membership_ok validate_genesis_def ClusterPolicy_default_valid
      list_all_iff)

lemma encode_sample_genesis:
  "\<exists>bs. encode_durable_record (Genesis sample_genesis) = Returned bs \<and> length bs < 1000"
proof -
  have "enc_bytes_ok (ClusterPolicy_encode ClusterPolicy_default)"
    "enc_bytes_ok (seal (MembershipState_body first_membership))"
    using first_membership_ok(3) by (simp_all add: enc_bytes_ok_def MAX_CODEC_BYTES_def)
  then show ?thesis
    using sample_genesis_ok(2) first_membership_ok
    by (simp add: encode_durable_record_def sample_genesis_def enc_bytes_checked_def MembershipState_encode_def
        first_membership_def length_concat enc_u8_def)
qed

lemma encode_log_entry:
  "i \<noteq> 0 \<Longrightarrow> length payload \<le> MAX_CODEC_BYTES \<Longrightarrow>
   \<exists>bs. encode_durable_record (Append (log_entry i payload)) = Returned bs \<and> length bs = 32 + length payload"
  by (simp add: encode_durable_record_def log_entry_def encode_entry_def)

text \<open>A record that the active segment has room for.\<close>

lemma Log_write_here:
  assumes "wal_cfg (log_wal l) = WalConfig_default" "wal_segments (log_wal l) \<noteq> []"
    "14 \<le> length (seg_bytes (last (wal_segments (log_wal l))))"
    "length (seg_bytes (last (wal_segments (log_wal l)))) \<le> 10000" "length bs \<le> 1000"
  shows "\<exists>plan w'. Log_write r bs l = (Returned plan, l\<lparr>log_wal := w'\<rparr>) \<and> wal_cfg w' = WalConfig_default \<and>
     wal_segments w' \<noteq> [] \<and> length (seg_bytes (last (wal_segments w')))
       = length (seg_bytes (last (wal_segments (log_wal l)))) + (9 + length bs)"
proof -
  have "record_fits (max_record_size (wal_cfg (log_wal l))) bs"
    using assms by (simp add: record_fits_def u32_max_def)
  then have "\<exists>rng w'. Wal_append Data bs (log_wal l) = (Returned rng, w') \<and>
     wal_segments w' = butlast (wal_segments (log_wal l)) @ [Segment_extend (record_bytes Data bs) (last (wal_segments (log_wal l)))] \<and>
     wal_cfg w' = wal_cfg (log_wal l)"
    using Wal_append_here[of "log_wal l" bs Data] assms default_segment by auto
  then obtain rng w' where "Wal_append Data bs (log_wal l) = (Returned rng, w')"
      "wal_segments w' = butlast (wal_segments (log_wal l)) @ [Segment_extend (record_bytes Data bs) (last (wal_segments (log_wal l)))]"
      "wal_cfg w' = wal_cfg (log_wal l)" by (elim exE conjE)
  then show ?thesis using assms(1)
    by (auto simp: Log_write_def Segment_extend_def)
qed

lemma sample_log_fresh:
  "\<exists>plan. Log_fresh WalConfig_default sample_genesis = Returned (sample_log_new, plan)"
  "wal_cfg (log_wal sample_log_new) = WalConfig_default" "wal_segments (log_wal sample_log_new) \<noteq> []"
  "14 \<le> length (seg_bytes (last (wal_segments (log_wal sample_log_new))))"
  "length (seg_bytes (last (wal_segments (log_wal sample_log_new)))) \<le> 2000"
  "log_staged sample_log_new = LogState_initial sample_genesis"
proof -
  define l0 where "l0 = \<lparr>log_wal = sample_wal_new, log_durable = LogState_initial sample_genesis,
    log_staged = LogState_initial sample_genesis\<rparr>"
  obtain bs where bs: "encode_durable_record (Genesis sample_genesis) = Returned bs" "length bs < 1000"
    using encode_sample_genesis by blast
  have "\<exists>plan w'. Log_write (Genesis sample_genesis) bs l0 = (Returned plan, l0\<lparr>log_wal := w'\<rparr>) \<and> wal_cfg w' = WalConfig_default \<and>
     wal_segments w' \<noteq> [] \<and> length (seg_bytes (last (wal_segments w'))) = 23 + length bs"
    using Log_write_here[of l0 bs] bs(2) by (simp add: l0_def sample_wal_new_def)
  then obtain plan w' where w': "Log_write (Genesis sample_genesis) bs l0 = (Returned plan, l0\<lparr>log_wal := w'\<rparr>)"
      "wal_cfg w' = WalConfig_default" "wal_segments w' \<noteq> []" "length (seg_bytes (last (wal_segments w'))) = 23 + length bs"
    by (elim exE conjE)
  have fr: "Log_fresh WalConfig_default sample_genesis = Returned (l0\<lparr>log_wal := w'\<rparr>, plan)"
    using sample_genesis_ok(2) bs(1) w'(1)
    by (simp add: Log_fresh_def Wal_new_default Log_append_record_def act_def act_run_def l0_def)
  then have eq: "sample_log_new = l0\<lparr>log_wal := w'\<rparr>" by (simp add: sample_log_new_def)
  show "\<exists>plan. Log_fresh WalConfig_default sample_genesis = Returned (sample_log_new, plan)"
    using fr eq by auto
  show "wal_cfg (log_wal sample_log_new) = WalConfig_default" "wal_segments (log_wal sample_log_new) \<noteq> []"
    "14 \<le> length (seg_bytes (last (wal_segments (log_wal sample_log_new))))"
    "length (seg_bytes (last (wal_segments (log_wal sample_log_new)))) \<le> 2000"
    "log_staged sample_log_new = LogState_initial sample_genesis"
    using w'(2-4) bs(2) by (simp_all add: eq l0_def)
qed

lemma apply_first:
  "apply_record (LogState_initial sample_genesis) (Append (log_entry 1 p))
     = Inr ((LogState_initial sample_genesis)\<lparr>ls_entries := [log_entry 1 p]\<rparr>)"
  by (simp add: LogState_initial_def log_entry_def LogState_last_index_def sat_add_def u64_max_def)

lemma sample_log_run:
  "log_run WalConfig_default sample_log [Genesis sample_genesis, Append (log_entry 1 [5])] 2"
  "log_run WalConfig_default sample_log_new [Genesis sample_genesis] 0"
proof -
  obtain plan where "Log_fresh WalConfig_default sample_genesis = Returned (sample_log_new, plan)"
    using sample_log_fresh(1) by blast
  then show run: "log_run WalConfig_default sample_log_new [Genesis sample_genesis] 0"
    using sample_genesis_ok(1) by (rule log_run_fresh)
  let ?e = "log_entry 1 [5]" and ?s = "(LogState_initial sample_genesis)\<lparr>ls_entries := [log_entry 1 [5]]\<rparr>"
  obtain bs where bs: "encode_durable_record (Append ?e) = Returned bs" "length bs = 33"
    using encode_log_entry[of 1 "[5]"] by (auto simp: MAX_CODEC_BYTES_def)
  obtain plan1 w1 where w1: "Log_write (Append ?e) bs (sample_log_new\<lparr>log_staged := ?s\<rparr>)
      = (Returned plan1, (sample_log_new\<lparr>log_staged := ?s\<rparr>)\<lparr>log_wal := w1\<rparr>)"
    using Log_write_here[of "sample_log_new\<lparr>log_staged := ?s\<rparr>" bs "Append ?e"] sample_log_fresh bs(2) by auto
  define l1 where "l1 = (sample_log_new\<lparr>log_staged := ?s\<rparr>)\<lparr>log_wal := w1\<rparr>"
  have a: "Log_append_record (Append ?e) sample_log_new = (Returned plan1, l1)"
    using w1 bs(1) apply_first[of "[5]"] sample_log_fresh(6)
    by (simp add: Log_append_record_eq act_def act_run_def l1_def del: apply_record.simps)
  have "log_run WalConfig_default l1 ([Genesis sample_genesis] @ [Append ?e]) 0"
    by (rule log_run_append[OF run _ _ a]) (simp_all add: entry_fits_def log_entry_def)
  from log_run_commit[OF this, of "fst (Log_commit l1)" "snd (Log_commit l1)"]
  show "log_run WalConfig_default sample_log [Genesis sample_genesis, Append (log_entry 1 [5])] 2"
    using a by (simp add: sample_log_def Log_append_def numeral_2_eq_2)
qed

text \<open>An entry the write-ahead log refuses is staged all the same; the next one is written.\<close>

lemma sample_log_refuses:
  "\<exists>err l1. Log_append (log_entry 1 (replicate 3000000 0)) sample_log_new = (Failed (LogWal err), l1) \<and>
     log_staged l1 = (LogState_initial sample_genesis)\<lparr>ls_entries := [log_entry 1 (replicate 3000000 0)]\<rparr> \<and>
     log_wal l1 = log_wal sample_log_new"
proof -
  let ?e = "log_entry 1 (replicate 3000000 0)"
  have "(3000000 :: nat) \<le> MAX_CODEC_BYTES" by (simp add: MAX_CODEC_BYTES_def)
  then obtain bs where bs: "encode_durable_record (Append ?e) = Returned bs" "length bs = 3000032"
    using encode_log_entry[of 1 "replicate 3000000 0"] by auto
  then have "encode_record Data bs 2097152 = Failed (RecordTooLarge 3000041 2097152)"
    by (simp add: encode_record_def RECORD_HEADER_SIZE_def Let_def)
  then have "Wal_append Data bs (log_wal sample_log_new) = (Failed (RecordTooLarge 3000041 2097152), log_wal sample_log_new)"
    by (simp add: Wal_append_def act_def act_run_def sample_log_fresh(2))
  then show ?thesis
    using bs(1) apply_first[of "replicate 3000000 0"] sample_log_fresh(6)
    by (simp add: Log_append_def Log_append_record_eq act_def act_run_def Log_write_def del: apply_record.simps)
qed

lemma sample_log_accepts:
  assumes "log_staged l = (LogState_initial sample_genesis)\<lparr>ls_entries := [log_entry 1 p]\<rparr>"
    and "log_wal l = log_wal sample_log_new"
  shows "\<exists>plan l2. Log_append (log_entry 2 []) l = (Returned plan, l2)"
proof -
  obtain bs where bs: "encode_durable_record (Append (log_entry 2 [])) = Returned bs" "length bs = 32"
    using encode_log_entry[of 2 "[]"] by (auto simp: MAX_CODEC_BYTES_def)
  have ap: "\<exists>s. apply_record (log_staged l) (Append (log_entry 2 [])) = Inr s"
    by (simp add: assms LogState_last_index_def log_entry_def sat_add_def u64_max_def)
  have "\<exists>plan l2. Log_write (Append (log_entry 2 [])) bs (l\<lparr>log_staged := s\<rparr>) = (Returned plan, l2)" for s
    using Log_write_here[of "l\<lparr>log_staged := s\<rparr>" bs "Append (log_entry 2 [])"] sample_log_fresh bs(2) assms(2) by auto
  then show ?thesis
    using ap bs(1) by (auto simp: Log_append_def Log_append_record_eq act_def act_run_def simp del: apply_record.simps)
qed

lemma sample_frame:
  "\<exists>bs. encode_durable_record (Genesis sample_genesis) = Returned bs \<and> frame_ok bs \<and>
     decode_durable_record bs = Inr (Genesis sample_genesis)"
proof -
  obtain bs where bs: "encode_durable_record (Genesis sample_genesis) = Returned bs" "length bs < 1000"
    using encode_sample_genesis by blast
  then have "\<exists>body. bs = seal body"
    by (auto simp: encode_durable_record_def run_bind_Returned_iff simp del: record_body.simps)
  then obtain body where "bs = seal body" by blast
  then have "0 < length bs" by (simp only: length_seal)
  with bs durable_record_roundtrip[of "Genesis sample_genesis" bs] sample_genesis_ok(1)
  show ?thesis by (auto simp: frame_ok_def MAX_CODEC_BYTES_def)
qed

section \<open>A store with two tables and a pinned snapshot\<close>

text \<open>
  Key \<open>[1]\<close> was written at sequence 1, key \<open>[2]\<close> at 2; a snapshot was taken at 2; key \<open>[1]\<close> was
  written again at 3. Both memtables have been flushed.
\<close>

definition table_of :: "nat \<Rightarrow> version list \<Rightarrow> sst_table" where
  "table_of file_no es = (case SstTable_from_entries file_no es of Returned t \<Rightarrow> t
     | _ \<Rightarrow> \<lparr>sst_file_no = file_no, sst_entries = [], sst_bloom = BloomFilter_for_keys [], sst_bytes = []\<rparr>)"

definition sample_store :: store where
  "sample_store = \<lparr>st_config = StoreConfig_default, st_wal = sample_wal_new, st_active = MemTable_default,
     st_frozen = None,
     st_tables = [table_of 1 [(InternalKey [1] 1 Put, [10]), (InternalKey [2] 2 Put, [20])],
                  table_of 2 [(InternalKey [1] 3 Put, [30])]],
     st_manifest = \<lparr>mf_generation = 2, mf_files = [(1, 0), (2, 0)], mf_next_file_no = 3, mf_sequence = 3,
       mf_edits = []\<rparr>,
     st_next_sequence = 3, st_snapshots = [(2, 1)], st_applied_watermark = None, st_metadata = [],
     st_stats = StoreStats_default\<rparr>"

lemma table_of_entries:
  assumes "\<forall>e \<in> set es. enc_bytes_ok (user_key (fst e)) \<and> enc_bytes_ok (snd e)" "length es \<le> u32_max"
  shows "sst_entries (table_of f es) = es" "table_ok (table_of f es)"
proof -
  obtain b where "encode_versions es = Returned b" using encode_versions_returns[OF assms(1)] by blast
  then obtain t where "SstTable_from_entries f es = Returned t" using assms(2)
    by (simp add: SstTable_from_entries_def Let_def)
  then show "sst_entries (table_of f es) = es" "table_ok (table_of f es)"
    using from_entries_Returned[of f es t] by (simp_all add: table_of_def)
qed

lemma sample_tables:
  "sst_entries (table_of 1 [(InternalKey [1] 1 Put, [10]), (InternalKey [2] 2 Put, [20])])
     = [(InternalKey [1] 1 Put, [10]), (InternalKey [2] 2 Put, [20])]"
  "sst_entries (table_of 2 [(InternalKey [1] 3 Put, [30])]) = [(InternalKey [1] 3 Put, [30])]"
  "table_ok (table_of 1 [(InternalKey [1] 1 Put, [10]), (InternalKey [2] 2 Put, [20])])"
  "table_ok (table_of 2 [(InternalKey [1] 3 Put, [30])])"
  by (rule table_of_entries; simp add: enc_bytes_ok_def MAX_CODEC_BYTES_def u32_max_def)+

lemma sample_store_entries:
  "table_entries sample_store = [(InternalKey [1] 1 Put, [10]), (InternalKey [2] 2 Put, [20]), (InternalKey [1] 3 Put, [30])]"
  "mem_entries sample_store = []"
  by (simp_all add: table_entries_def mem_entries_def frozen_entries_def sample_store_def MemTable_default_def
      sample_tables[unfolded One_nat_def])

lemma sample_store_ok: "store_ok sample_store" "store_inv sample_store" "store_limits sample_store"
proof -
  have f: "st_frozen sample_store = None" "mt_entries (st_active sample_store) = []" "st_next_sequence sample_store = 3"
    "st_config sample_store = StoreConfig_default" "st_wal sample_store = sample_wal_new"
    by (simp_all add: sample_store_def MemTable_default_def)
  have tabs: "\<forall>t \<in> set (st_tables sample_store). table_ok t"
    using sample_tables(3,4) by (simp add: sample_store_def)
  show ok: "store_ok sample_store"
    using tabs by (simp add: store_ok_def store_entries_def sample_store_entries f versions_unique_def version_ok_def
        frozen_entries_def StoreConfig_default_def)
  have "wal_layout True sample_wal_new 0" using Wal_new_default default_segment by (rule wal_layout_new)
  then show "store_inv sample_store"
    using ok by (auto simp: store_inv_def store_wal_ok_def store_room_def f frozen_entries_def StoreConfig_default_def
        DEFAULT_MEMTABLE_BYTES_def u32_max_def)
  show "store_limits sample_store"
    by (simp add: store_limits_def f StoreConfig_default_def MAX_CODEC_BYTES_def u64_max_def)
      (simp add: sample_wal_new_def Segment_new_def sample_store_def)
qed

lemma sample_store_reads: "Store_get sample_store [1] (Some 2) = Some [10]"
  using Store_get_newest[OF sample_store_ok(1), of "[1]" "Some 2"]
  by (simp add: newest_def store_entries_def sample_store_entries consider_version_def put_value_def)

lemma sample_store_compacts: "\<exists>s'. Store_compact sample_store = (Returned True, s')"
proof (rule Store_compact_returns[OF sample_store_ok(1,3)])
  show "2 \<le> length (st_tables sample_store)" by (simp add: sample_store_def)
  show "length (table_entries sample_store) \<le> u32_max" by (simp add: sample_store_entries u32_max_def)
qed

end
