(* ===== verification/Spec2Isabelle.thy ===== *)
theory Spec2Isabelle
  imports RaftSample StorageSample
begin

text \<open>
  \<^bold>\<open>Crash Course: a deterministic replicated key-value store.\<close>

  The program is a Rust workspace. \<open>crates/cc-core\<close> holds the shared vocabulary: checksums, random
  streams, the byte codec, the cluster policy and the membership records. \<open>crates/cc-raft\<close> is the
  consensus node, a state machine that takes messages, timers and client requests and returns
  effects (messages to send, records to persist, entries to apply), together with a bounded model
  checker of it. \<open>crates/cc-wal\<close> is a segmented write-ahead log, \<open>crates/cc-log\<close> the durable Raft log
  over it, and \<open>crates/cc-store\<close> the storage engine the state machine writes to. The remaining crates
  run these parts on a host or in a simulator.

  \<^bold>\<open>Conventions.\<close> A \<open>u8\<close> is an \<open>8 word\<close>; identifiers, indices, terms and times are natural numbers,
  with \<open>u64_max\<close>, \<open>sat_add\<close> and \<open>checked_add\<close> written out where the source saturates, checks or would
  overflow; values used bitwise are words. \<open>Result\<close> is a sum (\<open>Inl\<close> is the error). In the storage
  crates a function that may panic returns a \<open>run\<close> (\<open>Panicked\<close>, \<open>Failed\<close>, \<open>Returned\<close>) and a method on
  \<open>&mut self\<close> is an \<open>action\<close>, which also gives the state an error leaves behind (theory \<open>Outcome\<close>). A
  \<open>+\<close> that overflows is a panic, as in a build with overflow checks. \<open>BTreeMap\<close> and \<open>BTreeSet\<close> are
  sorted lists (theory \<open>Prelude\<close>). The source is modelled without its teaching defects (the
  \<open>kata\<close> features).

  \<^bold>\<open>Shared vocabulary\<close> (\<open>crates/cc-core/src/lib.rs\<close>).
  \<^item> \<open>Checksum\<close>: \<open>Crc32c\<close>, \<open>crc32c_zeroed_tail\<close>, \<open>fnv1a\<close>. The CRC step is injective, so a change of one
    byte is always seen.
  \<^item> \<open>Rng\<close>: \<open>SplitMix64\<close>, xoshiro256++ and the samplers, with their ranges.
  \<^item> \<open>Codec\<close>: \<open>Enc\<close>, \<open>Dec\<close>, \<open>DecodeError\<close>. The locale \<open>wire\<close> is the contract of a format (it reads back
    what it wrote), \<open>canonical_wire\<close> adds that it accepts nothing else. Every format of the
    development is an interpretation, and round trips of sequences and buffers are proved once.
  \<^item> \<open>ClusterPolicy\<close>, \<open>Membership\<close>, \<open>ConfigEntry\<close>: the CCPL, CCMS, CCCF and CCAR records with their
    validation.

  \<^bold>\<open>The consensus node\<close> (\<open>crates/cc-raft/src/lib.rs\<close>). \<open>RaftTypes\<close> has entries, messages, effects and
  the \<open>RaftNode\<close> record; \<open>RaftNode\<close> one function per method, whole handlers with every early return.
  \<^item> \<open>RaftFrame\<close>, \<open>RaftInv\<close>: which fields an operation leaves alone, and the node invariant.
  \<^item> \<open>RaftApi\<close>, \<open>RaftExec\<close>: the public operations as one input type, and any sequence of them: terms
    and votes only move forward, persisted records rebuild the memory state, entries are applied
    once and in order.
  \<^item> \<open>RaftReplication\<close>, \<open>Quorum\<close>: the append loop is the merge of two logs, the commit scan is the
    largest acknowledged index of the leader's term; the locale \<open>quorum_system\<close> and its
    interpretations for majorities and joint majorities.
  \<^item> \<open>RaftProtocol\<close>, \<open>RaftVotes\<close>, \<open>RaftLogs\<close>, \<open>RaftMatching\<close>, \<open>RaftCommit\<close>: an abstract protocol over any
    quorum system, with election safety, log matching, leader completeness and state machine
    safety by rule induction.
  \<^item> \<open>RaftRefine\<close>, \<open>RaftSim\<close>, \<open>RaftFixed\<close>, \<open>RaftCluster\<close>: every operation of the node code is a
    sequence of protocol steps, so a cluster of nodes over a network that delays, reorders,
    duplicates and loses messages, with crashes and recovery from disk, has the protocol's safety
    properties. The voters are fixed in this part; membership changes are modelled and keep the
    node invariant, but the cluster theorems do not cover them.
  \<^item> \<open>RaftScript\<close>, \<open>RaftSample\<close>: an executable cluster and a concrete run.

  \<^bold>\<open>The model checker\<close> (\<open>crates/cc-raft/src/model.rs\<close>), theory \<open>ModelCheck\<close>: its states, transitions,
  invariant checks and breadth-first search. The search is a total function: every state it queues
  takes one of the configured number of places among the states seen, so no fuel is needed.

  \<^bold>\<open>Durable storage.\<close>
  \<^item> \<open>Wal\<close> (\<open>crates/cc-wal/src/lib.rs\<close>): segments, append with padding and rolling, flush, commit and
    the recovery scan. \<open>wal_run\<close> is any history of operations; the lemmas give the layout of the
    segments, recovery of the committed records, and the effect of a write torn at any byte. The
    scan is a total function (its offset grows with every record).
  \<^item> \<open>DurableLog\<close> (\<open>crates/cc-log/src/lib.rs\<close>): records and their codec, the state they stand for,
    the planner and the recoveries. \<open>log_run\<close> is any history in which the write-ahead log
    refused no staged record.
  \<^item> \<open>Store\<close> (\<open>crates/cc-store/src/lib.rs\<close>): memtables, Bloom filters, tables, manifest, reads, scans,
    snapshots, flush and compaction. \<open>StoreInterface\<close> is the contract of a store as a map; \<open>StoreMap\<close>
    interprets it on the storage engine and has the facts on snapshots, scans, compaction, logical
    checkpoints and progress.
  \<^item> \<open>StorageSample\<close>: concrete logs and a concrete store for the examples of this theory.

  \<^bold>\<open>The properties of this theory.\<close> Cluster safety and refinement, the model checker, one node under
  any inputs, the commit rule and replication, the three storage layers, the record formats, the
  checksum and the random streams. Five of them state what the code does where it departs from its
  purpose: the model checker rejects a safe cluster (\<open>stale_leader_rejected\<close>), recovery takes a record
  image inside a torn payload for a later record (\<open>wal_embedded_record\<close>), the durable log stages a
  record that the write-ahead log refuses (\<open>log_refused_append\<close>), a record beyond the codec limit makes
  a stream unrecoverable (\<open>oversized_record_frame\<close>), and compaction drops the versions a pinned
  snapshot reads (\<open>compaction_drops_snapshot\<close>).

  \<^bold>\<open>Not modelled.\<close>
  \<^item> The batch apply path of the storage engine with its CCSW journal, store images and checkpoints,
    the selection of tables by level, reads through a block source, and the second file version
    (\<open>manifest_v2.rs\<close>, \<open>sst_v2.rs\<close>).
  \<^item> The key-value state machine (\<open>crates/cc-kv\<close>), the RESP protocol (\<open>crates/cc-resp\<close>), the wire
    codec of Raft messages (\<open>cc-raft/src/codec.rs\<close>; the messages themselves are modelled) and the
    linearizability checker (\<open>crates/cc-checker\<close>).
  \<^item> The cluster runtime that composes the parts (\<open>crates/cc-cluster\<close>; only the rebuilding of a node
    from disk is used here), and the host, simulator, benchmark, lint and browser crates, which are
    sockets, files, threads and tooling.
  \<^item> Text output: \<open>Display\<close>, JSON and hexadecimal forms.
\<close>

section \<open>A concrete node for the examples\<close>

definition sample_node :: node where
  "sample_node = RaftNode_new 1 [1, 2, 3] 7 RaftConfig_default"

definition sample_vote_request :: message where
  "sample_vote_request = \<lparr>m_proto_version = 2, m_from = 2, m_to = 1, m_term = 5, m_kind = VoteReq 0 0\<rparr>"


lemma sample_wf: "node_wf sample_node"
  by (simp add: sample_node_def wf_new)

lemma sample_fields [simp]:
  "last_index sample_node = 0" "cur_term sample_node = 0" "voted_for sample_node = None"
  "log sample_node = []" "snapshot_index sample_node = 0" "commit_index sample_node = 0"
  "retiring_peers sample_node = []" "joint sample_node = None" "voters sample_node = [1, 2, 3]"
  by (simp_all add: sample_node_def RaftNode_new_def last_index_def reset_election_def case_prod_beta Let_def)

definition sample_after :: node where
  "sample_after = fst (node_step (In_message sample_vote_request 9) sample_node)"

definition sample_effects :: "raft_effect list" where
  "sample_effects = snd (node_step (In_message sample_vote_request 9) sample_node)"

lemma sample_exec:
  assumes "allowed sample_node (In_message sample_vote_request 9)"
  shows "node_exec allowed sample_node sample_after sample_effects"
  unfolding sample_after_def sample_effects_def by (rule exec_one) (simp_all add: assms u64_max_def)

lemma sample_exec_bounded: "node_exec bounded_input sample_node sample_after sample_effects"
  by (rule sample_exec) (simp add: bounded_input_def)

lemma sample_exec_log: "node_exec log_input sample_node sample_after sample_effects"
  by (rule sample_exec) (simp add: log_input_def)

lemma sample_voted: "hard_state sample_after = \<lparr>hs_term = 5, hs_voted_for = Some 2\<rparr>"
  by (simp add: sample_after_def sample_vote_request_def sample_node_def RaftNode_new_def reset_election_def
      case_prod_beta on_message_at_def dispatch_def observe_term_def vote_request_def Let_def
      supports_protocol_version_def PROTOCOL_VERSION_def vote_granted_def log_is_up_to_date_def last_index_def last_term_def)

section \<open>The cluster\<close>

text \<open>C1: state-machine safety. In any run of a cluster of \<open>RaftNode\<close>s with fixed voters, with messages
  delayed, lost, duplicated and reordered and with crashes in between, no two entries handed to a state
  machine, by whichever nodes and at whatever times, differ at the same index.\<close>

theorem state_machine_safety:
  assumes "cluster_run vs seed cfg c" "bset_ok vs" "1 \<le> max_entries_per_append cfg"
    "(i, t, e) \<in> cl_applied c" "(j, t', e') \<in> cl_applied c" "e_index e = e_index e'"
  shows "e = e'"
  using run_applied_agree[OF assms] .

theorem state_machine_safety_witness:
  "\<exists>c. cluster_run model_voters word_of_nat model_raft_config c \<and> (1, 3, noop_entry 3 2) \<in> cl_applied c \<and>
     (\<forall>j t e. (j, t, e) \<in> cl_applied c \<longrightarrow> e_index e = 2 \<longrightarrow> e = noop_entry 3 2)"
proof -
  obtain c where c: "cluster_run model_voters word_of_nat model_raft_config c"
      "(1, 3, noop_entry 3 2) \<in> cl_applied c" using split_run by blast
  have "e = noop_entry 3 2" if "(j, t, e) \<in> cl_applied c" "e_index e = 2" for j t e
    using state_machine_safety[OF c(1) model_setup_ok that(1) c(2)] that(2) by (simp add: noop_entry_def)
  then show ?thesis using c by blast
qed

text \<open>C2: election safety. Over a whole run at most one node ever leads a given term, and whoever
  believes it leads is on record as the leader of its term.\<close>

theorem election_safety_over_a_run:
  assumes "cluster_run vs seed cfg c" "bset_ok vs" "1 \<le> max_entries_per_append cfg"
  shows "(\<forall>t i j. (t, i) \<in> cl_led c \<and> (t, j) \<in> cl_led c \<longrightarrow> i = j) \<and>
    (\<forall>i \<in> set vs. role (cl_node c i) = Leader \<longrightarrow> (cur_term (cl_node c i), i) \<in> cl_led c)"
  using run_one_leader[OF assms] by blast

theorem election_safety_over_a_run_witness:
  "\<exists>c. cluster_run model_voters word_of_nat model_raft_config c \<and> (2, 2) \<in> cl_led c \<and> (3, 1) \<in> cl_led c \<and>
     (\<forall>j. (2, j) \<in> cl_led c \<longrightarrow> j = 2)"
proof -
  obtain c where c: "cluster_run model_voters word_of_nat model_raft_config c" "(2, 2) \<in> cl_led c" "(3, 1) \<in> cl_led c"
    using split_run by blast
  then show ?thesis using election_safety_over_a_run[OF c(1) model_setup_ok] by blast
qed

text \<open>C3: leader completeness. An entry that some node handed to its state machine in term \<open>t\<close> is in
  the log of every node that leads term \<open>t\<close> or a later one.\<close>

theorem leader_completeness:
  assumes "cluster_run vs seed cfg c" "bset_ok vs" "1 \<le> max_entries_per_append cfg" "j \<in> set vs"
    "(i, t, e) \<in> cl_applied c" "role (cl_node c j) = Leader" "t \<le> cur_term (cl_node c j)"
  shows "e \<in> set (log (cl_node c j))"
  using run_leader_complete[OF assms] .

theorem leader_completeness_witness:
  "\<exists>c. cluster_run model_voters word_of_nat model_raft_config c \<and> role (cl_node c 1) = Leader \<and>
     noop_entry 1 1 \<in> set (log (cl_node c 1))"
proof -
  obtain c where c: "cluster_run model_voters word_of_nat model_raft_config c"
      "(1, 3, noop_entry 1 1) \<in> cl_applied c" "role (cl_node c 1) = Leader" "cur_term (cl_node c 1) = 3"
    using split_run unfolding node_view_def by blast
  have "1 \<in> set model_voters" "3 \<le> cur_term (cl_node c 1)" using c(4) by (simp_all add: model_voters_def)
  then show ?thesis using leader_completeness[OF c(1) model_setup_ok _ c(2,3)] c by blast
qed

text \<open>C4: log matching. Where the logs of two nodes hold entries of the same term at the same position,
  the logs are equal up to and including that position.\<close>

theorem log_matching_over_a_run:
  assumes "cluster_run vs seed cfg c" "bset_ok vs" "1 \<le> max_entries_per_append cfg" "i \<in> set vs" "j \<in> set vs"
    "k < length (log (cl_node c i))" "k < length (log (cl_node c j))"
    "e_term (log (cl_node c i) ! k) = e_term (log (cl_node c j) ! k)"
  shows "take (k + 1) (log (cl_node c i)) = take (k + 1) (log (cl_node c j))"
  using run_log_matching[OF assms] .

theorem log_matching_over_a_run_witness:
  "\<exists>c. cluster_run model_voters word_of_nat model_raft_config c \<and>
     take 2 (log (cl_node c 1)) = take 2 (log (cl_node c 3)) \<and> length (log (cl_node c 1)) = 2"
proof -
  obtain c where c: "cluster_run model_voters word_of_nat model_raft_config c"
      "log (cl_node c 1) = [noop_entry 1 1, noop_entry 3 2]" "log (cl_node c 3) = [noop_entry 1 1, noop_entry 3 2]"
    using split_run unfolding node_view_def by blast
  have "1 \<in> set model_voters" "3 \<in> set model_voters" by (simp_all add: model_voters_def)
  from log_matching_over_a_run[OF c(1) model_setup_ok this, of 1] c show ?thesis by (auto simp: numeral_2_eq_2)
qed

text \<open>C5: every run of the cluster is matched, step by step, by a run of the abstract protocol of
  \<open>RaftProtocol\<close>: a reachable protocol state agrees with every node on term, vote, role, log and commit
  index, and holds every message sent.\<close>

theorem cluster_refines_protocol:
  assumes "cluster_run vs seed cfg c" "bset_ok vs" "1 \<le> max_entries_per_append cfg"
  shows "\<exists>s. reachable (majority_of (set vs)) s \<and> cl_soup c \<subseteq> p_msgs s \<and>
    (\<forall>i \<in> set vs. p_term s i = cur_term (cl_node c i) \<and> p_vote s i = voted_for (cl_node c i) \<and>
       p_role s i = role (cl_node c i) \<and> p_log s i = log (cl_node c i) \<and> p_commit s i = commit_index (cl_node c i))"
proof -
  obtain s where "behind vs s c" using run_behind[OF assms] by blast
  note b = behindD[OF this]
  have "p_term s i = cur_term (cl_node c i) \<and> p_vote s i = voted_for (cl_node c i) \<and>
      p_role s i = role (cl_node c i) \<and> p_log s i = log (cl_node c i) \<and> p_commit s i = commit_index (cl_node c i)"
    if "i \<in> set vs" for i
    using linkedD(5-9)[OF b(5)[OF that]] b(4)[OF that] by simp
  then show ?thesis using b(1,3) by blast
qed

theorem cluster_refines_protocol_witness:
  "\<exists>s. reachable (majority_of (set model_voters)) s \<and> p_role s 1 = Leader \<and> p_role s 2 = Leader \<and> p_commit s 1 = 2"
proof -
  obtain c where c: "cluster_run model_voters word_of_nat model_raft_config c"
      "role (cl_node c 1) = Leader" "role (cl_node c 2) = Leader" "commit_index (cl_node c 1) = 2"
    using split_run unfolding node_view_def by blast
  have "1 \<in> set model_voters" "2 \<in> set model_voters" by (simp_all add: model_voters_def)
  then show ?thesis using cluster_refines_protocol[OF c(1) model_setup_ok] c(2-) by metis
qed

text \<open>C6: what a node's persistence effects have written is at every moment exactly its hard state and
  its log, so a crash between two inputs loses neither a vote nor an entry.\<close>

theorem disk_matches_memory:
  assumes "cluster_run vs seed cfg c" "bset_ok vs" "1 \<le> max_entries_per_append cfg" "i \<in> set vs"
  shows "cl_disk c i = (hard_state (cl_node c i), log (cl_node c i))"
  using run_behind[OF assms(1-3)] behindD(10)[OF _ assms(4)] by blast

theorem disk_matches_memory_witness:
  "\<exists>c. cluster_run model_voters word_of_nat model_raft_config c \<and>
     snd (cl_disk c 1) = [noop_entry 1 1, noop_entry 3 2]"
proof -
  obtain c where c: "cluster_run model_voters word_of_nat model_raft_config c"
      "log (cl_node c 1) = [noop_entry 1 1, noop_entry 3 2]"
    using split_run unfolding node_view_def by blast
  have "1 \<in> set model_voters" by (simp add: model_voters_def)
  from disk_matches_memory[OF c(1) model_setup_ok this] c show ?thesis by auto
qed

section \<open>The bounded model checker\<close>

text \<open>C7: the model checker never panics and never reports a broken node invariant, two leaders of one
  term, conflicting committed entries or mismatched logs, whatever its bounds.\<close>

theorem model_check_sound:
  assumes "mc_max_log cfg + 2 \<le> u64_max"
  shows "model_check cfg \<noteq> None \<and>
    (\<forall>k reason. model_check cfg = Some (Inl (InvariantFailed k reason)) \<longrightarrow> (\<exists>i. reason = Leader_completeness i))"
  using model_check_safe[OF assms] unfolding sound_outcome_def .

theorem model_check_sound_witness: "model_check ModelConfig_default \<noteq> None"
  using model_check_sound[of ModelConfig_default] by (simp add: ModelConfig_default_def u64_max_def)

text \<open>C8: the search is total, and a report never exceeds the configured bounds on states and depth.\<close>

theorem model_check_within_bounds:
  assumes "model_check cfg = Some (Inr r)"
  shows "mr_explored_states r \<le> mc_max_states cfg \<and> mr_max_frontier r \<le> mc_max_states cfg \<and>
    mr_max_depth r \<le> mc_max_depth cfg"
  using model_check_bounds[OF assms] .

theorem model_check_within_bounds_witness:
  "\<exists>r. model_check tiny_bounds = Some (Inr r) \<and> mr_explored_states r \<le> 10 \<and> mr_max_depth r \<le> 1"
  using model_check_within_bounds[OF tiny_search] tiny_search by (simp add: tiny_bounds_def)

text \<open>C9: the checker's leader-completeness check rejects a safe cluster. In the sample run node 2 still
  believes it leads term 2 while node 1, leading term 3, commits an entry of term 1 that node 2 never
  had: the check compares the entry's term with the leader's and fails, although no leader of the
  committing term or a later one lacks the entry.\<close>

theorem stale_leader_rejected:
  "\<exists>c. cluster_run model_voters word_of_nat model_raft_config c \<and>
     check_invariants \<lparr>md_nodes = map (\<lambda>i. (i, cl_node c i)) model_voters, md_soup = [], md_leaders = [], md_committed = []\<rparr>
       = Some (Inl (Leader_completeness 1))"
proof -
  obtain c where c: "cluster_run model_voters word_of_nat model_raft_config c"
     "node_view (cl_node c 1) = (1, Leader, 3, [noop_entry 1 1, noop_entry 3 2], 2, 2, 0)"
     "node_view (cl_node c 2) = (2, Leader, 2, [noop_entry 2 1], 0, 0, 0)"
     "node_view (cl_node c 3) = (3, Follower, 3, [noop_entry 1 1, noop_entry 3 2], 0, 0, 0)"
    using split_run by blast
  have "check_invariants \<lparr>md_nodes = map (\<lambda>i. (i, cl_node c i)) model_voters, md_soup = [], md_leaders = [], md_committed = []\<rparr>
       = Some (Inl (Leader_completeness 1))"
    using c(2-)
    by (simp add: node_view_def model_voters_def check_invariants_def Let_def node_invariants_def last_index_def noop_entry_def
        log_windows_def record_leader_def match_logs_def match_entry_def slice_to_def check_leader_def leader_complete_at_def)
  with c(1) show ?thesis by blast
qed

section \<open>One node, any inputs\<close>

text \<open>C10: from a new node, whatever messages, timers, proposals, reads, configuration changes,
  snapshot installs and restores arrive in whatever order, the node is well formed (its log is
  contiguous from the snapshot, applied <= committed <= last index) and its own invariant report is
  empty.\<close>

theorem node_exec_invariants:
  assumes "node_exec bounded_input (RaftNode_new i vs seed cfg) n es"
  shows "node_wf n \<and> node_invariants n = []"
  using exec_wf[OF assms wf_new] node_wf_invariants by (auto simp: bounded_input_def)

theorem node_exec_invariants_witness:
  "node_exec bounded_input (RaftNode_new 1 [1, 2, 3] 7 RaftConfig_default) sample_after sample_effects \<and>
   node_wf sample_after \<and> node_invariants sample_after = []"
  using node_exec_invariants[OF sample_exec_bounded[unfolded sample_node_def]]
    sample_exec_bounded[unfolded sample_node_def] by blast



text \<open>C12: replaying the hard-state records a node has emitted rebuilds its term and vote exactly,
  and in the effects of each input no hard-state record comes after a message: a vote or a term is
  on disk before anything that reveals it is sent.\<close>

theorem hard_state_durable:
  assumes "node_exec allowed n0 n es"
  shows "hard_after (hard_state n0) es = hard_state n \<and> hard_before_send (snd (node_step inp n))"
  using exec_hard(2)[OF assms] durable_step[of n inp] by (simp add: hard_durable_def)

theorem hard_state_durable_witness:
  "hard_after (hard_state sample_node) sample_effects = \<lparr>hs_term = 5, hs_voted_for = Some 2\<rparr>"
  using hard_state_durable[OF sample_exec_bounded] by (simp add: sample_voted)

text \<open>C13: over any execution without a snapshot install or an acknowledgement from a retiring peer,
  the committed entries only grow, and the entries handed to the state machine are exactly the newly
  applied part of the log: each once, in order, none skipped.\<close>

theorem applied_once_in_order:
  assumes "node_exec log_input n0 n es" "node_wf n0"
  shows "prefix (committed_log n0) (committed_log n) \<and> applied_log n = applied_log n0 @ applied_entries es"
  using exec_progress[OF assms] by (simp add: progress_def)

theorem applied_once_in_order_witness:
  "applied_log sample_after = applied_log sample_node @ applied_entries sample_effects"
  using applied_once_in_order[OF sample_exec_log sample_wf] by blast

section \<open>Quorums and the commit rule\<close>

text \<open>C14: a leader's commit index moves to the largest index of its own term that a quorum
  acknowledges, and stays where it is when there is none.\<close>

theorem commit_rule:
  "commit_index (fst (advance_commit n)) = Max (insert (commit_index n)
     {i. commit_index n < i \<and> i \<le> last_index n \<and> commit_quorum n i \<and> term_at n i = Some (cur_term n)})"
  (is "_ = ?m")
proof -
  have "commit_index n \<le> commit_scan n" unfolding commit_scan_Max by (rule Max_ge) auto
  then show ?thesis unfolding commit_scan_Max[symmetric]
    by (auto simp: advance_commit_def Let_def)
qed

text \<open>C15: two sets of votes that the same membership counts as a majority, joint or not, share a
  voter.\<close>

theorem majorities_share_a_voter:
  assumes "membership_sorted n" "bset_ok vs" "bset_ok ws" "has_majority n vs" "has_majority n ws"
  shows "set vs \<inter> set ws \<noteq> {}"
  using assms node_quorums.intersect[of n "set vs" "set ws"] by (simp add: has_majority_quorum)

theorem majorities_share_a_voter_witness:
  "has_majority sample_node [1, 2] \<and> has_majority sample_node [2, 3] \<and> set [1, 2::nat] \<inter> set [2, 3] \<noteq> {}"
  using majorities_share_a_voter[of sample_node "[1, 2]" "[2, 3]"]
  by (simp add: membership_sorted_def bset_ok_def has_majority_def majority_def count_in_def)

section \<open>Replication\<close>





section \<open>The write-ahead log\<close>

text \<open>C17: in every history of a write-ahead log, what recovery reads from the durable images is exactly
  the records that had been appended when the last commit completed, in order and without the
  padding; and each of them is reported durable.\<close>

theorem wal_recovers_committed:
  assumes "wal_run cfg w n" and "segment_size cfg \<le> u32_max"
  shows "(\<exists>segs. recover (durable_images w) cfg = Returned \<lparr>rw_records = kept (take n (wal_records w)),
      rw_segments = segs, rw_truncated_at = None\<rparr>) \<and>
    (\<forall>r \<in> set (kept (take n (wal_records w))). is_durable w (rec_lsn r))"
  using wal_run_recover_durable[OF assms] wal_run_is_durable[OF assms] by blast

theorem wal_recovers_committed_witness:
  "\<exists>rec. recover (durable_images sample_wal) WalConfig_default = Returned rec \<and> durable_payloads rec = [[1, 2]]"
proof -
  obtain segs where segs: "recover (durable_images sample_wal) WalConfig_default =
      Returned \<lparr>rw_records = kept (take 1 (wal_records sample_wal)), rw_segments = segs, rw_truncated_at = None\<rparr>"
    using wal_recovers_committed[OF sample_wal_run(1) default_segment] by blast
  obtain a b where "wal_records sample_wal = [a, b]" "rec_payload a = [1, 2]" "rec_kind a = Data"
    using sample_wal_run(2,3) by (auto simp: map_eq_Cons_conv)
  with segs show ?thesis by (simp add: durable_payloads_def kept_def)
qed



text \<open>C19: recovery mistakes a record image inside a torn payload for a later record. When a payload
  carries the bytes of a valid record and the write of that payload is torn behind them, recovery
  reports mid-log corruption, although the torn tail is all that is damaged.\<close>

theorem wal_embedded_record:
  assumes "wal_run cfg w n" "segment_size cfg \<le> u32_max" "record_fits (max_record_size cfg) payload"
    "length (seg_bytes (last (wal_segments w))) + (9 + length payload) \<le> segment_size cfg"
    "record_bytes kind payload = q @ missing" "missing \<noteq> []"
    "payload = a @ record_bytes k p @ b" "length missing \<le> length b"
  shows "recover (torn_images w q) cfg = Failed (MidLogCorruption (seg_sequence (last (wal_segments w)))
    (length (seg_bytes (last (wal_segments w)))))"
  using assms by (rule wal_run_embedded_record)

theorem wal_embedded_record_witness:
  "recover (torn_images sample_wal (butlast (record_bytes Data (record_bytes Data [5] @ [0])))) WalConfig_default
     = Failed (MidLogCorruption (seg_sequence (last (wal_segments sample_wal))) 35)"
proof -
  let ?p = "record_bytes Data [5] @ [0]"
  have "record_bytes Data ?p \<noteq> []" "last (record_bytes Data ?p) = 0" by (simp_all add: record_bytes_def Let_def)
  then have "record_bytes Data ?p = butlast (record_bytes Data ?p) @ [0]" by (metis append_butlast_last_id)
  from wal_embedded_record[OF sample_wal_run(1) default_segment _ _ this, of "[]" Data "[5]" "[0]"] sample_wal_run(4)
  show ?thesis by (simp add: record_fits_def u32_max_def)
qed

section \<open>The durable Raft log\<close>



text \<open>C21: the durable log stages a record before the write-ahead log accepts it. When an entry is
  refused by the write-ahead log, the next entry is accepted behind it, the commit publishes both
  in memory, and the durable images no longer recover at all.\<close>

theorem log_refused_append:
  assumes "log_run cfg l rs n" "segment_size cfg \<le> u32_max"
    "Log_append e1 l = (Failed (LogWal err), l1)" "Log_append e2 l1 = (Returned plan, l2)"
    "entry_fits e2" "e_index e1 < u64_max" "Log_commit l2 = (r, l3)"
  shows "Log_recover (durable_images (log_wal l3)) cfg = Failed (LogInvalid ''append index is not contiguous'') \<and>
    log_durable l3 = log_staged l2 \<and> last (ls_entries (log_durable l3)) = e2"
  using assms by (rule refused_append_breaks_recovery)

theorem log_refused_append_witness:
  "\<exists>l3 :: durable_log. Log_recover (durable_images (log_wal l3)) WalConfig_default
      = Failed (LogInvalid ''append index is not contiguous'') \<and> last (ls_entries (log_durable l3)) = log_entry 2 []"
proof -
  obtain err l1 where a1: "Log_append (log_entry 1 (replicate 3000000 0)) sample_log_new = (Failed (LogWal err), l1)"
    and s1: "log_staged l1 = (LogState_initial sample_genesis)\<lparr>ls_entries := [log_entry 1 (replicate 3000000 0)]\<rparr>"
    and w1: "log_wal l1 = log_wal sample_log_new"
    using sample_log_refuses by blast
  obtain plan l2 where a2: "Log_append (log_entry 2 []) l1 = (Returned plan, l2)"
    using sample_log_accepts[OF s1 w1] by blast
  have "entry_fits (log_entry 2 [])" "e_index (log_entry 1 (replicate 3000000 0)) < u64_max"
    by (simp_all add: entry_fits_def log_entry_def u64_max_def)
  from log_refused_append[OF sample_log_run(2) default_segment a1 a2 this, of "fst (Log_commit l2)" "snd (Log_commit l2)"]
  show ?thesis by (intro exI[of _ "snd (Log_commit l2)"]) auto
qed

text \<open>C22: the framed record stream recovers exactly its complete records: any number of whole frames
  followed by a proper prefix of one more recovers the state of the whole frames, the number of
  bytes they take, and whether a tail was cut.\<close>

theorem framed_stream_prefix:
  assumes "\<forall>b \<in> set bss. frame_ok b" "list_all2 (\<lambda>b r. decode_durable_record b = Inr r) bss rs"
    "replay None rs = Inr (Some s)" "frame_ok b" "frame_of b = q @ missing" "missing \<noteq> []"
  shows "recover_framed_record_stream (frames_of bss @ q)
    = Inr \<lparr>rs_state = s, rs_bytes_consumed = length (frames_of bss), rs_torn_tail_truncated = (q \<noteq> [])\<rparr>"
  using assms by (rule recover_framed_prefix)

theorem framed_stream_prefix_witness:
  "\<exists>bs. encode_durable_record (Genesis sample_genesis) = Returned bs \<and>
     recover_framed_record_stream (frames_of [bs] @ take 3 (frame_of bs))
       = Inr \<lparr>rs_state = LogState_initial sample_genesis, rs_bytes_consumed = length (frame_of bs),
              rs_torn_tail_truncated = True\<rparr>"
proof -
  obtain bs where bs: "encode_durable_record (Genesis sample_genesis) = Returned bs" "frame_ok bs"
      "decode_durable_record bs = Inr (Genesis sample_genesis)"
    using sample_frame by blast
  have "frame_of bs = take 3 (frame_of bs) @ drop 3 (frame_of bs)" "drop 3 (frame_of bs) \<noteq> []" "take 3 (frame_of bs) \<noteq> []"
    using length_frame_of[of bs] by (auto simp del: length_frame_of)
  then show ?thesis
    using framed_stream_prefix[of "[bs]" "[Genesis sample_genesis]" "LogState_initial sample_genesis" bs
        "take 3 (frame_of bs)" "drop 3 (frame_of bs)"] bs sample_genesis_ok(2)
    by (intro exI[of _ bs]) simp
qed

text \<open>C23: a record longer than the codec limit is framed and written without complaint, and makes the
  whole stream unrecoverable, whatever follows.\<close>

theorem oversized_record_frame:
  assumes "\<forall>b \<in> set bss. frame_ok b" "list_all2 (\<lambda>b r. decode_durable_record b = Inr r) bss rs"
    "replay None rs = Inr s" "encode_framed_durable_record r = Returned f" "encode_durable_record r = Returned b"
    "MAX_CODEC_BYTES < length b"
  shows "recover_framed_record_stream (frames_of bss @ f @ rest) = Inl (LogInvalid ''record length'')"
  using assms by (rule oversized_frame_unrecoverable)

theorem oversized_record_frame_witness:
  "\<exists>f. encode_framed_durable_record (Append (log_entry 1 (replicate MAX_CODEC_BYTES 0))) = Returned f \<and>
     recover_framed_record_stream f = Inl (LogInvalid ''record length'')"
proof -
  obtain b where b: "encode_durable_record (Append (log_entry 1 (replicate MAX_CODEC_BYTES 0))) = Returned b"
      "length b = 32 + MAX_CODEC_BYTES" using encode_log_entry[of 1 "replicate MAX_CODEC_BYTES 0"] by auto
  then obtain f where "encode_framed_durable_record (Append (log_entry 1 (replicate MAX_CODEC_BYTES 0))) = Returned f"
    by (simp add: encode_framed_durable_record_def MAX_CODEC_BYTES_def u32_max_def)
  with oversized_record_frame[of "[]" "[]" None _ f b "[]"] b show ?thesis by auto
qed

section \<open>The storage engine\<close>

text \<open>C24: the store is a map. A write that returns updates the map of current values at its key and
  nowhere else, a write that fails leaves the map as it was, and both keep the invariant.\<close>

theorem store_refines_map:
  assumes "store_inv s"
  shows "(Store_put k v s = (Returned sq, s') \<longrightarrow> store_inv s' \<and> store_map s' = (store_map s)(k \<mapsto> v)) \<and>
    (Store_delete k s = (Returned sq, s') \<longrightarrow> store_inv s' \<and> store_map s' = (store_map s)(k := None)) \<and>
    (Store_put k v s = (Failed e, s') \<or> Store_delete k s = (Failed e, s') \<longrightarrow>
       store_inv s' \<and> store_map s' = store_map s)"
  using lsm.put_returned[OF assms] lsm.del_returned[OF assms] lsm.put_failed[OF assms] lsm.del_failed[OF assms] by metis

theorem store_refines_map_witness:
  "\<exists>sq s'. Store_put [1] [40] sample_store = (Returned sq, s') \<and> store_map s' [1] = Some [40]"
proof -
  obtain sq s' where w: "Store_put [1] [40] sample_store = (Returned sq, s')"
    using Store_apply_returns[OF sample_store_ok(2,3), of "[1]" "[40]" Put]
    by (auto simp: Store_put_def sample_store_def StoreConfig_default_def)
  then have "store_map s' = (store_map sample_store)([1] \<mapsto> [40])"
    using store_refines_map[OF sample_store_ok(2), of "[1]" "[40]" sq s'] by blast
  then have "store_map s' [1] = Some [40]" by simp
  with w show ?thesis by blast
qed

text \<open>C25: snapshot isolation. Neither a write nor a flush changes what a read at an earlier sequence
  number returns.\<close>

theorem store_snapshot_isolation:
  assumes "store_inv s" "w \<le> Store_last_sequence s"
    "Store_apply key v kind s = (Returned sq, s') \<or> Store_flush s = (Returned f, s')"
  shows "Store_get s' k (Some w) = Store_get s k (Some w)"
proof -
  have ok: "store_ok s" using assms(1) by (simp add: store_inv_def)
  from assms(3) show ?thesis
  proof
    assume "Store_apply key v kind s = (Returned sq, s')"
    from Store_apply_Returned[OF ok this] assms(2) ok show ?thesis
      by (intro Store_get_snapshot_insert[where key = key and kind = kind and v = v and sq = sq])
        (auto simp: Store_last_sequence_def)
  next
    assume "Store_flush s = (Returned f, s')"
    from Store_flush_keeps[OF ok this] ok show ?thesis by (intro Store_get_same_entries) auto
  qed
qed

theorem store_snapshot_isolation_witness:
  "\<exists>sq s'. Store_put [1] [40] sample_store = (Returned sq, s') \<and> Store_get s' [1] (Some 2) = Some [10]"
proof -
  obtain sq s' where w: "Store_apply [1] [40] Put sample_store = (Returned sq, s')"
    using Store_apply_returns[OF sample_store_ok(2,3), of "[1]" "[40]" Put]
    by (auto simp: sample_store_def StoreConfig_default_def)
  have "Store_get s' [1] (Some 2) = Store_get sample_store [1] (Some 2)"
    by (rule store_snapshot_isolation[OF sample_store_ok(2) _ disjI1[OF w]])
      (simp add: Store_last_sequence_def sample_store_def)
  with w sample_store_reads show ?thesis by (auto simp: Store_put_def)
qed

text \<open>C26: a scan is a prefix, of at most the given length, of the sorted list of all pairs in the range
  that a point read at the same snapshot returns.\<close>

theorem store_scan:
  assumes "store_inv s"
  shows "\<exists>full. Store_scan s start stop snap limit = take limit full \<and> bset_ok (map fst full) \<and>
    (\<forall>k v. (k, v) \<in> set full \<longleftrightarrow> in_key_range start stop k \<and> Store_get s k snap = Some v)"
  using Store_scan_spec assms by (simp add: store_inv_def)

theorem store_scan_witness:
  "\<exists>full. Store_scan sample_store None (Some [2]) (Some 2) 10 = take 10 full \<and> ([1], [10]) \<in> set full"
proof -
  have "in_key_range None (Some [2]) [1]" by (simp add: in_key_range_def)
  then show ?thesis using store_scan[OF sample_store_ok(2), of None "Some [2]" "Some 2" 10] sample_store_reads by blast
qed

text \<open>C27: compaction is invisible to current reads: it keeps the map of current values and the store's
  consistency, whatever it drops.\<close>

theorem compaction_keeps_values:
  assumes "store_ok s" "Store_compact s = (Returned r, s')"
  shows "store_ok s' \<and> store_map s' = store_map s"
  using assms by (rule Store_compact_map)

theorem compaction_keeps_values_witness:
  "\<exists>s'. Store_compact sample_store = (Returned True, s') \<and> store_map s' = store_map sample_store"
  using sample_store_compacts compaction_keeps_values[OF sample_store_ok(1)] by blast

text \<open>C28: compaction loses what a pinned snapshot reads. When a key has a version newer than the oldest
  pinned snapshot and none written exactly at it, compaction drops every older version, so a read at
  that snapshot finds nothing where it found a value before.\<close>

theorem compaction_drops_snapshot:
  assumes "store_ok s" "Store_compact s = (Returned True, s')" "oldest_snapshot s = w"
    "f \<in> set (table_entries s)" "user_key (fst f) = k" "w < ik_sequence (fst f)"
    "\<forall>e \<in> set (table_entries s). user_key (fst e) = k \<longrightarrow> ik_sequence (fst e) \<noteq> w"
  shows "Store_get s' k (Some w) = None"
  using assms by (rule Store_compact_drops)

theorem compaction_drops_snapshot_witness:
  "Store_get sample_store [1] (Some 2) = Some [10] \<and>
   (\<exists>s'. Store_compact sample_store = (Returned True, s') \<and> Store_get s' [1] (Some 2) = None)"
proof -
  obtain s' where c: "Store_compact sample_store = (Returned True, s')" using sample_store_compacts by blast
  have "oldest_snapshot sample_store = 2" by (simp add: oldest_snapshot_def sample_store_def)
  from compaction_drops_snapshot[OF sample_store_ok(1) c this, of "(InternalKey [1] 3 Put, [30])" "[1]"]
  have "Store_get s' [1] (Some 2) = None" by (simp add: sample_store_entries)
  with c sample_store_reads show ?thesis by blast
qed

text \<open>C29: a write within the configured limits always completes: with no counter at the end of its range
  it returns a sequence number, whatever flush it has to run first, and the value is then readable.\<close>

theorem store_write_returns:
  assumes "store_inv s" "store_limits s" "key \<noteq> []" "length key \<le> store_config.max_key_bytes (st_config s)"
    "length v \<le> store_config.max_value_bytes (st_config s)"
  shows "\<exists>sq s'. Store_put key v s = (Returned sq, s') \<and> Store_get s' key None = Some v"
proof -
  obtain sq s' where w: "Store_put key v s = (Returned sq, s')"
    using Store_apply_returns[OF assms, of Put] by (auto simp: Store_put_def)
  with lsm.put_lookup[OF assms(1) w] show ?thesis by (auto simp: store_map_def)
qed

theorem store_write_returns_witness:
  "\<exists>sq s'. Store_put [9] [90] sample_store = (Returned sq, s') \<and> Store_get s' [9] None = Some [90]"
  by (rule store_write_returns[OF sample_store_ok(2,3)]) (simp_all add: sample_store_def StoreConfig_default_def)

text \<open>C30: a logical checkpoint round-trips: rebuilding a store from the entries another exports gives the
  same map of current values and the same sequence number.\<close>

theorem store_logical_roundtrip:
  assumes "store_ok s" "Wal_new (sc_wal (st_config s)) = Returned w"
  shows "\<exists>s'. Store_from_logical (st_config s) (Store_last_sequence s) (Store_logical_entries s) = Returned s' \<and>
    store_ok s' \<and> store_map s' = store_map s \<and> Store_last_sequence s' = Store_last_sequence s"
  using assms by (rule logical_roundtrip)

theorem store_logical_roundtrip_witness:
  "\<exists>s'. Store_from_logical StoreConfig_default 3 (Store_logical_entries sample_store) = Returned s' \<and>
     store_map s' = store_map sample_store"
proof -
  have "Wal_new (sc_wal (st_config sample_store)) = Returned sample_wal_new"
    by (simp add: sample_store_def StoreConfig_default_def Wal_new_default)
  moreover have "st_config sample_store = StoreConfig_default" "Store_last_sequence sample_store = 3"
    by (simp_all add: sample_store_def Store_last_sequence_def)
  ultimately show ?thesis using store_logical_roundtrip[OF sample_store_ok(1)] by auto
qed

section \<open>Durable and wire formats\<close>

text \<open>C31: the cluster policy codec is canonical: a byte string decodes to a policy exactly when
  it is the sealed encoding of that policy and the policy validates.\<close>

theorem cluster_policy_canonical:
  "ClusterPolicy_decode bytes = Inr p \<longleftrightarrow>
     bytes = ClusterPolicy_encode p \<and> ClusterPolicy_validate p = Inr ()"
  by (metis ClusterPolicy_decode_canonical ClusterPolicy_decode_encode)

text \<open>C32: a configuration envelope decodes back to itself, and whatever decodes is well formed and,
  unless it carries a voter set, is the only byte string for that envelope.\<close>

theorem config_envelope_codec:
  "(envelope_ok e \<longrightarrow> ConfigEnvelope_decode (ConfigEnvelope_encode e) = Inr e) \<and>
   (ConfigEnvelope_decode bytes = Inr e \<longrightarrow>
      envelope_ok e \<and> ((\<forall>vs. ce_operation e \<noteq> EnterJoint vs) \<longrightarrow> bytes = ConfigEnvelope_encode e))"
  using ConfigEnvelope_roundtrip ConfigEnvelope_sound by blast

definition sample_envelope :: config_envelope where
  "sample_envelope = \<lparr>ce_admin_session = None, ce_leader_time = 5, ce_operation = LeaveJoint 7\<rparr>"

theorem config_envelope_codec_witness:
  "ConfigEnvelope_decode (ConfigEnvelope_encode sample_envelope) = Inr sample_envelope"
  using config_envelope_codec[of sample_envelope "[]"] by (simp add: envelope_ok_def id_ok_def sample_envelope_def)

text \<open>C33: an encoded configuration envelope with any one byte of its body changed is refused.\<close>

theorem config_envelope_rejects_changed_byte:
  assumes "ConfigEnvelope_encode e = xs @ a # ys @ tail" "length tail = 4" "a \<noteq> b"
  shows "ConfigEnvelope_decode (xs @ b # ys @ tail) = Inl (InvalidTag (length (xs @ b # ys)) 0)"
  using assms by (rule ConfigEnvelope_rejects_byte)

theorem config_envelope_rejects_changed_byte_witness:
  "\<exists>err. ConfigEnvelope_decode
     ((hd (ConfigEnvelope_encode sample_envelope) + 1) # tl (ConfigEnvelope_encode sample_envelope)) = Inl err"
proof -
  define body where "body = ConfigEnvelope_body sample_envelope"
  have enc: "ConfigEnvelope_encode sample_envelope = body @ to_le 4 (crc32c (body @ [0, 0, 0, 0]))"
    by (simp add: ConfigEnvelope_encode_def body_def seal_eq)
  have "0 < length body" by (simp add: body_def ConfigEnvelope_body_def enc_header_def)
  then obtain a ys where b: "body = a # ys" by (cases body) auto
  have "ConfigEnvelope_encode sample_envelope = [] @ a # ys @ to_le 4 (crc32c (body @ [0, 0, 0, 0]))"
    by (simp only: enc b append.simps)
  from config_envelope_rejects_changed_byte[OF this, of "a + 1"] show ?thesis
    unfolding enc by (simp add: b)
qed

text \<open>C34: the administrative reply codec is canonical.\<close>

theorem admin_reply_canonical:
  "AdminReply_decode bytes = Inr r \<longleftrightarrow> bytes = AdminReply_encode r \<and> admin_reply_ok r"
  by (rule AdminReply_decode_iff)

text \<open>C35: a well-formed membership state encodes, and its encoding decodes back to it.\<close>

theorem membership_state_roundtrip:
  assumes "membership_ok m"
  shows "\<exists>bytes. MembershipState_encode m = Inr bytes \<and> MembershipState_decode bytes = Inr m"
  using assms by (rule MembershipState_roundtrip)

definition sample_membership :: membership_state where
  "sample_membership = \<lparr>ms_voters = [1, 2, 3], ms_learners = [4], ms_joint = None, ms_addresses = [],
     ms_active_features = 0\<rparr>"

theorem membership_state_roundtrip_witness:
  "\<exists>bytes. MembershipState_encode sample_membership = Inr bytes \<and>
     MembershipState_decode bytes = Inr sample_membership"
  by (rule membership_state_roundtrip)
    (simp add: membership_ok_def members_ok_def sample_membership_def bset_ok_def bmap_ok_def id_ok_def
      policy_consts MembershipState_validate_def)

section \<open>Checksum and random streams\<close>

text \<open>C36: changing one byte anywhere in a buffer always changes its CRC-32C.\<close>

theorem crc_detects_one_byte:
  assumes "a \<noteq> b"
  shows "crc32c (xs @ a # ys) \<noteq> crc32c (xs @ b # ys)"
  using assms by (rule crc32c_one_byte)

theorem crc_detects_one_byte_witness: "crc32c [1, 2, 3] \<noteq> crc32c [1, 7, 3]"
  using crc_detects_one_byte[of 2 7 "[1]" "[3]"] by simp

text \<open>C37: no draw ever reaches the all-zero state in which xoshiro256 is stuck, and a bounded draw
  lies in its range.\<close>

theorem rng_never_stuck:
  "xoshiro_live (((snd \<circ> Xoshiro_u64) ^^ k) (Xoshiro_stream seed domain i)) \<and>
   (low < high \<longrightarrow> low \<le> fst (range_u64 r low high) \<and> fst (range_u64 r low high) < high)"
proof -
  have "xoshiro_live (((snd \<circ> Xoshiro_u64) ^^ k) (Xoshiro_stream seed domain i))"
    by (induction k) (simp_all add: stream_live u64_live)
  then show ?thesis using range_u64_bounds by blast
qed

theorem rng_never_stuck_witness:
  "fst (range_u64 (Xoshiro_stream 1 [] 0) 3 8) \<in> {3..<8}"
  using rng_never_stuck[of 0 0 "[]" 0 3 8 "Xoshiro_stream 1 [] 0"] by simp

end
